(* ===== verification/Prelude.thy ===== *)
theory Prelude
  imports
    Complex_Main
    "HOL-Library.Char_ord"
    "HOL-Library.List_Lexorder"
    "HOL-Library.Finite_Map"
    "HOL-Library.Word"
begin

text \<open>
  Shared vocabulary of the development: Go strings as byte strings, Go maps as finite maps,
  the \<open>strings\<close>, \<open>sort\<close> and \<open>strconv\<close> routines the program calls, and the
  list and option lemmas the component theories use.
\<close>

section \<open>Collections of facts\<close>

named_theorems digit_defs \<open>digits and the characters that stand for them\<close>
named_theorems routing \<open>what the choice of a route unfolds to\<close>

section \<open>Types\<close>

text \<open>
  A Go \<open>string\<close> is a sequence of bytes; Isabelle's \<^typ>\<open>char\<close> is a byte, so \<^typ>\<open>string\<close>
  is the same type, and the lexicographic order of \<open>HOL-Library.List_Lexorder\<close> over
  \<open>Char_ord\<close> is Go's bytewise \<open><\<close>.

  A Go \<open>map[string]V\<close> is nil or a finite map; the distinction matters to
  \<open>reflect.DeepEqual\<close>, so it is kept: \<^term>\<open>None\<close> is the nil map.
  A nil map reads like an empty one.
\<close>

type_synonym 'v gomap = "(string, 'v) fmap option"

definition map_get :: "'v gomap \<Rightarrow> string \<Rightarrow> 'v option" where
  "map_get m k = (case m of None \<Rightarrow> None | Some f \<Rightarrow> fmlookup f k)"

definition map_keys_sorted :: "'v gomap \<Rightarrow> string list" where
  "map_keys_sorted m = (case m of None \<Rightarrow> [] | Some f \<Rightarrow> sorted_list_of_fset (fmdom f))"

definition map_len :: "'v gomap \<Rightarrow> nat" where
  "map_len m = (case m of None \<Rightarrow> 0 | Some f \<Rightarrow> fcard (fmdom f))"

text \<open>
  The order in which \<open>for k := range m\<close> visits a map is not determined by the language.
  Where the program iterates over a map, the order is an argument of the model: a list that
  enumerates the keys once each.
\<close>

definition range_order :: "'v gomap \<Rightarrow> string list \<Rightarrow> bool" where
  "range_order m ks \<longleftrightarrow> distinct ks \<and> set ks = {k. map_get m k \<noteq> None}"

lemma map_get_None [simp]: "map_get None k = None"
  by (simp add: map_get_def)

lemma map_get_Some [simp]: "map_get (Some f) k = fmlookup f k"
  by (simp add: map_get_def)

lemma sorted_list_of_fset_props [simp]:
  "sorted (sorted_list_of_fset A)" "distinct (sorted_list_of_fset A)"
  by (simp_all add: sorted_list_of_fset.rep_eq)

lemma sorted_list_of_fset_of_list [simp]:
  "sorted_list_of_fset (fset_of_list xs) = sort (remdups xs)"
  by (simp add: sorted_list_of_fset.rep_eq sorted_list_of_set_sort_remdups fset_of_list.rep_eq)

lemma set_map_keys_sorted: "set (map_keys_sorted m) = {k. map_get m k \<noteq> None}"
  by (cases m) (auto simp: map_keys_sorted_def fmlookup_dom_iff)

lemma sorted_map_keys_sorted [simp]: "sorted (map_keys_sorted m)"
  by (cases m) (simp_all add: map_keys_sorted_def)

lemma distinct_map_keys_sorted [simp]: "distinct (map_keys_sorted m)"
  by (cases m) (simp_all add: map_keys_sorted_def)

lemma sort_map_keys_sorted [simp]: "sort (map_keys_sorted m) = map_keys_sorted m"
  by (simp add: sorted_sort_id)

lemma range_order_sorted [simp, intro]: "range_order m (map_keys_sorted m)"
  by (simp add: range_order_def set_map_keys_sorted)

text \<open>Sorting any enumeration of the keys gives the same list: the reason the program sorts.\<close>

lemma sort_range_order:
  assumes "range_order m ks"
  shows "sort ks = map_keys_sorted m"
proof (rule sorted_distinct_set_unique)
  show "set (sort ks) = set (map_keys_sorted m)"
    using assms by (simp add: range_order_def set_map_keys_sorted)
qed (use assms in \<open>auto simp: range_order_def\<close>)

end
