(* ===== verification/Strings.thy ===== *)
theory Strings
  imports Prelude
begin

text \<open>
  The routines of Go's \<open>strings\<close> and \<open>strconv\<close> packages (integers only) that the program
  calls: \<open>TrimSpace\<close>, \<open>Cut\<close>, \<open>HasPrefix\<close>, \<open>Join\<close>, \<open>FormatInt\<close>, \<open>ParseInt\<close>, \<open>Atoi\<close>.
  The main facts are the round trip of decimal integers and the shape of decimal numerals,
  which the fingerprint encoding and the cursor encoding rest on.
\<close>

section \<open>Printing integers\<close>

definition digit_char :: "nat \<Rightarrow> char" where
  "digit_char d = (if d < 10 then char_of (48 + d) else char_of (87 + d))"

fun fmt_nat :: "nat \<Rightarrow> nat \<Rightarrow> string" where
  "fmt_nat b n = (if b < 2 \<or> n < b then [digit_char n]
                  else fmt_nat b (n div b) @ [digit_char (n mod b)])"

declare fmt_nat.simps [simp del]

definition FormatInt :: "int \<Rightarrow> nat \<Rightarrow> string" where
  "FormatInt i b = (if i < 0 then CHR ''-'' # fmt_nat b (nat (- i)) else fmt_nat b (nat i))"

abbreviation itoa :: "nat \<Rightarrow> string" where
  "itoa n \<equiv> fmt_nat 10 n"

section \<open>Reading integers\<close>

definition digit_val :: "char \<Rightarrow> nat option" where
  "digit_val c = (let v = of_char c in if 48 \<le> v \<and> v \<le> 57 then Some (v - 48) else None)"

definition is_digit :: "char \<Rightarrow> bool" where
  "is_digit c \<longleftrightarrow> digit_val c \<noteq> None"

fun digits_val :: "nat \<Rightarrow> string \<Rightarrow> nat option" where
  "digits_val acc [] = Some acc"
| "digits_val acc (c # cs) =
     (case digit_val c of None \<Rightarrow> None | Some d \<Rightarrow> digits_val (10 * acc + d) cs)"

definition parse_nat :: "string \<Rightarrow> nat option" where
  "parse_nat s = (if s = [] then None else digits_val 0 s)"

text \<open>
  \<open>strconv.ParseInt(s, 10, 64)\<close> and, with 64-bit \<open>int\<close>, \<open>strconv.Atoi(s)\<close>: an optional sign,
  at least one decimal digit, and a value in the range of \<open>int64\<close>. Only whether an error
  occurred is used by the callers, so every error is \<^term>\<open>None\<close>.
\<close>

definition ParseInt :: "string \<Rightarrow> int option" where
  "ParseInt s =
     (case s of
        [] \<Rightarrow> None
      | c # cs \<Rightarrow>
          (let neg = (c = CHR ''-'');
               body = (if c = CHR ''-'' \<or> c = CHR ''+'' then cs else s)
           in case parse_nat body of
                None \<Rightarrow> None
              | Some n \<Rightarrow>
                  if neg then (if n \<le> 2 ^ 63 then Some (- int n) else None)
                  else (if n < 2 ^ 63 then Some (int n) else None)))"

abbreviation Atoi :: "string \<Rightarrow> int option" where
  "Atoi \<equiv> ParseInt"

section \<open>Cutting, trimming, joining\<close>

text \<open>
  \<open>strings.Cut(s, sep)\<close> for a one-byte separator (the only kind the program uses):
  the text before and after the first separator, and whether there was one.
\<close>

definition Cut :: "string \<Rightarrow> char \<Rightarrow> string \<times> string \<times> bool" where
  "Cut s c = (case dropWhile (\<lambda>x. x \<noteq> c) s of
                [] \<Rightarrow> (s, [], False)
              | _ # rest \<Rightarrow> (takeWhile (\<lambda>x. x \<noteq> c) s, rest, True))"

definition HasPrefix :: "string \<Rightarrow> string \<Rightarrow> bool" where
  "HasPrefix s p \<longleftrightarrow> take (length p) s = p"

definition TrimPrefix :: "string \<Rightarrow> string \<Rightarrow> string" where
  "TrimPrefix s p = (if HasPrefix s p then drop (length p) s else s)"

fun Join :: "string list \<Rightarrow> string \<Rightarrow> string" where
  "Join [] sep = []"
| "Join [x] sep = x"
| "Join (x # y # xs) sep = x @ sep @ Join (y # xs) sep"

text \<open>
  \<open>strings.TrimSpace\<close> removes leading and trailing runes that Unicode classifies as white
  space. In a UTF-8 byte string such a rune is one of the following byte sequences; none is a
  prefix or a suffix of another, so removing them one at a time is what decoding rune by
  rune does.
\<close>

definition white_space :: "string list" where
  "white_space =
     map (map char_of)
       ([[9], [10], [11], [12], [13], [32], [194, 133], [194, 160], [225, 154, 128],
         [226, 128, 168], [226, 128, 169], [226, 128, 175], [226, 129, 159],
         [227, 128, 128]] @ map (\<lambda>i. [226, 128, 128 + i]) [0 ..< 11 :: nat])"

definition white_space_rev :: "string list" where
  "white_space_rev = map rev white_space"

definition strip_one :: "string list \<Rightarrow> string \<Rightarrow> string" where
  "strip_one seps s =
     (case List.find (HasPrefix s) seps of None \<Rightarrow> s | Some p \<Rightarrow> drop (length p) s)"

fun trim_left :: "string list \<Rightarrow> string \<Rightarrow> string" where
  "trim_left seps s =
     (let t = strip_one seps s in if length t < length s then trim_left seps t else s)"

declare trim_left.simps [simp del]

definition TrimSpace :: "string \<Rightarrow> string" where
  "TrimSpace s = rev (trim_left white_space_rev (rev (trim_left white_space s)))"

lemmas [digit_defs] = digit_char_def digit_val_def is_digit_def
  ParseInt_def Cut_def HasPrefix_def TrimPrefix_def

section \<open>Decimal numerals\<close>

lemma digit_val_digit_char [simp]: "d < 10 \<Longrightarrow> digit_val (digit_char d) = Some d"
  by (simp add: digit_defs)

lemma is_digit_digit_char [simp]: "d < 10 \<Longrightarrow> is_digit (digit_char d)"
  by (simp add: is_digit_def)

lemma digits_val_append:
  "digits_val a (s @ t) = (case digits_val a s of None \<Rightarrow> None | Some v \<Rightarrow> digits_val v t)"
  by (induction a s rule: digits_val.induct) (auto split: option.splits)

lemma fmt_nat_nonempty [simp]: "fmt_nat b n \<noteq> []"
  by (subst fmt_nat.simps) simp

lemma fmt_nat_digits: "b \<le> 10 \<Longrightarrow> 2 \<le> b \<Longrightarrow> \<forall>c \<in> set (fmt_nat b n). is_digit c"
proof (induction b n rule: fmt_nat.induct)
  case (1 b n)
  have "n mod b < 10" using "1.prems" by (meson le_trans less_le_trans mod_less_divisor not_numeral_le_zero pos2)
  with 1 show ?case by (subst fmt_nat.simps) auto
qed

lemma digits_val_itoa: "digits_val 0 (itoa n) = Some n"
proof (induction "10::nat" n rule: fmt_nat.induct)
  case (1 n)
  show ?case
  proof (cases "n < 10")
    case True
    then show ?thesis by (subst fmt_nat.simps) simp
  next
    case False
    with 1 have "digits_val 0 (itoa (n div 10)) = Some (n div 10)" by simp
    with False show ?thesis by (subst fmt_nat.simps) (simp add: digits_val_append)
  qed
qed

lemma parse_nat_itoa [simp]: "parse_nat (itoa n) = Some n"
  by (simp add: parse_nat_def digits_val_itoa)

lemma itoa_inject [simp]: "itoa m = itoa n \<longleftrightarrow> m = n"
  by (metis option.inject parse_nat_itoa)

lemma not_is_digit [simp]:
  "\<not> is_digit CHR '':''" "\<not> is_digit CHR ''-''" "\<not> is_digit CHR ''+''" "\<not> is_digit CHR ''.''"
  "\<not> is_digit CHR ''e''" "\<not> is_digit CHR ''E''"
  by (simp_all add: digit_defs)

lemma itoa_is_digit: "c \<in> set (itoa n) \<Longrightarrow> is_digit c"
  using fmt_nat_digits [of 10 n] by simp

lemma itoa_no_colon [simp]: "CHR '':'' \<notin> set (itoa n)"
  using itoa_is_digit by fastforce

lemma itoa_hd: "itoa n = c # cs \<Longrightarrow> c \<noteq> CHR ''-'' \<and> c \<noteq> CHR ''+''"
  using itoa_is_digit [of c n] by auto

lemma FormatInt_no_colon [simp]: "CHR '':'' \<notin> set (FormatInt i 10)"
  by (simp add: FormatInt_def)

lemma ParseInt_FormatInt:
  assumes "- (2 ^ 63) \<le> i" "i < 2 ^ 63"
  shows "ParseInt (FormatInt i 10) = Some i"
proof (cases "i < 0")
  case True
  with assms show ?thesis by (simp add: ParseInt_def FormatInt_def nat_le_iff)
next
  case False
  obtain c cs where c: "itoa (nat i) = c # cs" by (meson fmt_nat_nonempty neq_Nil_conv)
  then have "parse_nat (c # cs) = Some (nat i)" by (metis parse_nat_itoa)
  with itoa_hd [OF c] c False assms show ?thesis
    by (simp add: ParseInt_def FormatInt_def nat_less_iff)
qed

lemma FormatInt_inject [simp]: "FormatInt i 10 = FormatInt j 10 \<longleftrightarrow> i = j"
proof
  assume eq: "FormatInt i 10 = FormatInt j 10"
  obtain c cs where i: "itoa (nat i) = c # cs" by (meson fmt_nat_nonempty neq_Nil_conv)
  obtain d ds where j: "itoa (nat j) = d # ds" by (meson fmt_nat_nonempty neq_Nil_conv)
  from eq itoa_hd [OF i] itoa_hd [OF j] show "i = j"
    by (auto simp: FormatInt_def i j split: if_splits)
      (metis i j itoa_inject int_nat_eq not_less)
qed simp

section \<open>Cut at a separator\<close>

lemma Cut_append [simp]:
  "c \<notin> set s \<Longrightarrow> Cut (s @ c # t) c = (s, t, True)"
  by (auto simp: Cut_def dropWhile_append takeWhile_append)

lemma Cut_True: "Cut s c = (a, b, True) \<Longrightarrow> s = a @ c # b \<and> c \<notin> set a"
proof -
  assume cut: "Cut s c = (a, b, True)"
  then obtain x where dw: "dropWhile (\<lambda>x. x \<noteq> c) s = x # b" and a: "a = takeWhile (\<lambda>x. x \<noteq> c) s"
    by (auto simp: Cut_def split: list.splits)
  then have "x = c" using hd_dropWhile [of "\<lambda>x. x \<noteq> c" s] by (metis list.discI list.sel(1))
  with dw a show ?thesis
    by (metis (mono_tags, lifting) set_takeWhileD takeWhile_dropWhile_id)
qed

lemma Cut_False: "Cut s c = (a, b, False) \<longleftrightarrow> c \<notin> set s \<and> a = s \<and> b = []"
proof (cases "c \<in> set s")
  case True
  then have "dropWhile (\<lambda>x. x \<noteq> c) s \<noteq> []" by (auto simp: dropWhile_eq_Nil_conv)
  with True show ?thesis by (auto simp: Cut_def split: list.splits)
next
  case False
  then have dw: "dropWhile (\<lambda>x. x \<noteq> c) s = []" by (auto simp: dropWhile_eq_Nil_conv)
  have "Cut s c = (s, [], False)" unfolding Cut_def dw by simp
  with False show ?thesis by auto
qed

section \<open>Trimming white space\<close>

lemma trim_left_length: "length (trim_left seps s) \<le> length s"
  by (induction seps s rule: trim_left.induct) (subst trim_left.simps, auto simp: Let_def)

lemma trim_left_Nil [simp]: "trim_left seps [] = []"
  by (subst trim_left.simps) (simp add: Let_def)

lemma TrimSpace_Nil [simp]: "TrimSpace [] = []"
  by (simp add: TrimSpace_def)

text \<open>Nothing is trimmed off a string of visible ASCII characters.\<close>

definition visible :: "char \<Rightarrow> bool" where
  "visible c \<longleftrightarrow> 32 < (of_char c :: nat) \<and> (of_char c :: nat) < 128"

lemma white_space_not_visible:
  "list_all (\<lambda>p. p \<noteq> [] \<and> \<not> visible (hd p) \<and> \<not> visible (last p)) white_space"
  by (simp add: white_space_def visible_def upt_rec of_char_of)

lemma trim_left_visible:
  assumes "list_all (\<lambda>p. p \<noteq> [] \<and> \<not> visible (hd p)) seps" "list_all visible s"
  shows "trim_left seps s = s"
proof -
  have "List.find (HasPrefix s) seps = None"
    using assms by (cases s) (auto simp: find_None_iff list_all_iff HasPrefix_def neq_Nil_conv)
  then show ?thesis by (subst trim_left.simps) (simp add: strip_one_def)
qed

lemma TrimSpace_visible: "list_all visible s \<Longrightarrow> TrimSpace s = s"
  using white_space_not_visible unfolding TrimSpace_def
  by (subst (2) trim_left_visible, simp add: list_all_iff, simp)
    (subst trim_left_visible, auto simp: list_all_iff white_space_rev_def hd_rev)

end
