(* ===== verification/Float64.thy ===== *)
theory Float64
  imports Strings "HOL-Library.Log_Nat"
begin

text \<open>
  Go's \<open>float64\<close> as IEEE 754 binary64: the bit pattern as a 64-bit word, correct rounding of
  rationals (to nearest, ties to even), arithmetic, and the two conversions of \<open>strconv\<close>
  the program uses, \<open>ParseFloat\<close> on plain decimal literals and \<open>FormatFloat(f, 'g', -1, 64)\<close>.
  Everything computes on integers, so that concrete values evaluate in the kernel.
\<close>

type_synonym float64 = "64 word"

section \<open>Rounding a rational\<close>

definition ge_pow2 :: "int \<Rightarrow> int \<Rightarrow> int \<Rightarrow> bool" where
  "ge_pow2 p q k \<longleftrightarrow> (if 0 \<le> k then q * 2 ^ nat k \<le> p else q \<le> p * 2 ^ nat (- k))"

text \<open>The binary exponent of a positive rational \<open>p / q\<close>.\<close>

definition flog2 :: "int \<Rightarrow> int \<Rightarrow> int" where
  "flog2 p q = (let k = bitlen p - bitlen q in if ge_pow2 p q k then k else k - 1)"

text \<open>Nearest integer to \<open>n / d\<close>, ties to even.\<close>

definition rne :: "int \<Rightarrow> int \<Rightarrow> int" where
  "rne n d = (let k = n div d; r = n mod d
              in if 2 * r < d \<or> (2 * r = d \<and> even k) then k else k + 1)"

text \<open>
  The magnitude bits of the float nearest to the non-negative rational \<open>p / q\<close>. The exponent
  field and the mantissa add up, so that a mantissa rounded up to the next power of two
  carries into the exponent by itself.
\<close>

definition round_mag :: "int \<Rightarrow> int \<Rightarrow> int" where
  "round_mag p q =
     (if p = 0 then 0
      else let e = max (- 1074) (flog2 p q - 52);
               m = (if 0 \<le> e then rne p (q * 2 ^ nat e) else rne (p * 2 ^ nat (- e)) q)
           in (e + 1074) * 2 ^ 52 + m)"

definition inf_mag :: int where
  "inf_mag = 2047 * 2 ^ 52"

definition f64_of_mag :: "bool \<Rightarrow> int \<Rightarrow> float64" where
  "f64_of_mag neg b = word_of_int ((if neg then 2 ^ 63 else 0) + min b inf_mag)"

section \<open>Reading the fields\<close>

definition f64_neg :: "float64 \<Rightarrow> bool" where
  "f64_neg f \<longleftrightarrow> uint f \<ge> 2 ^ 63"

definition f64_mag :: "float64 \<Rightarrow> int" where
  "f64_mag f = uint f mod 2 ^ 63"

definition is_nan :: "float64 \<Rightarrow> bool" where
  "is_nan f \<longleftrightarrow> f64_mag f > inf_mag"

definition is_inf :: "float64 \<Rightarrow> bool" where
  "is_inf f \<longleftrightarrow> f64_mag f = inf_mag"

definition is_finite :: "float64 \<Rightarrow> bool" where
  "is_finite f \<longleftrightarrow> f64_mag f < inf_mag"

definition mag_mant :: "int \<Rightarrow> int" where
  "mag_mant b = (if b div 2 ^ 52 = 0 then b mod 2 ^ 52 else b mod 2 ^ 52 + 2 ^ 52)"

definition mag_exp :: "int \<Rightarrow> int" where
  "mag_exp b = (if b div 2 ^ 52 = 0 then - 1074 else b div 2 ^ 52 - 1075)"

text \<open>The exact value of a finite float as a signed numerator and a positive denominator.\<close>

definition f64_num :: "float64 \<Rightarrow> int" where
  "f64_num f = (if f64_neg f then - 1 else 1) * mag_mant (f64_mag f) * 2 ^ nat (mag_exp (f64_mag f))"

definition f64_den :: "float64 \<Rightarrow> int" where
  "f64_den f = 2 ^ nat (- mag_exp (f64_mag f))"

section \<open>Comparison and arithmetic\<close>

text \<open>Go's \<open>==\<close> and \<open><\<close>: NaN is unequal to everything, the two zeros are equal.\<close>

definition f64_ord :: "float64 \<Rightarrow> int" where
  "f64_ord f = (if f64_neg f then - f64_mag f else f64_mag f)"

definition f64_eq :: "float64 \<Rightarrow> float64 \<Rightarrow> bool" where
  "f64_eq a b \<longleftrightarrow> \<not> is_nan a \<and> \<not> is_nan b \<and> f64_ord a = f64_ord b"

definition f64_less :: "float64 \<Rightarrow> float64 \<Rightarrow> bool" where
  "f64_less a b \<longleftrightarrow> \<not> is_nan a \<and> \<not> is_nan b \<and> f64_ord a < f64_ord b"

definition nan64 :: float64 where
  "nan64 = word_of_int (inf_mag + 2 ^ 51)"

definition inf64 :: "bool \<Rightarrow> float64" where
  "inf64 neg = f64_of_mag neg inf_mag"

definition zero64 :: "bool \<Rightarrow> float64" where
  "zero64 neg = f64_of_mag neg 0"

definition f64_ratio :: "int \<Rightarrow> int \<Rightarrow> float64" where
  "f64_ratio p q = f64_of_mag (p < 0) (round_mag \<bar>p\<bar> q)"

definition f64_of_int :: "int \<Rightarrow> float64" where
  "f64_of_int i = f64_ratio i 1"

definition f64_neg_of :: "float64 \<Rightarrow> float64" where
  "f64_neg_of f = f64_of_mag (\<not> f64_neg f) (f64_mag f)"

definition f64_add :: "float64 \<Rightarrow> float64 \<Rightarrow> float64" where
  "f64_add a b =
     (if is_nan a \<or> is_nan b then nan64
      else if is_inf a then (if is_inf b \<and> f64_neg a \<noteq> f64_neg b then nan64 else a)
      else if is_inf b then b
      else let n = f64_num a * f64_den b + f64_num b * f64_den a
           in if n = 0 then zero64 (f64_neg a \<and> f64_neg b)
              else f64_ratio n (f64_den a * f64_den b))"

definition f64_sub :: "float64 \<Rightarrow> float64 \<Rightarrow> float64" where
  "f64_sub a b = (if is_nan b then nan64 else f64_add a (f64_neg_of b))"

definition f64_mul :: "float64 \<Rightarrow> float64 \<Rightarrow> float64" where
  "f64_mul a b =
     (let s = (f64_neg a \<noteq> f64_neg b)
      in if is_nan a \<or> is_nan b then nan64
         else if is_inf a then (if f64_mag b = 0 then nan64 else inf64 s)
         else if is_inf b then (if f64_mag a = 0 then nan64 else inf64 s)
         else f64_of_mag s (round_mag \<bar>f64_num a * f64_num b\<bar> (f64_den a * f64_den b)))"

definition f64_div :: "float64 \<Rightarrow> float64 \<Rightarrow> float64" where
  "f64_div a b =
     (let s = (f64_neg a \<noteq> f64_neg b)
      in if is_nan a \<or> is_nan b then nan64
         else if is_inf a then (if is_inf b then nan64 else inf64 s)
         else if is_inf b then zero64 s
         else if f64_mag b = 0 then (if f64_mag a = 0 then nan64 else inf64 s)
         else f64_of_mag s (round_mag (\<bar>f64_num a\<bar> * f64_den b) (f64_den a * \<bar>f64_num b\<bar>)))"

definition f64_abs :: "float64 \<Rightarrow> float64" where
  "f64_abs f = word_of_int (f64_mag f)"

function isqrt :: "int \<Rightarrow> int" where
  "isqrt n = (if n \<le> 0 then 0
              else let r = 2 * isqrt (n div 4) in if (r + 1) * (r + 1) \<le> n then r + 1 else r)"
  by pat_completeness auto
termination
  by (relation "measure nat") (auto simp: nat_mono_iff)

declare isqrt.simps [simp del]

text \<open>
  \<open>math.Sqrt\<close> is correctly rounded. The operand is scaled by a power of four until its integer
  square root has more than 60 bits; a non-zero remainder is kept as one extra bit, which is all
  the rounding has to know about it.
\<close>

definition f64_sqrt :: "float64 \<Rightarrow> float64" where
  "f64_sqrt f =
     (if is_nan f \<or> f64_mag f = 0 then f
      else if f64_neg f then nan64
      else if is_inf f then f
      else let k = 600; n = f64_num f * 4 ^ k div f64_den f; s = isqrt n
           in f64_of_mag False (round_mag (2 * s + (if s * s = n then 0 else 1)) (2 * 2 ^ k)))"

section \<open>Decimal literals\<close>

text \<open>
  The syntax the program admits to \<open>strconv.ParseFloat\<close>: the regular expression
  \<^verbatim>\<open>^-?((0|[1-9]\d*)(\.\d+)?|\.\d+)([eE][+-]?\d+)?$\<close>. The result is the sign, the digits before
  and after the point, and the exponent. The exponent is accumulated the way \<open>readFloat\<close>
  does it: digits are ignored once the value has reached 10000, which no finite float is
  near.
\<close>

definition exp_digit :: "int \<Rightarrow> char \<Rightarrow> int" where
  "exp_digit e c = (if e < 10000 then 10 * e + (of_char c - 48) else e)"

definition parse_exp :: "string \<Rightarrow> int option" where
  "parse_exp s =
     (case s of
        [] \<Rightarrow> Some 0
      | c # t \<Rightarrow>
          (if c = CHR ''e'' \<or> c = CHR ''E'' then
             (let neg = (t \<noteq> [] \<and> hd t = CHR ''-'');
                  ds = (if t \<noteq> [] \<and> (hd t = CHR ''-'' \<or> hd t = CHR ''+'') then tl t else t);
                  v = foldl exp_digit 0 ds
              in if ds \<noteq> [] \<and> list_all is_digit ds then Some (if neg then - v else v) else None)
           else None))"

definition int_part_ok :: "string \<Rightarrow> bool" where
  "int_part_ok ip \<longleftrightarrow> ip \<noteq> [] \<and> (hd ip \<noteq> CHR ''0'' \<or> ip = ''0'')"

definition parse_decimal :: "string \<Rightarrow> (bool \<times> string \<times> string \<times> int) option" where
  "parse_decimal s =
     (let neg = (s \<noteq> [] \<and> hd s = CHR ''-'');
          u = (if neg then tl s else s);
          ip = takeWhile is_digit u;
          r = dropWhile is_digit u
      in if r \<noteq> [] \<and> hd r = CHR ''.'' then
           (let fp = takeWhile is_digit (tl r)
            in if fp \<noteq> [] \<and> (ip = [] \<or> int_part_ok ip) then
                 map_option (\<lambda>x. (neg, ip, fp, x)) (parse_exp (dropWhile is_digit (tl r)))
               else None)
         else if int_part_ok ip then map_option (\<lambda>x. (neg, ip, [], x)) (parse_exp r)
         else None)"

definition digits_int :: "string \<Rightarrow> int" where
  "digits_int s = foldl (\<lambda>a c. 10 * a + (of_char c - 48)) 0 s"

text \<open>The rational a literal denotes, as numerator and denominator.\<close>

definition decimal_num :: "string \<Rightarrow> string \<Rightarrow> int \<Rightarrow> int" where
  "decimal_num ip fp x = digits_int (ip @ fp) * 10 ^ nat (x - int (length fp))"

definition decimal_den :: "string \<Rightarrow> int \<Rightarrow> int" where
  "decimal_den fp x = 10 ^ nat (int (length fp) - x)"

text \<open>
  \<open>strconv.ParseFloat(v, 64)\<close> on such a literal: the nearest float, and whether the error is
  \<open>ErrRange\<close> (the magnitude rounds to infinity). \<^term>\<open>None\<close> is a syntax error.
\<close>

definition ParseFloat :: "string \<Rightarrow> (float64 \<times> bool) option" where
  "ParseFloat s =
     (case parse_decimal s of
        None \<Rightarrow> None
      | Some (neg, ip, fp, x) \<Rightarrow>
          (let b = round_mag (decimal_num ip fp x) (decimal_den fp x)
           in Some (f64_of_mag neg b, inf_mag \<le> b)))"

section \<open>Shortest formatting\<close>

text \<open>
  A finite float is exactly \<open>N / 10 ^ j\<close>. The shortest decimal that reads back as the same
  float is searched by its number of digits \<open>n\<close>: the candidates are \<open>N\<close> cut after \<open>n\<close> digits
  and that plus one unit; if both read back, the closer one is taken.
\<close>

function fmt_int :: "int \<Rightarrow> string" where
  "fmt_int n = (if n < 10 then [char_of (48 + n)] else fmt_int (n div 10) @ [char_of (48 + n mod 10)])"
  by pat_completeness auto
termination
  by (relation "measure nat") (auto simp: nat_mono_iff)

declare fmt_int.simps [simp del]

definition exact_num :: "int \<Rightarrow> int" where
  "exact_num b = (let e = mag_exp b in if 0 \<le> e then mag_mant b * 2 ^ nat e else mag_mant b * 5 ^ nat (- e))"

definition exact_pow :: "int \<Rightarrow> nat" where
  "exact_pow b = nat (- mag_exp b)"

definition reads_back :: "int \<Rightarrow> nat \<Rightarrow> nat \<Rightarrow> int \<Rightarrow> bool" where
  "reads_back b j dr c \<longleftrightarrow>
     (if j \<le> dr then round_mag (c * 10 ^ (dr - j)) 1 else round_mag c (10 ^ (j - dr))) = b"

definition shortest_at :: "int \<Rightarrow> int \<Rightarrow> nat \<Rightarrow> nat \<Rightarrow> int option" where
  "shortest_at b n j dr =
     (let lo = n div 10 ^ dr; r = n mod 10 ^ dr; okl = reads_back b j dr lo;
          okh = reads_back b j dr (lo + 1)
      in if okl \<and> okh then
           Some (if 2 * r < 10 ^ dr \<or> (2 * r = 10 ^ dr \<and> even lo) then lo else lo + 1)
         else if okl then Some lo else if okh then Some (lo + 1) else None)"

text \<open>Cutting fewer and fewer digits off; cutting none is exact.\<close>

fun shortest_cut :: "int \<Rightarrow> int \<Rightarrow> nat \<Rightarrow> nat \<Rightarrow> int \<times> nat" where
  "shortest_cut b n j 0 = (n, 0)"
| "shortest_cut b n j (Suc dr) =
     (case shortest_at b n j (Suc dr) of Some c \<Rightarrow> (c, Suc dr) | None \<Rightarrow> shortest_cut b n j dr)"

text \<open>The digits without trailing zeros and the position of the decimal point (0.ds * 10^dp).\<close>

definition shortest :: "int \<Rightarrow> string \<times> int" where
  "shortest b =
     (if b = 0 then ([], 0)
      else let n = exact_num b; j = exact_pow b;
               (c, dr) = shortest_cut b n j (length (fmt_int n) - 1);
               ds = fmt_int c
           in (rev (dropWhile (\<lambda>d. d = CHR ''0'') (rev ds)),
               int (length ds) + int dr - int j))"

definition fmt_exp :: "int \<Rightarrow> string" where
  "fmt_exp x = (if x < 0 then CHR ''-'' else CHR ''+'')
       # (if \<bar>x\<bar> < 10 then CHR ''0'' # fmt_int \<bar>x\<bar> else fmt_int \<bar>x\<bar>)"

definition fmt_e :: "string \<Rightarrow> int \<Rightarrow> string" where
  "fmt_e ds dp = hd ds # (if tl ds = [] then [] else CHR ''.'' # tl ds) @ CHR ''e'' # fmt_exp (dp - 1)"

definition fmt_f :: "string \<Rightarrow> int \<Rightarrow> string" where
  "fmt_f ds dp =
     (if 0 < dp then take (nat dp) ds @ replicate (nat dp - length ds) (CHR ''0'') else ''0'')
     @ (if int (length ds) \<le> dp \<or> ds = [] then []
        else CHR ''.'' # replicate (nat (- dp)) (CHR ''0'') @ drop (nat dp) ds)"

text \<open>\<open>strconv.FormatFloat(f, 'g', -1, 64)\<close>, also what \<open>fmt\<close> prints for \<^verbatim>\<open>%g\<close>.\<close>

definition FormatFloat :: "float64 \<Rightarrow> string" where
  "FormatFloat f =
     (if is_nan f then ''NaN''
      else if is_inf f then (if f64_neg f then ''-Inf'' else ''+Inf'')
      else let (ds, dp) = shortest (f64_mag f);
               body = (if dp - 1 < - 4 \<or> dp - 1 \<ge> 6 then fmt_e ds dp else fmt_f ds dp)
           in (if f64_neg f then CHR ''-'' # body else body))"

section \<open>Rounding agrees with its definition over the reals\<close>

definition rne_real :: "real \<Rightarrow> int" where
  "rne_real x = (let k = \<lfloor>x\<rfloor>; r = x - of_int k
                 in if 2 * r < 1 \<or> (2 * r = 1 \<and> even k) then k else k + 1)"

definition round_real :: "real \<Rightarrow> int" where
  "round_real x =
     (if x = 0 then 0
      else let e = max (- 1074) (\<lfloor>log 2 x\<rfloor> - 52)
           in (e + 1074) * 2 ^ 52 + rne_real (x * 2 powr - real_of_int e))"

lemma ge_pow2_iff:
  assumes "0 < q"
  shows "ge_pow2 p q k \<longleftrightarrow> 2 powr real_of_int k \<le> real_of_int p / real_of_int q"
proof (cases "0 \<le> k")
  case True
  then have "2 powr real_of_int k = real_of_int (2 ^ nat k)"
    by (simp add: powr_real_of_int)
  moreover have "q * 2 ^ nat k \<le> p \<longleftrightarrow> real_of_int (q * 2 ^ nat k) \<le> real_of_int p"
    by (simp only: of_int_le_iff)
  ultimately show ?thesis using True assms by (simp add: ge_pow2_def pos_le_divide_eq mult.commute)
next
  case False
  then have "2 powr real_of_int k = inverse (real_of_int (2 ^ nat (- k)))"
    by (simp add: powr_real_of_int inverse_eq_divide)
  moreover have "q \<le> p * 2 ^ nat (- k) \<longleftrightarrow> real_of_int q \<le> real_of_int (p * 2 ^ nat (- k))"
    by (simp only: of_int_le_iff)
  moreover have "0 < (2::real) ^ nat (- k)" by simp
  ultimately show ?thesis using False assms
    by (simp add: ge_pow2_def pos_le_divide_eq inverse_eq_divide pos_divide_le_eq)
qed

lemma flog2_eq:
  assumes "0 < p" "0 < q"
  shows "flog2 p q = \<lfloor>log 2 (real_of_int p / real_of_int q)\<rfloor>"
proof -
  let ?x = "real_of_int p / real_of_int q" and ?k = "bitlen p - bitlen q"
  have x: "0 < ?x" using assms by simp
  have lg: "log 2 ?x = log 2 p - log 2 q" using assms by (simp add: log_divide)
  have "of_int (bitlen n) - 1 \<le> log 2 n \<and> log 2 n < of_int (bitlen n)" if "0 < n" for n
    using that by (simp add: bitlen_alt_def)
  from this [OF assms(1)] this [OF assms(2)] lg
  have b: "of_int ?k - 1 < log 2 ?x" "log 2 ?x < of_int ?k + 1" by linarith+
  have "ge_pow2 p q ?k \<longleftrightarrow> of_int ?k \<le> log 2 ?x"
    unfolding ge_pow2_iff [OF assms(2)] using x by (simp add: le_log_iff)
  with b show ?thesis unfolding flog2_def Let_def
    by (cases "ge_pow2 p q ?k") (simp_all add: eq_commute [of _ "floor _"] floor_eq_iff)
qed

lemma rne_eq:
  assumes "0 < d"
  shows "rne n d = rne_real (real_of_int n / real_of_int d)"
proof -
  have k: "\<lfloor>real_of_int n / real_of_int d\<rfloor> = n div d" by (rule floor_divide_of_int_eq)
  have "real_of_int n = real_of_int d * real_of_int (n div d) + real_of_int (n mod d)"
    by (metis mult_div_mod_eq of_int_add of_int_mult)
  then have r: "real_of_int n / real_of_int d - real_of_int (n div d) = real_of_int (n mod d) / real_of_int d"
    using assms by (simp add: field_simps)
  have "2 * (real_of_int (n mod d) / real_of_int d) < 1 \<longleftrightarrow> real_of_int (2 * (n mod d)) < real_of_int d"
    using assms by (simp add: field_simps)
  then have "2 * (real_of_int (n mod d) / real_of_int d) < 1 \<longleftrightarrow> 2 * (n mod d) < d"
    by (simp only: of_int_less_iff)
  moreover have "2 * (real_of_int (n mod d) / real_of_int d) = 1 \<longleftrightarrow> real_of_int (2 * (n mod d)) = real_of_int d"
    using assms by (auto simp: field_simps)
  then have "2 * (real_of_int (n mod d) / real_of_int d) = 1 \<longleftrightarrow> 2 * (n mod d) = d"
    by (simp only: of_int_eq_iff)
  ultimately show ?thesis unfolding rne_def rne_real_def Let_def k r by simp
qed

lemma round_mag_eq:
  assumes "0 \<le> p" "0 < q"
  shows "round_mag p q = round_real (real_of_int p / real_of_int q)"
proof (cases "p = 0")
  case True
  then show ?thesis by (simp add: round_mag_def round_real_def)
next
  case False
  with assms have p: "0 < p" by simp
  define e where "e = max (- 1074) (flog2 p q - 52)"
  have m: "(if 0 \<le> e then rne p (q * 2 ^ nat e) else rne (p * 2 ^ nat (- e)) q)
      = rne_real (real_of_int p / real_of_int q * 2 powr - real_of_int e)"
  proof (cases "0 \<le> e")
    case True
    then have "2 powr - real_of_int e = inverse (2 ^ nat e)"
      by (simp add: powr_minus powr_real_of_int)
    with True assms show ?thesis by (simp add: rne_eq divide_inverse mult.assoc)
  next
    case False
    then have "2 powr - real_of_int e = 2 ^ nat (- e)" using powr_real_of_int [of 2 "- e"] by simp
    with False assms show ?thesis by (simp add: rne_eq)
  qed
  have "round_mag p q = (e + 1074) * 2 ^ 52 + (if 0 \<le> e then rne p (q * 2 ^ nat e) else rne (p * 2 ^ nat (- e)) q)"
    unfolding round_mag_def e_def Let_def using False by (simp only: if_False)
  with m False assms show ?thesis by (simp add: round_real_def e_def flog2_eq [OF p assms(2)] Let_def)
qed

section \<open>Rounding the exact value of a float gives the float back\<close>

definition mag_value :: "int \<Rightarrow> real" where
  "mag_value b = real_of_int (mag_mant b) * 2 powr real_of_int (mag_exp b)"

lemma mag_fields:
  assumes "0 \<le> b"
  shows "0 \<le> mag_mant b" "mag_mant b < 2 ^ 53" "- 1074 \<le> mag_exp b"
    "2 ^ 52 \<le> mag_mant b \<or> mag_exp b = - 1074" "b = (mag_exp b + 1074) * 2 ^ 52 + mag_mant b"
    "mag_mant b = 0 \<longleftrightarrow> b = 0"
proof -
  have d: "b = b div 2 ^ 52 * 2 ^ 52 + b mod 2 ^ 52" by simp
  have r: "0 \<le> b mod 2 ^ 52" "b mod 2 ^ 52 < 2 ^ 52" by simp_all
  have q: "0 \<le> b div 2 ^ 52" using assms by (simp add: pos_imp_zdiv_nonneg_iff)
  show "0 \<le> mag_mant b" "mag_mant b < 2 ^ 53" "- 1074 \<le> mag_exp b"
    "2 ^ 52 \<le> mag_mant b \<or> mag_exp b = - 1074"
    using r q unfolding mag_mant_def mag_exp_def by (auto split: if_splits)
  show "b = (mag_exp b + 1074) * 2 ^ 52 + mag_mant b"
    using d unfolding mag_mant_def mag_exp_def by (auto simp: algebra_simps split: if_splits)
  show "mag_mant b = 0 \<longleftrightarrow> b = 0"
    using d r q unfolding mag_mant_def by (auto split: if_splits)
qed

lemma rne_real_of_int [simp]: "rne_real (real_of_int k) = k"
  by (simp add: rne_real_def)

lemma round_real_exact:
  assumes "0 \<le> b"
  shows "round_real (mag_value b) = b"
proof (cases "b = 0")
  case True
  then show ?thesis by (simp add: round_real_def mag_value_def mag_mant_def)
next
  case False
  note f = mag_fields [OF assms]
  let ?m = "mag_mant b" and ?e = "mag_exp b"
  have m: "0 < ?m" using f(1,6) False by linarith
  have lg: "log 2 (mag_value b) = log 2 (real_of_int ?m) + real_of_int ?e"
    using m by (simp add: mag_value_def log_mult)
  have lt: "log 2 (real_of_int ?m) < real k \<longleftrightarrow> ?m < 2 ^ k" for k
  proof -
    have "log 2 (real_of_int ?m) < real k \<longleftrightarrow> real_of_int ?m < real_of_int (2 ^ k)"
      using m by (simp add: log_less_iff powr_realpow)
    then show ?thesis by (simp only: of_int_less_iff)
  qed
  have lm: "log 2 (real_of_int ?m) < 53" using lt [of 53] f(2) by simp
  have e: "max (- 1074) (\<lfloor>log 2 (mag_value b)\<rfloor> - 52) = ?e"
  proof (cases "2 ^ 52 \<le> ?m")
    case True
    then have "52 \<le> log 2 (real_of_int ?m)" using lt [of 52] by (simp add: not_less)
    with lg lm have "\<lfloor>log 2 (mag_value b)\<rfloor> = 52 + ?e" by (simp add: floor_eq_iff)
    with f(3) show ?thesis by simp
  next
    case False
    then have "log 2 (real_of_int ?m) < 52" using lt [of 52] by simp
    moreover have "?e = - 1074" using False f(4) by simp
    ultimately have "\<lfloor>log 2 (mag_value b)\<rfloor> < 52 - 1074" using lg by (simp add: floor_less_iff)
    then have "\<lfloor>log 2 (mag_value b)\<rfloor> - 52 \<le> - 1074" by linarith
    then show ?thesis using \<open>?e = - 1074\<close> by (simp only: max_absorb1)
  qed
  have "mag_value b * 2 powr - real_of_int ?e = real_of_int ?m"
    by (simp add: mag_value_def powr_minus)
  moreover have "mag_value b \<noteq> 0" using m by (simp add: mag_value_def)
  ultimately have "round_real (mag_value b) = (?e + 1074) * 2 ^ 52 + ?m"
    unfolding round_real_def Let_def e by simp
  with f(5) show ?thesis by simp
qed

text \<open>The sign bit and the magnitude are the whole word.\<close>

lemma uint_f64_fields: "uint f = (if f64_neg f then 2 ^ 63 else 0) + f64_mag f"
proof -
  have "uint f < 2 ^ 64" "0 \<le> uint f" using uint_lt2p [of f] by simp_all
  then show ?thesis
    using minus_mod_self2 [of "uint f" "2 ^ 63", symmetric]
    by (cases "f64_neg f") (auto simp: f64_neg_def f64_mag_def mod_pos_pos_trivial simp del: minus_mod_self2)
qed

end
