(* ===== verification/Sha256.thy ===== *)
theory Sha256
  imports Strings
begin

text \<open>
  SHA-256 as \<open>crypto/sha256\<close> computes it (FIPS 180-4) and \<open>encoding/hex\<close>: the hash the
  fingerprint of a run is made with. Messages and digests are byte strings.
  Nothing is proved about the strength of the hash; the component theories use only that it
  is a function and that its hexadecimal digest has 64 characters.
\<close>

unbundle bit_operations_syntax

type_synonym w32 = "32 word"

definition rotr32 :: "nat \<Rightarrow> w32 \<Rightarrow> w32" where
  "rotr32 n x = drop_bit n x OR push_bit (32 - n) x"

text \<open>
  The round constants are the first 32 bits of the fractional parts of the cube roots of the first
  64 primes; the initial state is the same of the square roots of the first eight.
\<close>

function icbrt :: "int \<Rightarrow> int" where
  "icbrt n = (if n \<le> 0 then 0
              else let r = 2 * icbrt (n div 8) in if (r + 1) * (r + 1) * (r + 1) \<le> n then r + 1 else r)"
  by pat_completeness auto
termination
  by (relation "measure nat") (auto simp: nat_mono_iff)

declare icbrt.simps [simp del]

definition first_primes :: "int list" where
  "first_primes =
    [2, 3, 5, 7, 11, 13, 17, 19, 23, 29, 31, 37, 41, 43, 47, 53,
     59, 61, 67, 71, 73, 79, 83, 89, 97, 101, 103, 107, 109, 113, 127, 131,
     137, 139, 149, 151, 157, 163, 167, 173, 179, 181, 191, 193, 197, 199, 211, 223,
     227, 229, 233, 239, 241, 251, 257, 263, 269, 271, 277, 281, 283, 293, 307, 311]"

definition sha_K :: "w32 list" where
  "sha_K = map (\<lambda>p. word_of_int (icbrt (p * 2 ^ 96))) first_primes"

definition sha_H0 :: "w32 list" where
  "sha_H0 = [0x6a09e667, 0xbb67ae85, 0x3c6ef372, 0xa54ff53a,
             0x510e527f, 0x9b05688c, 0x1f83d9ab, 0x5be0cd19]"

text \<open>Big-endian bytes of a number: \<open>k\<close> bytes, most significant first.\<close>

fun be_bytes :: "nat \<Rightarrow> int \<Rightarrow> string" where
  "be_bytes 0 n = []"
| "be_bytes (Suc k) n = be_bytes k (n div 256) @ [char_of (n mod 256)]"

fun be_val :: "int \<Rightarrow> string \<Rightarrow> int" where
  "be_val acc [] = acc"
| "be_val acc (c # cs) = be_val (256 * acc + of_char c) cs"

definition sha_pad :: "string \<Rightarrow> string" where
  "sha_pad m = m @ [char_of (128::nat)]
     @ replicate ((119 - length m mod 64) mod 64) (char_of (0::nat))
     @ be_bytes 8 (8 * int (length m) mod 2 ^ 64)"

text \<open>The block's sixteen words, last one first, and the message schedule, newest word first.\<close>

fun sha_words :: "string \<Rightarrow> w32 list \<Rightarrow> w32 list" where
  "sha_words (a # b # c # d # cs) acc = sha_words cs (word_of_int (be_val 0 [a, b, c, d]) # acc)"
| "sha_words _ acc = acc"

fun sha_schedule :: "nat \<Rightarrow> w32 list \<Rightarrow> w32 list" where
  "sha_schedule 0 r = r"
| "sha_schedule (Suc n) r =
     (let x = r ! 1; y = r ! 14;
          s1 = rotr32 17 x XOR rotr32 19 x XOR drop_bit 10 x;
          s0 = rotr32 7 y XOR rotr32 18 y XOR drop_bit 3 y
      in sha_schedule n ((s1 + r ! 6 + s0 + r ! 15) # r))"

fun sha_rounds :: "(w32 \<times> w32) list \<Rightarrow> w32 list \<Rightarrow> w32 list" where
  "sha_rounds ((k, w) # kws) [a, b, c, d, e, f, g, h] =
     (let s1 = rotr32 6 e XOR rotr32 11 e XOR rotr32 25 e;
          ch = (e AND f) XOR (NOT e AND g);
          t1 = h + s1 + ch + k + w;
          s0 = rotr32 2 a XOR rotr32 13 a XOR rotr32 22 a;
          maj = (a AND b) XOR (a AND c) XOR (b AND c)
      in sha_rounds kws [t1 + (s0 + maj), a, b, c, d + t1, e, f, g])"
| "sha_rounds _ st = st"

definition sha_block :: "w32 list \<Rightarrow> string \<Rightarrow> w32 list" where
  "sha_block st blk =
     map2 (+) st (sha_rounds (zip sha_K (rev (sha_schedule 48 (sha_words blk [])))) st)"

fun sha_blocks :: "nat \<Rightarrow> w32 list \<Rightarrow> string \<Rightarrow> w32 list" where
  "sha_blocks 0 st m = st"
| "sha_blocks (Suc n) st m = sha_blocks n (sha_block st (take 64 m)) (drop 64 m)"

definition sha256 :: "string \<Rightarrow> string" where
  "sha256 m =
     (let p = sha_pad m
      in concat (map (\<lambda>w. be_bytes 4 (uint w)) (sha_blocks (length p div 64) sha_H0 p)))"

definition hex_encode :: "string \<Rightarrow> string" where
  "hex_encode s =
     concat (map (\<lambda>c. [digit_char (of_char c div 16), digit_char (of_char c mod 16)]) s)"

section \<open>Shape of the digest\<close>

lemma length_be_bytes [simp]: "length (be_bytes k n) = k"
  by (induction k n rule: be_bytes.induct) auto

lemma length_sha_rounds [simp]: "length (sha_rounds kws st) = length st"
  by (induction kws st rule: sha_rounds.induct) (auto simp: Let_def)

lemma length_sha_block [simp]: "length (sha_block st blk) = length st"
  by (simp add: sha_block_def)

lemma length_sha_blocks [simp]: "length (sha_blocks n st m) = length st"
  by (induction n st m rule: sha_blocks.induct) auto

lemma length_sha256 [simp]: "length (sha256 m) = 32"
proof -
  have "length (concat (map (\<lambda>w::w32. be_bytes 4 (uint w)) ws)) = 4 * length ws" for ws
    by (induction ws) auto
  then show ?thesis by (simp add: sha256_def Let_def sha_H0_def)
qed

lemma length_hex_encode [simp]: "length (hex_encode s) = 2 * length s"
  by (induction s) (auto simp: hex_encode_def)

lemma digit_char_inject: "m < 36 \<Longrightarrow> n < 36 \<Longrightarrow> digit_char m = digit_char n \<longleftrightarrow> m = n"
  by (auto simp: digit_char_def char_of_eq_iff take_bit_eq_mod dest: arg_cong [of _ _ "of_char :: char \<Rightarrow> nat"])

lemma hex_encode_inject [simp]: "hex_encode s = hex_encode t \<longleftrightarrow> s = t"
proof (induction s arbitrary: t)
  case Nil
  then show ?case by (cases t) (auto simp: hex_encode_def)
next
  case (Cons c s)
  show ?case
  proof (cases t)
    case Nil
    then show ?thesis by (simp add: hex_encode_def)
  next
    case (Cons d u)
    have b: "(of_char x :: nat) div 16 < 36" "(of_char x :: nat) mod 16 < 36" for x
      using less_trans [OF nat_of_char_less_256 [of x], of 576]
      by (simp_all add: div_less_iff_less_mult less_trans [OF mod_less_divisor])
    have "(of_char c :: nat) = of_char d"
      if "of_char c div 16 = (of_char d div 16 :: nat)" "of_char c mod 16 = (of_char d mod 16 :: nat)"
      using that by (metis div_mult_mod_eq)
    then show ?thesis
      using Cons.IH [of u] Cons b by (auto simp: hex_encode_def digit_char_inject)
  qed
qed

end
