(* ===== verification/GoTime.thy ===== *)
theory GoTime
  imports Prelude
begin

text \<open>
  Go's \<open>time.Time\<close>, without a monotonic reading: every time that reaches the ledger is decoded
  from a request, made by \<open>time.Now().UTC()\<close> or by \<open>time.Unix(0, ns).UTC()\<close>, and all three have none.
  The instant is a number of nanoseconds since the Unix epoch; \<open>Equal\<close>, \<open>Before\<close> and \<open>After\<close>
  compare instants, while \<open>reflect.DeepEqual\<close> (here \<open>=\<close>) also compares the location.
\<close>

datatype location = UTC | Local | FixedZone int

record time =
  t_ns :: int
  t_loc :: location

definition zero_ns :: int where
  "zero_ns = - 62135596800000000000"

definition zero_time :: time where
  "zero_time = \<lparr>t_ns = zero_ns, t_loc = UTC\<rparr>"

definition IsZero :: "time \<Rightarrow> bool" where
  "IsZero t \<longleftrightarrow> t_ns t = zero_ns"

definition Equal :: "time \<Rightarrow> time \<Rightarrow> bool" where
  "Equal s t \<longleftrightarrow> t_ns s = t_ns t"

definition Before :: "time \<Rightarrow> time \<Rightarrow> bool" where
  "Before s t \<longleftrightarrow> t_ns s < t_ns t"

definition After :: "time \<Rightarrow> time \<Rightarrow> bool" where
  "After s t \<longleftrightarrow> t_ns s > t_ns t"

text \<open>\<open>UnixNano\<close> is an \<open>int64\<close>: it wraps for instants outside the years 1678 to 2262.\<close>

definition UnixNano :: "time \<Rightarrow> 64 word" where
  "UnixNano t = word_of_int (t_ns t)"

text \<open>\<open>time.Unix(0, ns).UTC()\<close>\<close>

definition unix_utc :: "64 word \<Rightarrow> time" where
  "unix_utc w = \<lparr>t_ns = sint w, t_loc = UTC\<rparr>"

definition in_int64 :: "time \<Rightarrow> bool" where
  "in_int64 t \<longleftrightarrow> - (2 ^ 63) \<le> t_ns t \<and> t_ns t < 2 ^ 63"

lemmas time_defs = IsZero_def Equal_def Before_def After_def

lemma sint_UnixNano: "in_int64 t \<Longrightarrow> sint (UnixNano t) = t_ns t"
  by (simp add: in_int64_def UnixNano_def sint_sbintrunc' signed_take_bit_int_eq_self_iff)

lemma UnixNano_unix_utc [simp]: "UnixNano (unix_utc w) = w"
  by (simp add: UnixNano_def unix_utc_def)

lemma in_int64_unix_utc [simp]: "in_int64 (unix_utc w)"
  using sint_greater_eq [of w] sint_less [of w] by (simp add: in_int64_def unix_utc_def)

lemma unix_utc_UnixNano: "in_int64 t \<Longrightarrow> unix_utc (UnixNano t) = t\<lparr>t_loc := UTC\<rparr>"
  by (simp add: unix_utc_def sint_UnixNano)

lemma Equal_unix_utc: "in_int64 t \<Longrightarrow> Equal (unix_utc (UnixNano t)) t"
  by (simp add: unix_utc_UnixNano Equal_def)

end
