(* ===== verification/Lineage.thy ===== *)
theory Lineage
  imports Float64 Sha256 GoTime
begin

text \<open>
  The lineage record and its content-addressed identity: \<open>internal/lineage/run.go\<close>.
  \<open>run\<close> is the struct \<open>Run\<close>, \<open>Validate\<close>, \<open>Compute\<close>, \<open>NormalizeCapture\<close> and
  \<open>normalizeParamValue\<close> are the functions of the same name.
\<close>

section \<open>The record\<close>

type_synonym status = string

record capture_declaration =
  Client :: string
  Attempted :: "string list option"

record run =
  Project :: string
  GitCommit :: string
  GitDirty :: bool
  ConfigHash :: string
  DatasetVersion :: string
  ModelVersion :: string
  Seed :: "64 word"
  Params :: "string gomap"
  RunID :: string
  Fingerprint :: string
  FingerprintVersion :: int
  Host :: string
  Device :: string
  FrameworkVersion :: string
  SubmitterClaim :: string
  JobID :: string
  Status :: status
  StartedAt :: time
  EndedAt :: "time option"
  CheckpointURI :: string
  Metrics :: "float64 gomap"
  Capture :: "capture_declaration option"

text \<open>Go's zero value \<open>lineage.Run{}\<close>.\<close>

definition zero_run :: run where
  "zero_run = \<lparr>Project = [], GitCommit = [], GitDirty = False, ConfigHash = [], DatasetVersion = [],
     ModelVersion = [], Seed = 0, Params = None, RunID = [], Fingerprint = [], FingerprintVersion = 0,
     Host = [], Device = [], FrameworkVersion = [], SubmitterClaim = [], JobID = [], Status = [],
     StartedAt = zero_time, EndedAt = None, CheckpointURI = [], Metrics = None, Capture = None\<rparr>"

definition CaptureFields :: "string list" where
  "CaptureFields =
     [''config_hash'', ''dataset_version'', ''model_version'',
      ''host'', ''device'', ''framework_version'', ''checkpoint_uri'']"

definition captureFieldSet :: "string \<Rightarrow> bool" where
  "captureFieldSet f \<longleftrightarrow> f \<in> set CaptureFields"

text \<open>A nil slice and an empty one read the same.\<close>

definition slice :: "'a list option \<Rightarrow> 'a list" where
  "slice s = (case s of None \<Rightarrow> [] | Some xs \<Rightarrow> xs)"

definition NormalizeCapture :: "run \<Rightarrow> run" where
  "NormalizeCapture r =
     (case Capture r of
        None \<Rightarrow> r
      | Some c \<Rightarrow>
          if length (slice (Attempted c)) < 2 then r
          else r\<lparr>Capture := Some (c\<lparr>Attempted := Some (sort (slice (Attempted c)))\<rparr>)\<rparr>)"

section \<open>Statuses\<close>

definition StatusCreated :: status where "StatusCreated = ''created''"
definition StatusRunning :: status where "StatusRunning = ''running''"
definition StatusSucceeded :: status where "StatusSucceeded = ''succeeded''"
definition StatusFailed :: status where "StatusFailed = ''failed''"
definition StatusCancelled :: status where "StatusCancelled = ''cancelled''"

lemmas status_defs = StatusCreated_def StatusRunning_def StatusSucceeded_def StatusFailed_def
  StatusCancelled_def

definition validStatuses :: "status set" where
  "validStatuses = {StatusCreated, StatusRunning, StatusSucceeded, StatusFailed, StatusCancelled}"

definition ValidStatus :: "status \<Rightarrow> bool" where
  "ValidStatus s \<longleftrightarrow> s \<in> validStatuses"

definition Terminal :: "status \<Rightarrow> bool" where
  "Terminal s \<longleftrightarrow> s = StatusSucceeded \<or> s = StatusFailed \<or> s = StatusCancelled"

definition FingerprintVersionLegacy :: int where
  "FingerprintVersionLegacy = 1"

definition CurrentFingerprintVersion :: int where
  "CurrentFingerprintVersion = 2"

section \<open>Validation\<close>

datatype validation_error =
    ProjectRequired
  | GitCommitRequired
  | UnknownStatusField status
  | ErrDirtyTree
  | EndedPrecedesStarted
  | UnknownCaptureField string

definition Validate :: "run \<Rightarrow> validation_error option" where
  "Validate r =
     (if TrimSpace (Project r) = [] then Some ProjectRequired
      else if TrimSpace (GitCommit r) = [] then Some GitCommitRequired
      else if Status r \<noteq> [] \<and> \<not> ValidStatus (Status r) then Some (UnknownStatusField (Status r))
      else if GitDirty r \<and> TrimSpace (ConfigHash r) = [] then Some ErrDirtyTree
      else if (case EndedAt r of None \<Rightarrow> False | Some t \<Rightarrow> Before t (StartedAt r))
        then Some EndedPrecedesStarted
      else case Capture r of
        None \<Rightarrow> None
      | Some c \<Rightarrow> map_option UnknownCaptureField
                    (List.find (\<lambda>f. \<not> captureFieldSet f) (slice (Attempted c))))"

section \<open>Normal form of a parameter value\<close>

definition numericParamPattern :: "string \<Rightarrow> bool" where
  "numericParamPattern v \<longleftrightarrow> parse_decimal v \<noteq> None"

definition isZeroLiteral :: "string \<Rightarrow> bool" where
  "isZeroLiteral s \<longleftrightarrow>
     list_all (\<lambda>c. \<not> (CHR ''1'' \<le> c \<and> c \<le> CHR ''9''))
       (takeWhile (\<lambda>c. c \<noteq> CHR ''e'' \<and> c \<noteq> CHR ''E'') s)"

definition normalizeParamValue :: "string \<Rightarrow> string" where
  "normalizeParamValue v =
     (if \<not> numericParamPattern v then v
      else case ParseFloat v of
        None \<Rightarrow> v
      | Some (f, err) \<Rightarrow>
          if err then v
          else if f64_mag f = 0 \<and> \<not> isZeroLiteral v then v
          else FormatFloat (if f64_mag f = 0 then zero64 False else f))"

section \<open>The fingerprint\<close>

definition write_parts :: "string list \<Rightarrow> string" where
  "write_parts parts = concat (map (\<lambda>p. itoa (length p) @ '':'' @ p) parts)"

definition sprint_bool :: "bool \<Rightarrow> string" where
  "sprint_bool b = (if b then ''true'' else ''false'')"

definition sprint_int64 :: "64 word \<Rightarrow> string" where
  "sprint_int64 w = FormatInt (sint w) 10"

definition map_index :: "string gomap \<Rightarrow> string \<Rightarrow> string" where
  "map_index m k = (case map_get m k of None \<Rightarrow> [] | Some v \<Rightarrow> v)"

text \<open>
  The bytes fed to the hash. \<open>ks\<close> is the order in which \<open>range r.Params\<close> visits the keys,
  which Go leaves open; \<open>Compute\<close> below takes one such order.
\<close>

definition hash_input :: "string list \<Rightarrow> run \<Rightarrow> string" where
  "hash_input ks r =
     write_parts [Project r, GitCommit r, sprint_bool (GitDirty r), ConfigHash r,
            DatasetVersion r, ModelVersion r, sprint_int64 (Seed r)]
     @ concat (map (\<lambda>k. write_parts [k, normalizeParamValue (map_index (Params r) k)]) (sort ks))"

definition Compute_ranged :: "string list \<Rightarrow> run \<Rightarrow> string" where
  "Compute_ranged ks r = hex_encode (sha256 (hash_input ks r))"

definition Compute :: "run \<Rightarrow> string" where
  "Compute r = Compute_ranged (map_keys_sorted (Params r)) r"

text \<open>What a run's identity is: the fields above the provenance line, parameters in normal form.\<close>

definition norm_params :: "run \<Rightarrow> (string, string) fmap" where
  "norm_params r = (case Params r of None \<Rightarrow> fmempty | Some m \<Rightarrow> fmmap normalizeParamValue m)"

definition identity_of ::
    "run \<Rightarrow> string \<times> string \<times> bool \<times> string \<times> string \<times> string \<times> 64 word \<times> (string, string) fmap" where
  "identity_of r = (Project r, GitCommit r, GitDirty r, ConfigHash r, DatasetVersion r,
                 ModelVersion r, Seed r, norm_params r)"

section \<open>The length-prefixed encoding is injective\<close>

lemma write_parts_Nil [simp]: "write_parts [] = []"
  by (simp add: write_parts_def)

lemma write_parts_Cons: "write_parts (p # ps) = itoa (length p) @ CHR '':'' # p @ write_parts ps"
  by (simp add: write_parts_def)

lemma write_parts_append: "write_parts (ps @ qs) = write_parts ps @ write_parts qs"
  by (simp add: write_parts_def)

lemma split_at_first:
  fixes a :: string
  assumes "a @ c # b = a' @ c # b'" "c \<notin> set a" "c \<notin> set a'"
  shows "a = a' \<and> b = b'"
proof -
  have "(a, b, True) = Cut (a @ c # b) c" by (rule Cut_append [OF assms(2), symmetric])
  also have "\<dots> = Cut (a' @ c # b') c" by (simp only: assms(1))
  also have "\<dots> = (a', b', True)" by (rule Cut_append [OF assms(3)])
  finally show ?thesis by simp
qed

lemma write_parts_inject: "write_parts ps = write_parts qs \<Longrightarrow> ps = qs"
proof (induction ps arbitrary: qs)
  case Nil
  then show ?case by (cases qs) (auto simp: write_parts_Cons)
next
  case (Cons p ps)
  then obtain q qs' where q: "qs = q # qs'" by (cases qs) (auto simp: write_parts_Cons)
  with Cons.prems have
    "itoa (length p) @ CHR '':'' # (p @ write_parts ps) = itoa (length q) @ CHR '':'' # (q @ write_parts qs')"
    by (simp add: write_parts_Cons)
  then have "itoa (length p) = itoa (length q) \<and> p @ write_parts ps = q @ write_parts qs'"
    by (rule split_at_first) auto
  then have "p = q" "write_parts ps = write_parts qs'" by auto
  with Cons.IH q show ?case by simp
qed

definition param_parts :: "run \<Rightarrow> string list \<Rightarrow> string list" where
  "param_parts r ks = concat (map (\<lambda>k. [k, normalizeParamValue (map_index (Params r) k)]) ks)"

lemma hash_input_parts:
  "hash_input ks r =
     write_parts ([Project r, GitCommit r, sprint_bool (GitDirty r), ConfigHash r,
             DatasetVersion r, ModelVersion r, sprint_int64 (Seed r)] @ param_parts r (sort ks))"
proof -
  have "concat (map (\<lambda>k. write_parts [k, f k]) xs) = write_parts (concat (map (\<lambda>k. [k, f k]) xs))" for f xs
    by (induction xs) (auto simp: write_parts_Cons write_parts_def)
  then show ?thesis unfolding hash_input_def param_parts_def write_parts_append by simp
qed

lemma sprint_bool_inject [simp]: "sprint_bool a = sprint_bool b \<longleftrightarrow> a = b"
  by (simp add: sprint_bool_def)

lemma sprint_int64_inject [simp]: "sprint_int64 a = sprint_int64 b \<longleftrightarrow> a = b"
  by (auto simp: sprint_int64_def intro: signed_word_eqI)

lemma param_parts_inject:
  assumes "concat (map (\<lambda>k. [k, f k]) xs) = concat (map (\<lambda>k. [k, g k]) ys)"
  shows "xs = ys \<and> (\<forall>k \<in> set xs. f k = g k)"
  using assms
proof (induction xs arbitrary: ys)
  case Nil
  then show ?case by (cases ys) auto
next
  case (Cons x xs)
  then show ?case by (cases ys) auto
qed

lemma norm_params_lookup:
  "fmlookup (norm_params r) k = map_option normalizeParamValue (map_get (Params r) k)"
  by (cases "Params r") (simp_all add: norm_params_def)

lemma norm_params_eq:
  assumes keys: "map_keys_sorted (Params a) = map_keys_sorted (Params b)"
    and vals: "\<forall>k \<in> set (map_keys_sorted (Params a)).
                 normalizeParamValue (map_index (Params a) k) = normalizeParamValue (map_index (Params b) k)"
  shows "norm_params a = norm_params b"
proof (rule fmap_ext)
  fix k
  have dom: "map_get (Params a) k = None \<longleftrightarrow> map_get (Params b) k = None"
    using arg_cong [OF keys, of "\<lambda>xs. k \<in> set xs"] by (auto simp: set_map_keys_sorted)
  show "fmlookup (norm_params a) k = fmlookup (norm_params b) k"
    using dom vals by (cases "map_get (Params a) k"; cases "map_get (Params b) k")
      (auto simp: norm_params_lookup set_map_keys_sorted map_index_def split: option.splits dest!: spec [of _ k])
qed

lemma keys_norm_params: "sorted_list_of_fset (fmdom (norm_params r)) = map_keys_sorted (Params r)"
  by (cases "Params r") (simp_all add: norm_params_def map_keys_sorted_def sorted_list_of_fset.rep_eq)

lemma param_parts_norm:
  "param_parts r (map_keys_sorted (Params r)) =
     concat (map (\<lambda>k. [k, the (fmlookup (norm_params r) k)]) (sorted_list_of_fset (fmdom (norm_params r))))"
  unfolding param_parts_def keys_norm_params
  by (rule arg_cong [of _ _ concat], rule map_cong)
    (auto simp: norm_params_lookup map_index_def set_map_keys_sorted)

lemma hash_input_eq_iff:
  "hash_input (map_keys_sorted (Params a)) a = hash_input (map_keys_sorted (Params b)) b
     \<longleftrightarrow> identity_of a = identity_of b"
proof
  assume "hash_input (map_keys_sorted (Params a)) a = hash_input (map_keys_sorted (Params b)) b"
  then have parts:
    "[Project a, GitCommit a, sprint_bool (GitDirty a), ConfigHash a, DatasetVersion a, ModelVersion a,
        sprint_int64 (Seed a)] @ param_parts a (map_keys_sorted (Params a)) =
     [Project b, GitCommit b, sprint_bool (GitDirty b), ConfigHash b, DatasetVersion b, ModelVersion b,
        sprint_int64 (Seed b)] @ param_parts b (map_keys_sorted (Params b))"
    unfolding hash_input_parts by (auto dest!: write_parts_inject)
  then have "param_parts a (map_keys_sorted (Params a)) = param_parts b (map_keys_sorted (Params b))"
    by simp
  then have "norm_params a = norm_params b"
    unfolding param_parts_def by (intro norm_params_eq) (auto dest!: param_parts_inject)
  with parts show "identity_of a = identity_of b" by (simp add: identity_of_def)
next
  assume "identity_of a = identity_of b"
  then show "hash_input (map_keys_sorted (Params a)) a = hash_input (map_keys_sorted (Params b)) b"
    unfolding hash_input_parts by (simp add: param_parts_norm identity_of_def)
qed

section \<open>Validation\<close>

lemma slice_simps [simp]: "slice None = []" "slice (Some xs) = xs"
  by (simp_all add: slice_def)

lemma Validate_None_iff:
  "Validate r = None \<longleftrightarrow>
     TrimSpace (Project r) \<noteq> [] \<and> TrimSpace (GitCommit r) \<noteq> []
     \<and> (Status r = [] \<or> ValidStatus (Status r))
     \<and> (GitDirty r \<longrightarrow> TrimSpace (ConfigHash r) \<noteq> [])
     \<and> (\<forall>t. EndedAt r = Some t \<longrightarrow> t_ns (StartedAt r) \<le> t_ns t)
     \<and> (\<forall>c. Capture r = Some c \<longrightarrow> set (slice (Attempted c)) \<subseteq> set CaptureFields)"
  unfolding Validate_def
  by (cases "EndedAt r"; cases "Capture r")
    (auto simp: Before_def find_None_iff captureFieldSet_def subset_iff)

section \<open>Capture normalisation\<close>

lemma NormalizeCapture_frame [simp]:
  "RunID (NormalizeCapture r) = RunID r" "identity_of (NormalizeCapture r) = identity_of r"
  "Project (NormalizeCapture r) = Project r" "GitCommit (NormalizeCapture r) = GitCommit r"
  "GitDirty (NormalizeCapture r) = GitDirty r" "ConfigHash (NormalizeCapture r) = ConfigHash r"
  "Status (NormalizeCapture r) = Status r" "Fingerprint (NormalizeCapture r) = Fingerprint r"
  "FingerprintVersion (NormalizeCapture r) = FingerprintVersion r"
  "StartedAt (NormalizeCapture r) = StartedAt r" "EndedAt (NormalizeCapture r) = EndedAt r"
  "Metrics (NormalizeCapture r) = Metrics r"  "Params (NormalizeCapture r) = Params r"
  by (simp_all add: NormalizeCapture_def identity_of_def norm_params_def split: option.splits)

lemma NormalizeCapture_idem [simp]: "NormalizeCapture (NormalizeCapture r) = NormalizeCapture r"
  by (cases "Capture r") (auto simp: NormalizeCapture_def sorted_sort_id)

lemma Capture_NormalizeCapture:
  "Capture (NormalizeCapture r) = Some c' \<Longrightarrow>
     \<exists>c. Capture r = Some c \<and> set (slice (Attempted c')) = set (slice (Attempted c)) \<and> Client c' = Client c"
  by (cases "Capture r") (auto simp: NormalizeCapture_def split: if_splits)

lemma Validate_NormalizeCapture [simp]: "Validate (NormalizeCapture r) = None \<longleftrightarrow> Validate r = None"
proof -
  have "(\<forall>c. Capture (NormalizeCapture r) = Some c \<longrightarrow> set (slice (Attempted c)) \<subseteq> A) \<longleftrightarrow>
        (\<forall>c. Capture r = Some c \<longrightarrow> set (slice (Attempted c)) \<subseteq> A)" for A
    by (cases "Capture r") (auto simp: NormalizeCapture_def)
  then show ?thesis by (simp add: Validate_None_iff)
qed

lemma NormalizeCapture_cong:
  assumes "Capture u = Capture r" "NormalizeCapture r = r"
  shows "NormalizeCapture u = u"
proof (cases "Capture r")
  case None
  with assms show ?thesis by (simp add: NormalizeCapture_def)
next
  case (Some c)
  define c' where "c' = (if length (slice (Attempted c)) < 2 then c
                          else c\<lparr>Attempted := Some (sort (slice (Attempted c)))\<rparr>)"
  have norm: "NormalizeCapture x = x\<lparr>Capture := Some c'\<rparr>" if "Capture x = Some c" for x
    using that by (simp add: NormalizeCapture_def c'_def)
  have "Capture (NormalizeCapture r) = Some c'" using norm [OF Some] by simp
  with assms(2) Some have "c' = c" by simp
  with norm [of u] assms(1) Some show ?thesis by simp
qed

section \<open>A concrete run\<close>

text \<open>The run the examples below and in the other theories start from.\<close>

definition sample_run :: run where
  "sample_run = zero_run\<lparr>RunID := ''run_1'', Project := ''p'', GitCommit := ''c0ffee'', Seed := 7,
     Params := Some (fmap_of_list [(''lr'', ''3e-4''), (''bs'', ''32'')]),
     FingerprintVersion := 2, Status := StatusRunning, StartedAt := \<lparr>t_ns = 1000, t_loc = UTC\<rparr>\<rparr>"

lemma Validate_sample_run: "Validate sample_run = None"
proof -
  have "TrimSpace ''p'' = ''p''" "TrimSpace ''c0ffee'' = ''c0ffee''"
    by (rule TrimSpace_visible; simp add: visible_def)+
  then show ?thesis
    by (simp add: Validate_def sample_run_def zero_run_def ValidStatus_def validStatuses_def)
qed

end
