(* ===== verification/Store.thy ===== *)
theory Store
  imports Lineage
begin

text \<open>
  The persistence boundary, \<open>internal/store/store.go\<close>: the error values, cursors, queries,
  pages and patches every backend shares, and \<open>applyPatch\<close>, the one place where the rules for
  changing a recorded run live.
\<close>

section \<open>Errors\<close>

text \<open>
  \<open>ErrIdentityConflict\<close> and \<open>ErrIllegalTransition\<close> wrap \<open>ErrConflict\<close>; \<open>UnknownStatus s\<close> is
  \<open>ErrUnknownStatus\<close> wrapped with the offending value. \<open>chain\<close> lists an error and what it wraps,
  which is what \<open>errors.Is\<close> walks. \<open>Backend\<close> is a failure of the storage engine.
\<close>

datatype store_error =
    ErrNotFound
  | ErrConflict
  | ErrIdentityConflict
  | ErrIllegalTransition
  | ErrUnknownStatus
  | UnknownStatus status
  | Invalid validation_error
  | Backend string

fun chain :: "store_error \<Rightarrow> store_error list" where
  "chain ErrIdentityConflict = [ErrIdentityConflict, ErrConflict]"
| "chain ErrIllegalTransition = [ErrIllegalTransition, ErrConflict]"
| "chain (UnknownStatus s) = [UnknownStatus s, ErrUnknownStatus]"
| "chain e = [e]"

definition errors_Is :: "store_error \<Rightarrow> store_error \<Rightarrow> bool" where
  "errors_Is e t \<longleftrightarrow> t \<in> set (chain e)"

section \<open>Queries, cursors, pages\<close>

record cursor =
  c_StartedAt :: time
  c_RunID :: string

record query =
  q_Project :: string
  q_GitCommit :: string
  q_Fingerprint :: string
  q_Status :: status
  q_Device :: string
  q_SubmitterClaim :: string
  q_JobID :: string
  q_CaptureClient :: string
  q_Limit :: int
  q_After :: "cursor option"
  q_Since :: time
  q_Until :: time

definition empty_query :: query where
  "empty_query = \<lparr>q_Project = [], q_GitCommit = [], q_Fingerprint = [], q_Status = [], q_Device = [],
     q_SubmitterClaim = [], q_JobID = [], q_CaptureClient = [], q_Limit = 0, q_After = None,
     q_Since = zero_time, q_Until = zero_time\<rparr>"

record page =
  pg_Runs :: "run list"
  pg_Next :: "cursor option"

section \<open>Patches\<close>

record patch =
  p_Project :: "string option"
  p_GitCommit :: "string option"
  p_GitDirty :: "bool option"
  p_ConfigHash :: "string option"
  p_DatasetVersion :: "string option"
  p_ModelVersion :: "string option"
  p_Seed :: "64 word option"
  p_Params :: "string gomap"
  p_Status :: "status option"
  p_EndedAt :: "time option"
  p_CheckpointURI :: "string option"
  p_Host :: "string option"
  p_Device :: "string option"
  p_FrameworkVersion :: "string option"
  p_SubmitterClaim :: "string option"
  p_JobID :: "string option"
  p_Metrics :: "float64 gomap"

definition empty_patch :: patch where
  "empty_patch = \<lparr>p_Project = None, p_GitCommit = None, p_GitDirty = None, p_ConfigHash = None,
     p_DatasetVersion = None, p_ModelVersion = None, p_Seed = None, p_Params = None, p_Status = None,
     p_EndedAt = None, p_CheckpointURI = None, p_Host = None, p_Device = None,
     p_FrameworkVersion = None, p_SubmitterClaim = None, p_JobID = None, p_Metrics = None\<rparr>"

text \<open>\<open>p.F != nil && *p.F != existing.F\<close>\<close>

definition differs :: "'a option \<Rightarrow> 'a \<Rightarrow> bool" where
  "differs f x \<longleftrightarrow> (case f of None \<Rightarrow> False | Some v \<Rightarrow> v \<noteq> x)"

definition paramsEqual :: "string gomap \<Rightarrow> string gomap \<Rightarrow> bool" where
  "paramsEqual a b \<longleftrightarrow>
     map_len a = map_len b \<and> list_all (\<lambda>k. map_index b k = map_index a k) (map_keys_sorted a)"

definition checkIdentityUnchanged :: "run \<Rightarrow> patch \<Rightarrow> store_error option" where
  "checkIdentityUnchanged r p =
     (if differs (p_Project p) (Project r) \<or> differs (p_GitCommit p) (GitCommit r)
        \<or> differs (p_GitDirty p) (GitDirty r) \<or> differs (p_ConfigHash p) (ConfigHash r)
        \<or> differs (p_DatasetVersion p) (DatasetVersion r)
        \<or> differs (p_ModelVersion p) (ModelVersion r) \<or> differs (p_Seed p) (Seed r)
        \<or> (p_Params p \<noteq> None \<and> \<not> paramsEqual (p_Params p) (Params r))
      then Some ErrIdentityConflict else None)"

definition isNoopPatch :: "run \<Rightarrow> patch \<Rightarrow> bool" where
  "isNoopPatch r p \<longleftrightarrow>
     (if differs (p_Status p) (Status r) then False
      else if (case p_EndedAt p of None \<Rightarrow> False
               | Some t \<Rightarrow> (case EndedAt r of None \<Rightarrow> True | Some u \<Rightarrow> \<not> Equal t u)) then False
      else if differs (p_CheckpointURI p) (CheckpointURI r) then False
      else if differs (p_Host p) (Host r) then False
      else if differs (p_Device p) (Device r) then False
      else if differs (p_FrameworkVersion p) (FrameworkVersion r) then False
      else if differs (p_SubmitterClaim p) (SubmitterClaim r) then False
      else if differs (p_JobID p) (JobID r) then False
      else list_all (\<lambda>k. case (map_get (p_Metrics p) k, map_get (Metrics r) k) of
                       (Some v, Some stored) \<Rightarrow> f64_eq stored v | _ \<Rightarrow> False)
             (map_keys_sorted (p_Metrics p)))"

definition legalTransitions :: "status \<Rightarrow> status \<Rightarrow> bool" where
  "legalTransitions s t \<longleftrightarrow>
     (s = StatusCreated \<and> t = StatusRunning) \<or>
     (s = StatusRunning \<and> (t = StatusSucceeded \<or> t = StatusFailed \<or> t = StatusCancelled))"

text \<open>The value behind a possibly nil map.\<close>

definition fm :: "'v gomap \<Rightarrow> (string, 'v) fmap" where
  "fm m = (case m of None \<Rightarrow> fmempty | Some f \<Rightarrow> f)"

definition set_if :: "'a option \<Rightarrow> 'a \<Rightarrow> 'a" where
  "set_if f x = (case f of None \<Rightarrow> x | Some v \<Rightarrow> v)"

text \<open>The assignments of \<open>applyPatch\<close> to \<open>updated\<close>, once the status is settled.\<close>

definition patch_fields :: "time \<Rightarrow> run \<Rightarrow> patch \<Rightarrow> status \<Rightarrow> run" where
  "patch_fields now r p s =
     (let ended = (case p_EndedAt p of Some t \<Rightarrow> Some t | None \<Rightarrow> EndedAt r);
          ended' = (if Terminal s \<and> ended = None then Some now else ended)
      in r\<lparr>Status := s,
           EndedAt := ended',
           CheckpointURI := set_if (p_CheckpointURI p) (CheckpointURI r),
           Host := set_if (p_Host p) (Host r),
           Device := set_if (p_Device p) (Device r),
           FrameworkVersion := set_if (p_FrameworkVersion p) (FrameworkVersion r),
           SubmitterClaim := set_if (p_SubmitterClaim p) (SubmitterClaim r),
           JobID := set_if (p_JobID p) (JobID r),
           Metrics := (case p_Metrics p of None \<Rightarrow> Metrics r
                       | Some m \<Rightarrow> Some (fmadd (fm (Metrics r)) m))\<rparr>)"

text \<open>\<open>now\<close> is the value of \<open>time.Now().UTC()\<close> at the call.\<close>

definition applyPatch :: "time \<Rightarrow> run \<Rightarrow> patch \<Rightarrow> store_error + run" where
  "applyPatch now r p =
     (case checkIdentityUnchanged r p of
        Some e \<Rightarrow> Inl e
      | None \<Rightarrow>
        (if (case p_Status p of None \<Rightarrow> False | Some s \<Rightarrow> \<not> ValidStatus s)
         then Inl (UnknownStatus (the (p_Status p)))
         else if Terminal (Status r) then
           (if isNoopPatch r p then Inr r else Inl ErrIllegalTransition)
         else if differs (p_Status p) (Status r) \<and> \<not> legalTransitions (Status r) (the (p_Status p))
         then Inl ErrIllegalTransition
         else (let u = patch_fields now r p (set_if (p_Status p) (Status r))
               in case Validate u of Some e \<Rightarrow> Inl (Invalid e) | None \<Rightarrow> Inr u)))"

section \<open>Facts about patches\<close>

lemma differs_simps [simp]:
  "differs None x = False" "differs (Some v) x = (v \<noteq> x)"
  by (simp_all add: differs_def)

lemma set_if_simps [simp]:
  "set_if None x = x" "set_if (Some v) x = v"
  by (simp_all add: set_if_def)

lemma not_differs: "\<not> differs f x \<longleftrightarrow> set_if f x = x"
  by (cases f) auto

lemma fm_simps [simp]: "fm None = fmempty" "fm (Some f) = f"
  by (simp_all add: fm_def)

lemma map_get_fm: "map_get m k = fmlookup (fm m) k"
  by (cases m) auto

lemma Terminal_status [simp]:
  "Terminal StatusSucceeded" "Terminal StatusFailed" "Terminal StatusCancelled"
  "\<not> Terminal StatusCreated" "\<not> Terminal StatusRunning" "\<not> Terminal []"
  by (simp_all add: Terminal_def status_defs)

lemma legal_source_not_terminal: "legalTransitions s t \<Longrightarrow> \<not> Terminal s"
  by (auto simp: legalTransitions_def)

lemma legal_target: "legalTransitions s t \<Longrightarrow> t = StatusRunning \<or> Terminal t"
  by (auto simp: legalTransitions_def Terminal_def)

text \<open>What an accepted patch did, in one case split.\<close>

lemma applyPatch_cases:
  assumes "applyPatch now r p = Inr u"
  obtains (noop) "Terminal (Status r)" "isNoopPatch r p" "u = r"
  | (changed) "\<not> Terminal (Status r)"
      "u = patch_fields now r p (set_if (p_Status p) (Status r))" "Validate u = None"
      "set_if (p_Status p) (Status r) = Status r \<or>
       legalTransitions (Status r) (set_if (p_Status p) (Status r))"
proof (cases "Terminal (Status r)")
  case True
  with assms noop show ?thesis
    by (auto simp: applyPatch_def split: option.splits if_splits)
next
  case False
  have "u = patch_fields now r p (set_if (p_Status p) (Status r))" "Validate u = None"
    using assms False by (auto simp: applyPatch_def Let_def split: option.splits if_splits)
  moreover have "set_if (p_Status p) (Status r) = Status r \<or>
       legalTransitions (Status r) (set_if (p_Status p) (Status r))"
    using assms False by (cases "p_Status p") (auto simp: applyPatch_def split: option.splits if_splits)
  ultimately show ?thesis using False changed by blast
qed

lemma patch_fields_frame [simp]:
  "Project (patch_fields now r p s) = Project r"
  "GitCommit (patch_fields now r p s) = GitCommit r"
  "GitDirty (patch_fields now r p s) = GitDirty r"
  "ConfigHash (patch_fields now r p s) = ConfigHash r"
  "DatasetVersion (patch_fields now r p s) = DatasetVersion r"
  "ModelVersion (patch_fields now r p s) = ModelVersion r"
  "Seed (patch_fields now r p s) = Seed r"
  "Params (patch_fields now r p s) = Params r"
  "RunID (patch_fields now r p s) = RunID r"
  "Fingerprint (patch_fields now r p s) = Fingerprint r"
  "FingerprintVersion (patch_fields now r p s) = FingerprintVersion r"
  "StartedAt (patch_fields now r p s) = StartedAt r"
  "Capture (patch_fields now r p s) = Capture r"
  "Status (patch_fields now r p s) = s"
  by (simp_all add: patch_fields_def Let_def)

end
