(* ===== verification/Sorting_Search.thy ===== *)
theory Sorting_Search
  imports Prelude "HOL-Library.Multiset"
begin

text \<open>
  Go's \<open>sort.Slice\<close> and \<open>sort.Search\<close>. \<open>sort.Slice\<close> is not stable, but every use in the
  program compares by a total order on distinct elements, for which the sorted permutation is
  unique (\<open>sort_slice_unique\<close>), so any sorting algorithm gives the same result.
\<close>

section \<open>Sorting by a comparison\<close>

fun insert_by :: "('a \<Rightarrow> 'a \<Rightarrow> bool) \<Rightarrow> 'a \<Rightarrow> 'a list \<Rightarrow> 'a list" where
  "insert_by lt x [] = [x]"
| "insert_by lt x (y # ys) = (if lt y x then y # insert_by lt x ys else x # y # ys)"

definition sort_slice :: "('a \<Rightarrow> 'a \<Rightarrow> bool) \<Rightarrow> 'a list \<Rightarrow> 'a list" where
  "sort_slice lt xs = foldr (insert_by lt) xs []"

lemma mset_insert_by [simp]: "mset (insert_by lt x xs) = add_mset x (mset xs)"
  by (induction xs) auto

lemma mset_sort_slice [simp]: "mset (sort_slice lt xs) = mset xs"
  by (induction xs) (auto simp: sort_slice_def)

lemma set_sort_slice [simp]: "set (sort_slice lt xs) = set xs"
  by (metis mset_sort_slice set_mset_mset)

lemma length_sort_slice [simp]: "length (sort_slice lt xs) = length xs"
  by (metis mset_sort_slice size_mset)

lemma distinct_sort_slice [simp]: "distinct (sort_slice lt xs) = distinct xs"
  by (metis mset_sort_slice mset_eq_imp_distinct_iff)

text \<open>A comparison that is a strict total order on the elements.\<close>

locale strict_order_on =
  fixes lt :: "'a \<Rightarrow> 'a \<Rightarrow> bool" and A :: "'a set"
  assumes irrefl: "x \<in> A \<Longrightarrow> \<not> lt x x"
    and trans: "x \<in> A \<Longrightarrow> y \<in> A \<Longrightarrow> z \<in> A \<Longrightarrow> lt x y \<Longrightarrow> lt y z \<Longrightarrow> lt x z"
    and total: "x \<in> A \<Longrightarrow> y \<in> A \<Longrightarrow> x \<noteq> y \<Longrightarrow> lt x y \<or> lt y x"
begin

lemma sorted_insert_by:
  assumes "sorted_wrt lt xs" "x \<in> A" "set xs \<subseteq> A" "x \<notin> set xs"
  shows "sorted_wrt lt (insert_by lt x xs)"
  using assms
proof (induction xs)
  case (Cons y ys)
  have set: "set (insert_by lt x ys) = insert x (set ys)"
    by (metis mset_insert_by set_mset_add_mset_insert set_mset_mset)
  show ?case
  proof (cases "lt y x")
    case True
    with Cons show ?thesis by (auto simp: set)
  next
    case False
    with Cons.prems total [of x y] have "lt x y" by auto
    with False Cons.prems show ?thesis by (auto intro: trans)
  qed
qed simp

lemma sorted_sort_slice:
  assumes "distinct xs" "set xs \<subseteq> A"
  shows "sorted_wrt lt (sort_slice lt xs)"
  using assms
proof (induction xs)
  case (Cons x xs)
  then show ?case
    using sorted_insert_by [of "sort_slice lt xs" x] by (simp add: sort_slice_def [of _ "x # xs"] sort_slice_def [symmetric])
qed (simp add: sort_slice_def)

lemma sorted_unique:
  assumes "sorted_wrt lt xs" "sorted_wrt lt ys" "set xs = set ys" "set xs \<subseteq> A"
  shows "xs = ys"
  using assms
proof (induction xs arbitrary: ys)
  case (Cons x xs)
  then obtain y ys' where ys: "ys = y # ys'" by (cases ys) auto
  have "x = y"
  proof (rule ccontr)
    assume "x \<noteq> y"
    with Cons.prems ys have "lt x y" "lt y x" "x \<in> A" "y \<in> A" by auto
    then show False using trans irrefl by blast
  qed
  moreover have "x \<in> A" "y \<in> A" using Cons.prems ys by auto
  then have "x \<notin> set xs" "y \<notin> set ys'" using Cons.prems ys irrefl by auto
  ultimately have "set xs = set ys'" using Cons.prems(3) ys by (auto simp: insert_ident)
  with Cons ys \<open>x = y\<close> show ?case by auto
qed simp

lemma sort_slice_unique:
  assumes "distinct xs" "set xs \<subseteq> A" "sorted_wrt lt ys" "set ys = set xs"
  shows "sort_slice lt xs = ys"
  using assms sorted_unique [OF sorted_sort_slice [OF assms(1,2)], of ys] by simp

lemma sorted_wrt_distinct: "sorted_wrt lt xs \<Longrightarrow> set xs \<subseteq> A \<Longrightarrow> distinct xs"
  by (induction xs) (auto simp: irrefl)

end

section \<open>Binary search\<close>

function search_from :: "(nat \<Rightarrow> bool) \<Rightarrow> nat \<Rightarrow> nat \<Rightarrow> nat" where
  "search_from f i j =
     (if i < j then (let h = (i + j) div 2 in if \<not> f h then search_from f (Suc h) j else search_from f i h)
      else i)"
  by pat_completeness auto
termination
  by (relation "measure (\<lambda>(f, i, j). j - i)") auto

declare search_from.simps [simp del]

definition sort_Search :: "nat \<Rightarrow> (nat \<Rightarrow> bool) \<Rightarrow> nat" where
  "sort_Search n f = search_from f 0 n"

lemma search_from_first:
  assumes "i \<le> j" and mono: "\<And>a b. a \<le> b \<Longrightarrow> b < j \<Longrightarrow> f a \<Longrightarrow> f b"
  shows "i \<le> search_from f i j \<and> search_from f i j \<le> j
     \<and> (\<forall>k. i \<le> k \<and> k < search_from f i j \<longrightarrow> \<not> f k)
     \<and> (\<forall>k. search_from f i j \<le> k \<and> k < j \<longrightarrow> f k)"
  using assms
proof (induction f i j rule: search_from.induct)
  case (1 f i j)
  let ?h = "(i + j) div 2"
  show ?case
  proof (cases "i < j")
    case True
    then have h: "i \<le> ?h" "?h < j" by auto
    show ?thesis
    proof (cases "f ?h")
      case False
      have eq: "search_from f i j = search_from f (Suc ?h) j"
        using True False by (subst search_from.simps) (simp add: Let_def)
      have before: "\<not> f k" if "k \<le> ?h" for k using "1.prems"(2) [of k ?h] False that h by blast
      from "1.IH"(1) [OF True refl False] "1.prems"(2) h
      have IH: "Suc ?h \<le> search_from f (Suc ?h) j \<and> search_from f (Suc ?h) j \<le> j
        \<and> (\<forall>k. Suc ?h \<le> k \<and> k < search_from f (Suc ?h) j \<longrightarrow> \<not> f k)
        \<and> (\<forall>k. search_from f (Suc ?h) j \<le> k \<and> k < j \<longrightarrow> f k)" by simp
      with before h show ?thesis unfolding eq by (meson Suc_leD le_trans not_less_eq_eq)
    next
      case ft: True
      have eq: "search_from f i j = search_from f i ?h"
        using True ft by (subst search_from.simps) (simp add: Let_def)
      have after: "f k" if "?h \<le> k" "k < j" for k using "1.prems"(2) [of ?h k] ft that by blast
      have "f b" if "a \<le> b" "b < ?h" "f a" for a b using "1.prems"(2) [of a b] that h by simp
      with "1.IH"(2) [OF True refl] ft h
      have IH: "i \<le> search_from f i ?h \<and> search_from f i ?h \<le> ?h
        \<and> (\<forall>k. i \<le> k \<and> k < search_from f i ?h \<longrightarrow> \<not> f k)
        \<and> (\<forall>k. search_from f i ?h \<le> k \<and> k < ?h \<longrightarrow> f k)" by blast
      with after h show ?thesis unfolding eq by (meson le_less_trans less_imp_le linorder_not_le)
    qed
  next
    case False
    then have "search_from f i j = i" by (subst search_from.simps) simp
    with False "1.prems"(1) show ?thesis by auto
  qed
qed

text \<open>On a list over which the predicate is monotone, dropping up to the found index filters.\<close>

lemma drop_sort_Search:
  assumes mono: "sorted_wrt (\<lambda>x y. P x \<longrightarrow> P y) xs"
  shows "drop (sort_Search (length xs) (\<lambda>i. P (xs ! i))) xs = filter P xs"
proof -
  define s where "s = sort_Search (length xs) (\<lambda>i. P (xs ! i))"
  have m: "P (xs ! b)" if "a \<le> b" "b < length xs" "P (xs ! a)" for a b
    using mono that unfolding sorted_wrt_iff_nth_less by (metis le_neq_implies_less)
  have "0 \<le> s \<and> s \<le> length xs
      \<and> (\<forall>k. 0 \<le> k \<and> k < s \<longrightarrow> \<not> P (xs ! k)) \<and> (\<forall>k. s \<le> k \<and> k < length xs \<longrightarrow> P (xs ! k))"
    unfolding s_def sort_Search_def by (rule search_from_first) (use m in blast)+
  then have s: "s \<le> length xs" "\<And>k. k < s \<Longrightarrow> \<not> P (xs ! k)"
      "\<And>k. s \<le> k \<Longrightarrow> k < length xs \<Longrightarrow> P (xs ! k)" by blast+
  have "filter P (take s xs) = []"
    using s(2) by (auto simp: filter_empty_conv in_set_conv_nth)
  moreover have "filter P (drop s xs) = drop s xs"
    using s(1,3) by (auto simp: filter_id_conv in_set_conv_nth)
  moreover have "filter P xs = filter P (take s xs) @ filter P (drop s xs)"
    by (metis append_take_drop_id filter_append)
  ultimately show ?thesis by (simp add: s_def [symmetric])
qed

end
