(* ===== verification/Store_Contract.thy ===== *)
theory Store_Contract
  imports Store Sorting_Search "HOL-Library.Product_Lexorder"
begin

text \<open>
  What every backend promises (the interface \<open>Store\<close> of \<open>internal/store/store.go\<close>, with the
  listing semantics that the reference implementation \<open>memory.go\<close> fixes), as the locale
  \<open>run_store\<close>, and what a client of any backend may conclude: a recorded run only evolves
  along its lifecycle, and following cursors visits every matching run exactly once.
\<close>

section \<open>The interface\<close>

text \<open>
  The Go interface \<open>Store\<close>: what a client holds of a backend. The clock reading \<open>Update\<close> may need
  is an argument.
\<close>

record 'st store_ops =
  so_Record :: "run \<Rightarrow> 'st \<Rightarrow> store_error option \<times> 'st"
  so_Update :: "time \<Rightarrow> string \<Rightarrow> patch \<Rightarrow> 'st \<Rightarrow> (store_error + run) \<times> 'st"
  so_Get :: "string \<Rightarrow> 'st \<Rightarrow> store_error + run"
  so_List :: "query \<Rightarrow> 'st \<Rightarrow> store_error + page"

section \<open>Listing semantics\<close>

text \<open>The filters of the loop of \<open>List\<close>: a run survives when no \<open>continue\<close> is reached.\<close>

definition query_match :: "query \<Rightarrow> run \<Rightarrow> bool" where
  "query_match q r \<longleftrightarrow>
     \<not> (q_Project q \<noteq> [] \<and> Project r \<noteq> q_Project q) \<and>
     \<not> (q_GitCommit q \<noteq> [] \<and> GitCommit r \<noteq> q_GitCommit q) \<and>
     \<not> (q_Fingerprint q \<noteq> [] \<and> Fingerprint r \<noteq> q_Fingerprint q) \<and>
     \<not> (q_Status q \<noteq> [] \<and> Status r \<noteq> q_Status q) \<and>
     \<not> (q_Device q \<noteq> [] \<and> Device r \<noteq> q_Device q) \<and>
     \<not> (q_SubmitterClaim q \<noteq> [] \<and> SubmitterClaim r \<noteq> q_SubmitterClaim q) \<and>
     \<not> (q_JobID q \<noteq> [] \<and> JobID r \<noteq> q_JobID q) \<and>
     \<not> (q_CaptureClient q \<noteq> [] \<and>
         (case Capture r of None \<Rightarrow> True | Some c \<Rightarrow> Client c \<noteq> q_CaptureClient q)) \<and>
     \<not> (\<not> IsZero (q_Since q) \<and> Before (StartedAt r) (q_Since q)) \<and>
     \<not> (\<not> IsZero (q_Until q) \<and> \<not> Before (StartedAt r) (q_Until q))"

definition list_less :: "run \<Rightarrow> run \<Rightarrow> bool" where
  "list_less a b \<longleftrightarrow>
     (if \<not> Equal (StartedAt a) (StartedAt b) then After (StartedAt a) (StartedAt b)
      else RunID a < RunID b)"

definition isAfterCursor :: "run \<Rightarrow> cursor \<Rightarrow> bool" where
  "isAfterCursor r c \<longleftrightarrow>
     (if Equal (StartedAt r) (c_StartedAt c) then RunID r > c_RunID c
      else Before (StartedAt r) (c_StartedAt c))"

definition paginate :: "run list \<Rightarrow> int \<Rightarrow> page" where
  "paginate rs limit =
     (if limit \<le> 0 \<or> int (length rs) \<le> limit then \<lparr>pg_Runs = rs, pg_Next = None\<rparr>
      else let pg = take (nat limit) rs; l = last pg
           in \<lparr>pg_Runs = pg, pg_Next = Some \<lparr>c_StartedAt = StartedAt l, c_RunID = RunID l\<rparr>\<rparr>)"

definition list_key :: "run \<Rightarrow> int \<times> string" where
  "list_key r = (- t_ns (StartedAt r), RunID r)"

definition cursor_key :: "cursor \<Rightarrow> int \<times> string" where
  "cursor_key c = (- t_ns (c_StartedAt c), c_RunID c)"

lemma list_less_key: "list_less a b \<longleftrightarrow> list_key a < list_key b"
  by (auto simp: list_less_def list_key_def time_defs)

lemma isAfterCursor_key: "isAfterCursor r c \<longleftrightarrow> cursor_key c < list_key r"
  by (auto simp: isAfterCursor_def list_key_def cursor_key_def time_defs)

section \<open>What an accepted patch keeps\<close>

lemma applyPatch_frame:
  assumes "applyPatch now r p = Inr u"
  shows "RunID u = RunID r" "Capture u = Capture r" "identity_of u = identity_of r"
    "Fingerprint u = Fingerprint r" "FingerprintVersion u = FingerprintVersion r"
    "StartedAt u = StartedAt r" "Params u = Params r"
  using assms by (auto elim!: applyPatch_cases simp: identity_of_def norm_params_def)

lemma applyPatch_valid: "applyPatch now r p = Inr u \<Longrightarrow> Validate r = None \<Longrightarrow> Validate u = None"
  by (auto elim!: applyPatch_cases)


section \<open>The abstract listing\<close>

definition after_ok :: "query \<Rightarrow> run \<Rightarrow> bool" where
  "after_ok q r \<longleftrightarrow> (case q_After q of None \<Rightarrow> True | Some c \<Rightarrow> isAfterCursor r c)"

text \<open>The rows a query selects, in the total order: newest first, run id as the tiebreak.\<close>

definition is_listing :: "query \<Rightarrow> (string \<Rightarrow> run option) \<Rightarrow> run list \<Rightarrow> bool" where
  "is_listing q A xs \<longleftrightarrow>
     sorted_wrt list_less xs \<and> set xs = {r. (\<exists>i. A i = Some r) \<and> query_match q r \<and> after_ok q r}"

text \<open>
  A client that keeps passing \<open>Next\<close> back as \<open>After\<close> until it is nil. \<^term>\<open>None\<close> means the store
  failed or the fuel ran out.
\<close>

fun traverse :: "(query \<Rightarrow> store_error + page) \<Rightarrow> nat \<Rightarrow> query \<Rightarrow> run list list option" where
  "traverse L 0 q = None"
| "traverse L (Suc n) q =
     (case L q of
        Inl e \<Rightarrow> None
      | Inr pg \<Rightarrow>
          (case pg_Next pg of
             None \<Rightarrow> Some [pg_Runs pg]
           | Some c \<Rightarrow> map_option ((#) (pg_Runs pg)) (traverse L n (q\<lparr>q_After := Some c\<rparr>))))"

lemma query_match_After [simp]: "query_match (q\<lparr>q_After := c\<rparr>) r = query_match q r"
  by (cases "Capture r") (simp_all add: query_match_def)

lemma listing_irrefl: "sorted_wrt list_less xs \<Longrightarrow> distinct xs"
  by (induction xs) (auto simp: list_less_key)

lemma sorted_listing_key: "sorted_wrt list_less zs \<longleftrightarrow> sorted_wrt (<) (map list_key zs)"
proof -
  have "list_less = (\<lambda>a b. list_key a < list_key b)" by (intro ext) (rule list_less_key)
  then show ?thesis by (simp add: sorted_wrt_map)
qed

lemma sorted_listing_unique:
  assumes "sorted_wrt list_less xs" "sorted_wrt list_less ys" and set: "set xs = set ys"
  shows "xs = ys"
proof -
  from assms have st: "sorted_wrt (<) (map list_key xs)" "sorted_wrt (<) (map list_key ys)"
    by (simp_all add: sorted_listing_key)
  then have "map list_key xs = map list_key ys" using set
    by (auto simp: strict_sorted_iff intro: sorted_distinct_set_unique)
  moreover have "inj_on list_key (set xs)" using st(1) by (simp add: strict_sorted_iff distinct_map)
  ultimately show ?thesis using set by (auto dest: map_inj_on)
qed

lemma listing_unique: "is_listing q A xs \<Longrightarrow> is_listing q A ys \<Longrightarrow> xs = ys"
  unfolding is_listing_def using sorted_listing_unique by metis

lemma cursor_key_of_run: "cursor_key \<lparr>c_StartedAt = StartedAt r, c_RunID = RunID r\<rparr> = list_key r"
  by (simp add: cursor_key_def list_key_def)

lemma listing_drop:
  assumes xs: "is_listing q A xs" and n: "0 < n" "n < length xs"
  shows "is_listing (q\<lparr>q_After := Some \<lparr>c_StartedAt = StartedAt (last (take n xs)),
                                     c_RunID = RunID (last (take n xs))\<rparr>\<rparr>) A (drop n xs)"
proof -
  let ?l = "last (take n xs)"
  have "sorted_wrt list_less (take n xs @ drop n xs)" using xs by (simp add: is_listing_def)
  then have sw: "sorted_wrt list_less (take n xs)" "sorted_wrt list_less (drop n xs)"
      "\<And>x y. x \<in> set (take n xs) \<Longrightarrow> y \<in> set (drop n xs) \<Longrightarrow> list_less x y"
    unfolding sorted_wrt_append by blast+
  have ne: "take n xs \<noteq> []" using n by auto
  have later: "list_less ?l r" if "r \<in> set (drop n xs)" for r
    using sw(3) that last_in_set [OF ne] by blast
  have early: "\<not> list_less ?l r" if "r \<in> set (take n xs)" for r
  proof -
    have "sorted_wrt list_less (butlast (take n xs) @ [?l])" using sw ne by simp
    moreover have "r \<in> set (butlast (take n xs) @ [?l])" using that ne by simp
    ultimately show ?thesis unfolding sorted_wrt_append by (auto simp: list_less_key)
  qed
  have l_in: "?l \<in> set xs" using last_in_set [OF ne] in_set_takeD by fast
  have "after_ok q r" if "list_less ?l r" for r
  proof (cases "q_After q")
    case (Some c)
    have "isAfterCursor ?l c" using l_in xs Some by (auto simp: is_listing_def after_ok_def)
    with Some that show ?thesis by (simp add: after_ok_def isAfterCursor_key list_less_key)
  qed (simp add: after_ok_def)
  moreover have "set (drop n xs) = {r \<in> set xs. list_less ?l r}"
    using later early set_append [of "take n xs" "drop n xs"] unfolding append_take_drop_id by blast
  ultimately show ?thesis
    using xs sw unfolding is_listing_def after_ok_def [of "q_After_update _ _"]
    by (auto simp: isAfterCursor_key cursor_key_of_run list_less_key)
qed

section \<open>How a stored run may change\<close>

text \<open>\<open>eqv\<close> is the sense in which a backend keeps a finished run: identical, or equal up to what it cannot tell apart.\<close>

definition evolves_by :: "(run \<Rightarrow> run \<Rightarrow> bool) \<Rightarrow> run \<Rightarrow> run \<Rightarrow> bool" where
  "evolves_by eqv r u \<longleftrightarrow>
     identity_of u = identity_of r \<and> RunID u = RunID r \<and> Fingerprint u = Fingerprint r
     \<and> FingerprintVersion u = FingerprintVersion r \<and> t_ns (StartedAt u) = t_ns (StartedAt r)
     \<and> Capture u = Capture r \<and> Params u = Params r \<and> legalTransitions\<^sup>*\<^sup>* (Status r) (Status u)
     \<and> (Terminal (Status r) \<longrightarrow> eqv r u)"

abbreviation evolves :: "run \<Rightarrow> run \<Rightarrow> bool" where
  "evolves \<equiv> evolves_by (=)"

lemma evolves_refl [simp]: "evolves r r"
  by (simp add: evolves_by_def)

lemma evolves_trans: "evolves r s \<Longrightarrow> evolves s u \<Longrightarrow> evolves r u"
  by (auto simp: evolves_by_def)

lemma applyPatch_status:
  assumes "applyPatch now r p = Inr u"
  shows "Status u = Status r \<or> legalTransitions (Status r) (Status u)"
  using assms by (cases rule: applyPatch_cases) simp_all

lemma applyPatch_terminal: "applyPatch now r p = Inr u \<Longrightarrow> Terminal (Status r) \<Longrightarrow> u = r"
  by (erule applyPatch_cases) blast+

lemma applyPatch_evolves:
  assumes "applyPatch now r p = Inr u"
  shows "evolves r u"
  using applyPatch_frame [OF assms] applyPatch_status [OF assms] applyPatch_terminal [OF assms]
  unfolding evolves_by_def by (metis r_into_rtranclp rtranclp.rtrancl_refl)

text \<open>The same metric value, up to the sign of a zero.\<close>

definition same_value :: "float64 \<Rightarrow> float64 \<Rightarrow> bool" where
  "same_value v w \<longleftrightarrow> v = w \<or> f64_eq v w"

lemma same_value_trans: "same_value u v \<Longrightarrow> same_value v w \<Longrightarrow> same_value u w"
  by (auto simp: same_value_def f64_eq_def)

text \<open>A mutating request to a store.\<close>

datatype store_op = OpRecord run | OpUpdate time string patch

section \<open>The contract\<close>

text \<open>
  \<open>content\<close> reads a state as a map from run ids to runs, \<open>canon\<close> is the form in which a run
  comes back out of the store, \<open>same\<close> decides whether a second record of an id is a retry,
  \<open>storable\<close> says which valid runs the backend can hold at all, \<open>eqv\<close> how exactly it keeps a
  finished run, and \<open>listable\<close> which queries it answers as specified.
\<close>

locale run_store =
  fixes Record :: "run \<Rightarrow> 'st \<Rightarrow> store_error option \<times> 'st"
    and Update :: "time \<Rightarrow> string \<Rightarrow> patch \<Rightarrow> 'st \<Rightarrow> (store_error + run) \<times> 'st"
    and Get :: "string \<Rightarrow> 'st \<Rightarrow> store_error + run"
    and ListRuns :: "query \<Rightarrow> 'st \<Rightarrow> store_error + page"
    and content :: "'st \<Rightarrow> string \<Rightarrow> run option"
    and inv :: "'st \<Rightarrow> bool"
    and canon :: "run \<Rightarrow> run"
    and same :: "run \<Rightarrow> run \<Rightarrow> bool"
    and storable :: "run \<Rightarrow> bool"
    and eqv :: "run \<Rightarrow> run \<Rightarrow> bool"
    and listable :: "query \<Rightarrow> bool"
  assumes record_invalid: "inv st \<Longrightarrow> Validate r = Some v \<Longrightarrow> Record r st = (Some (Invalid v), st)"
    and record_known: "inv st \<Longrightarrow> Validate r = None \<Longrightarrow> content st (RunID r) = Some x \<Longrightarrow>
      Record r st = ((if same x r then None else Some ErrConflict), st)"
    and record_fresh: "inv st \<Longrightarrow> Validate r = None \<Longrightarrow> content st (RunID r) = None \<Longrightarrow> storable r \<Longrightarrow>
      \<exists>st'. Record r st = (None, st') \<and> inv st' \<and> content st' = (content st)(RunID r \<mapsto> canon r)"
    and record_refused: "inv st \<Longrightarrow> Validate r = None \<Longrightarrow> content st (RunID r) = None \<Longrightarrow> \<not> storable r \<Longrightarrow>
      \<exists>e. Record r st = (Some e, st)"
    and update_missing: "inv st \<Longrightarrow> content st i = None \<Longrightarrow> Update now i p st = (Inl ErrNotFound, st)"
    and update_error: "inv st \<Longrightarrow> content st i = Some r \<Longrightarrow> applyPatch now r p = Inl e \<Longrightarrow>
      Update now i p st = (Inl e, st)"
    and update_ok: "inv st \<Longrightarrow> content st i = Some r \<Longrightarrow> applyPatch now r p = Inr u \<Longrightarrow>
      \<exists>st' x. Update now i p st = (Inr u, st') \<and> inv st' \<and> content st' = (content st)(i \<mapsto> x) \<and> eqv (canon u) x"
    and get_law: "inv st \<Longrightarrow> Get i st = (case content st i of None \<Rightarrow> Inl ErrNotFound | Some r \<Rightarrow> Inr r)"
    and list_law: "inv st \<Longrightarrow> listable q \<Longrightarrow> \<exists>xs. is_listing q (content st) xs \<and> ListRuns q st = Inr (paginate xs (q_Limit q))"
    and stored: "inv st \<Longrightarrow> content st i = Some r \<Longrightarrow> RunID r = i \<and> canon r = r \<and> storable r"
    and listable_next: "inv st \<Longrightarrow> listable q \<Longrightarrow> content st i = Some r \<Longrightarrow>
      listable (q\<lparr>q_After := Some \<lparr>c_StartedAt = StartedAt r, c_RunID = RunID r\<rparr>\<rparr>)"
    and canon_evolves: "storable r \<Longrightarrow> canon r = r \<Longrightarrow> evolves r u \<Longrightarrow> evolves_by eqv r (canon u)"
    and eqv_refl: "eqv r r"
    and eqv_trans: "eqv r s \<Longrightarrow> eqv s u \<Longrightarrow> eqv r u"
    and eqv_frame: "eqv r s \<Longrightarrow> s\<lparr>Metrics := None\<rparr> = r\<lparr>Metrics := None\<rparr>"
begin

lemma eqv_fields:
  assumes "eqv r s"
  shows "identity_of s = identity_of r" "RunID s = RunID r" "Fingerprint s = Fingerprint r"
    "FingerprintVersion s = FingerprintVersion r" "StartedAt s = StartedAt r" "Capture s = Capture r" "Status s = Status r"
    "Params s = Params r"
proof -
  note f = eqv_frame [OF assms]
  have "identity_of (r\<lparr>Metrics := None\<rparr>) = identity_of r" for r by (simp add: identity_of_def norm_params_def)
  then show "identity_of s = identity_of r" using f by metis
  show "RunID s = RunID r" "Fingerprint s = Fingerprint r" "FingerprintVersion s = FingerprintVersion r"
    "StartedAt s = StartedAt r" "Capture s = Capture r" "Status s = Status r" "Params s = Params r"
    using f by (cases r; cases s; simp)+
qed

lemma evolves_eqv: "evolves_by eqv r u \<Longrightarrow> eqv u v \<Longrightarrow> evolves_by eqv r v"
  unfolding evolves_by_def using eqv_fields [of u v] eqv_trans [of r u v] by simp

lemma evolves_by_refl: "evolves_by eqv r r"
  by (simp add: evolves_by_def eqv_refl)

lemma evolves_by_trans:
  assumes "evolves_by eqv r s" "evolves_by eqv s u"
  shows "evolves_by eqv r u"
proof -
  have "eqv r u" if "Terminal (Status r)"
  proof -
    have rs: "eqv r s" using assms(1) that by (simp add: evolves_by_def)
    then have "Terminal (Status s)" using that eqv_fields(7) by simp
    with assms(2) rs show ?thesis by (auto simp: evolves_by_def intro: eqv_trans)
  qed
  with assms show ?thesis by (auto simp: evolves_by_def)
qed

definition exec :: "'st \<Rightarrow> store_op \<Rightarrow> 'st" where
  "exec st op' = (case op' of OpRecord r \<Rightarrow> snd (Record r st) | OpUpdate now i p \<Rightarrow> snd (Update now i p st))"

text \<open>What a single request can do to the content.\<close>

lemma store_record_effect:
  assumes "inv st"
  shows "\<exists>e st'. Record r st = (e, st') \<and> inv st' \<and>
    (content st' = content st \<or>
      Validate r = None \<and> content st (RunID r) = None \<and> content st' = (content st)(RunID r \<mapsto> canon r))"
proof (cases "Validate r")
  case (Some v)
  then show ?thesis using record_invalid [OF assms Some] assms by simp
next
  case None
  show ?thesis
  proof (cases "content st (RunID r)")
    case (Some x)
    then show ?thesis using record_known [OF assms None Some] assms by simp
  next
    case fresh: None
    then show ?thesis using record_fresh [OF assms None fresh] record_refused [OF assms None fresh] assms None
      by (cases "storable r") fastforce+
  qed
qed

lemma store_update_effect:
  assumes "inv st"
  shows "\<exists>e st'. Update now i p st = (e, st') \<and> inv st' \<and>
    (content st' = content st \<or>
      (\<exists>r x. content st i = Some r \<and> content st' = (content st)(i \<mapsto> x) \<and> evolves_by eqv r x))"
proof (cases "content st i")
  case None
  with update_missing [OF assms None] assms show ?thesis by simp
next
  case (Some r)
  show ?thesis
  proof (cases "applyPatch now r p")
    case (Inl e)
    with update_error [OF assms Some Inl] assms show ?thesis by simp
  next
    case (Inr u)
    have "evolves_by eqv r (canon u)"
      using stored [OF assms Some] applyPatch_evolves [OF Inr] by (blast intro: canon_evolves)
    moreover obtain st' x where "Update now i p st = (Inr u, st')" "inv st'"
      "content st' = (content st)(i \<mapsto> x)" "eqv (canon u) x"
      using update_ok [OF assms Some Inr] by blast
    ultimately show ?thesis using Some evolves_eqv by blast
  qed
qed

lemma exec_step:
  assumes "inv st"
  shows "inv (exec st op') \<and>
    (\<forall>i r. content st i = Some r \<longrightarrow> (\<exists>u. content (exec st op') i = Some u \<and> evolves_by eqv r u))"
proof (cases op')
  case (OpRecord r)
  with store_record_effect [OF assms, of r] show ?thesis by (auto simp: exec_def evolves_by_refl)
next
  case (OpUpdate now i p)
  with store_update_effect [OF assms, of now i p] show ?thesis by (auto simp: exec_def evolves_by_refl)
qed

lemma exec_all:
  assumes "inv st"
  shows "inv (foldl exec st ops) \<and>
    (\<forall>i r. content st i = Some r \<longrightarrow> (\<exists>u. content (foldl exec st ops) i = Some u \<and> evolves_by eqv r u))"
  using assms
proof (induction ops arbitrary: st)
  case (Cons op' ops)
  have inv: "inv (exec st op')" using exec_step [OF Cons.prems] by blast
  have "\<exists>u. content (foldl exec (exec st op') ops) i = Some u \<and> evolves_by eqv r u" if "content st i = Some r" for i r
    using exec_step [OF Cons.prems] that Cons.IH [OF inv] by (meson evolves_by_trans)
  with Cons.IH [OF inv] show ?case by simp
qed (simp add: evolves_by_refl)

lemma traverse_complete:
  assumes "inv st" "listable q" "0 < q_Limit q" "is_listing q (content st) xs" "length xs < n"
  shows "\<exists>pages. traverse (\<lambda>q. ListRuns q st) n q = Some pages \<and> concat pages = xs
    \<and> (\<forall>pg \<in> set pages. int (length pg) \<le> q_Limit q)"
  using assms(2-)
proof (induction n arbitrary: q xs)
  case (Suc n)
  obtain ys where ys: "is_listing q (content st) ys" "ListRuns q st = Inr (paginate ys (q_Limit q))"
    using list_law [OF assms(1) Suc.prems(1)] by blast
  have "ys = xs" using ys(1) Suc.prems(3) listing_unique by blast
  note L = ys(2) [unfolded this]
  show ?case
  proof (cases "int (length xs) \<le> q_Limit q")
    case True
    with L show ?thesis by (auto simp: paginate_def)
  next
    case False
    let ?k = "nat (q_Limit q)" let ?l = "last (take ?k xs)"
    let ?q = "q\<lparr>q_After := Some \<lparr>c_StartedAt = StartedAt ?l, c_RunID = RunID ?l\<rparr>\<rparr>"
    have k: "0 < ?k" "?k < length xs" using Suc.prems(2) False by linarith+
    have "?l \<in> set xs" using k by (metis in_set_takeD last_in_set take_eq_Nil length_greater_0_conv less_imp_le not_less zero_less_iff_neq_zero)
    then obtain i where "content st i = Some ?l" using Suc.prems(3) by (auto simp: is_listing_def)
    then have "listable ?q" by (rule listable_next [OF assms(1) Suc.prems(1)])
    moreover have "length (drop ?k xs) < n" using k Suc.prems(4) by simp
    ultimately
    obtain pages where "traverse (\<lambda>q. ListRuns q st) n ?q = Some pages" "concat pages = drop ?k xs"
      "\<forall>pg \<in> set pages. int (length pg) \<le> q_Limit q"
      using Suc.IH [of ?q "drop ?k xs"] listing_drop [OF Suc.prems(3) k] Suc.prems(2) by auto
    with L False Suc.prems(2) k show ?thesis by (auto simp: paginate_def Let_def)
  qed
qed simp

end

end
