(* ===== verification/Cursors.thy ===== *)
theory Cursors
  imports Store_Contract
begin

text \<open>
  The opaque pagination tokens of \<open>internal/api/api.go\<close>: \<open>encodeCursor\<close>, \<open>decodeCursor\<close> and their
  counterparts for fingerprint groups, over Go's \<open>base64.RawURLEncoding\<close>, with the round trips a
  paging client depends on.
\<close>

section \<open>Base64, URL alphabet, no padding\<close>

definition b64_alphabet :: string where
  "b64_alphabet = ''ABCDEFGHIJKLMNOPQRSTUVWXYZabcdefghijklmnopqrstuvwxyz0123456789-_''"

definition b64_char :: "nat \<Rightarrow> char" where
  "b64_char n = b64_alphabet ! n"

definition b64_val :: "char \<Rightarrow> nat option" where
  "b64_val c =
     (let v = (of_char c :: nat)
      in if 65 \<le> v \<and> v \<le> 90 then Some (v - 65)
         else if 97 \<le> v \<and> v \<le> 122 then Some (v - 71)
         else if 48 \<le> v \<and> v \<le> 57 then Some (v + 4)
         else if v = 45 then Some 62 else if v = 95 then Some 63 else None)"

fun sextets :: "nat list \<Rightarrow> nat list" where
  "sextets [] = []"
| "sextets [a] = [a div 4, (a mod 4) * 16]"
| "sextets [a, b] = [a div 4, (a mod 4) * 16 + b div 16, (b mod 16) * 4]"
| "sextets (a # b # c # rest) =
     [a div 4, (a mod 4) * 16 + b div 16, (b mod 16) * 4 + c div 64, c mod 64] @ sextets rest"

fun octets :: "nat list \<Rightarrow> nat list option" where
  "octets [] = Some []"
| "octets [x] = None"
| "octets [x, y] = Some [x * 4 + y div 16]"
| "octets [x, y, z] = Some [x * 4 + y div 16, (y mod 16) * 16 + z div 4]"
| "octets (x # y # z # w # rest) =
     map_option (\<lambda>bs. [x * 4 + y div 16, (y mod 16) * 16 + z div 4, (z mod 4) * 64 + w] @ bs) (octets rest)"

definition EncodeToString :: "string \<Rightarrow> string" where
  "EncodeToString s = map b64_char (sextets (map of_char s))"

text \<open>The decoder skips carriage returns and newlines and does not check the unused trailing bits.\<close>

definition DecodeString :: "string \<Rightarrow> string option" where
  "DecodeString s =
     (let t = filter (\<lambda>c. c \<noteq> CHR 0x0A \<and> c \<noteq> CHR 0x0D) s
      in case those (map b64_val t) of
           None \<Rightarrow> None
         | Some vs \<Rightarrow> map_option (map char_of) (octets vs))"

lemma octets_sextets: "list_all (\<lambda>b. b < 256) bs \<Longrightarrow> octets (sextets bs) = Some bs"
proof (induction bs rule: sextets.induct)
  case (4 a b c rest)
  have "(a mod 4 * 16 + b div 16) div 16 = a mod 4" "(a mod 4 * 16 + b div 16) mod 16 = b div 16"
    "(b mod 16 * 4 + c div 64) div 4 = b mod 16" "(b mod 16 * 4 + c div 64) mod 4 = c div 64"
    using 4 by (auto simp: div_add1_eq mod_add_eq less_mult_imp_div_less)
  with 4 show ?case by (simp add: mult.commute)
next
  case (3 a b)
  have "(a mod 4 * 16 + b div 16) div 16 = a mod 4" "(a mod 4 * 16 + b div 16) mod 16 = b div 16"
    using 3 by (auto simp: div_add1_eq less_mult_imp_div_less)
  then show ?case by (simp add: mult.commute)
qed (simp_all add: mult.commute)

lemma sextets_bound: "list_all (\<lambda>b. b < 256) bs \<Longrightarrow> list_all (\<lambda>x. x < 64) (sextets bs)"
  by (induction bs rule: sextets.induct) (auto simp: less_mult_imp_div_less)

lemma b64_chars:
  assumes "n < 64"
  shows "b64_val (b64_char n) = Some n" "b64_char n \<noteq> CHR 0x0A" "b64_char n \<noteq> CHR 0x0D"
proof -
  have "\<forall>n \<in> set [0 ..< 64]. b64_val (b64_char n) = Some n \<and> b64_char n \<noteq> CHR 0x0A \<and> b64_char n \<noteq> CHR 0x0D"
    by (simp add: upt_rec b64_char_def b64_alphabet_def b64_val_def)
  with assms show "b64_val (b64_char n) = Some n" "b64_char n \<noteq> CHR 0x0A" "b64_char n \<noteq> CHR 0x0D"
    by (auto simp: Ball_def)
qed

lemma DecodeString_EncodeToString: "DecodeString (EncodeToString s) = Some s"
proof -
  let ?bs = "map of_char s :: nat list" let ?xs = "sextets ?bs"
  have bs: "list_all (\<lambda>b. b < 256) ?bs" by (simp add: list_all_iff)
  have xs: "\<And>x. x \<in> set ?xs \<Longrightarrow> x < 64" using sextets_bound [OF bs] by (simp add: list_all_iff)
  have "filter (\<lambda>c. c \<noteq> CHR 0x0A \<and> c \<noteq> CHR 0x0D) (map b64_char ?xs) = map b64_char ?xs"
    using b64_chars(2,3) xs by (auto intro!: filter_True)
  moreover have "those (map b64_val (map b64_char ys)) = Some ys" if "\<And>x. x \<in> set ys \<Longrightarrow> x < 64" for ys
    using that by (induction ys) (auto simp: b64_chars(1))
  ultimately show ?thesis using octets_sextets [OF bs] xs
    by (simp add: DecodeString_def EncodeToString_def Let_def o_def)
qed

section \<open>Run cursors\<close>

datatype cursor_error = InvalidCursor | UnsupportedCursor

definition cursorVersion :: string where
  "cursorVersion = ''v1''"

definition encodeCursor :: "cursor \<Rightarrow> string" where
  "encodeCursor c =
     EncodeToString (cursorVersion @ '':'' @ FormatInt (sint (UnixNano (c_StartedAt c))) 10 @ '':'' @ c_RunID c)"

definition decodeCursor :: "string \<Rightarrow> cursor_error + cursor" where
  "decodeCursor s =
     (case DecodeString s of
        None \<Rightarrow> Inl InvalidCursor
      | Some raw \<Rightarrow>
          (case Cut raw (CHR '':'') of (version, rest, ok) \<Rightarrow>
             if \<not> ok \<or> version \<noteq> cursorVersion then Inl UnsupportedCursor
             else case Cut rest (CHR '':'') of (nsStr, runID, ok2) \<Rightarrow>
               if \<not> ok2 \<or> runID = [] then Inl InvalidCursor
               else case ParseInt nsStr of
                      None \<Rightarrow> Inl InvalidCursor
                    | Some ns \<Rightarrow> Inr \<lparr>c_StartedAt = unix_utc (word_of_int ns), c_RunID = runID\<rparr>))"

lemma ParseInt_sint64: "ParseInt (FormatInt (sint (w :: 64 word)) 10) = Some (sint w)"
  using sint_greater_eq [of w] sint_less [of w] by (intro ParseInt_FormatInt) simp_all

lemma decode_encode:
  assumes "c_RunID c \<noteq> []"
  shows "decodeCursor (encodeCursor c) = Inr \<lparr>c_StartedAt = unix_utc (UnixNano (c_StartedAt c)), c_RunID = c_RunID c\<rparr>"
proof -
  let ?n = "FormatInt (sint (UnixNano (c_StartedAt c))) 10"
  have "Cut (''v1'' @ CHR '':'' # ?n @ CHR '':'' # c_RunID c) (CHR '':'') = (''v1'', ?n @ CHR '':'' # c_RunID c, True)"
    by (rule Cut_append) simp
  moreover have "Cut (?n @ CHR '':'' # c_RunID c) (CHR '':'') = (?n, c_RunID c, True)"
    by (rule Cut_append) simp
  ultimately show ?thesis using assms
    unfolding decodeCursor_def encodeCursor_def DecodeString_EncodeToString
    by (simp add: cursorVersion_def ParseInt_sint64)
qed



lemma less_append: "(s :: string) < s @ ''a''"
  by (induction s) simp_all

lemma same_position:
  assumes "c_RunID d = c_RunID c"
  shows "(\<lambda>r. isAfterCursor r d) = (\<lambda>r. isAfterCursor r c) \<longleftrightarrow> Equal (c_StartedAt d) (c_StartedAt c)"
proof
  assume same: "(\<lambda>r. isAfterCursor r d) = (\<lambda>r. isAfterCursor r c)"
  have less: "isAfterCursor (zero_run\<lparr>RunID := c_RunID e @ ''a'', StartedAt := c_StartedAt e\<rparr>) e" for e
    by (simp add: isAfterCursor_def Equal_def less_append)
  have "isAfterCursor (zero_run\<lparr>RunID := c_RunID e @ ''a'', StartedAt := c_StartedAt e\<rparr>) f \<Longrightarrow> t_ns (c_StartedAt e) \<le> t_ns (c_StartedAt f)"
    for e f by (auto simp: isAfterCursor_def Equal_def Before_def split: if_splits)
  then have "t_ns (c_StartedAt d) \<le> t_ns (c_StartedAt c)" "t_ns (c_StartedAt c) \<le> t_ns (c_StartedAt d)"
    using less fun_cong [OF same] by blast+
  then show "Equal (c_StartedAt d) (c_StartedAt c)" by (simp add: Equal_def)
qed (use assms in \<open>auto simp: isAfterCursor_def Equal_def Before_def\<close>)

lemma sint_wraps: "\<exists>m. sint (word_of_int n :: 64 word) = n - m * 2 ^ 64"
proof -
  let ?s = "sint (word_of_int n :: 64 word)"
  have "(word_of_int ?s :: 64 word) = word_of_int n" by simp
  then have "take_bit 64 ?s = take_bit 64 n" by (simp only: word_of_int_eq_iff) simp
  then have "?s mod 2 ^ 64 = n mod 2 ^ 64" by (simp only: take_bit_eq_mod)
  then have "2 ^ 64 dvd n - ?s" by (metis mod_eq_dvd_iff)
  then obtain m where "n - ?s = 2 ^ 64 * m" by (rule dvdE)
  then show ?thesis by (intro exI [of _ m]) simp
qed

text \<open>
  Property C39. Every cursor with a run id comes back from its token with that id and with its instant wrapped
  to 64 bits of nanoseconds. So it names the position it was made for exactly when the instant is in
  range; the cursor of a run that starts before 1677 or after 2262 names another one, and the next page
  skips or repeats what is between.
\<close>

theorem cursor_wraps:
  assumes "c_RunID c \<noteq> []"
  shows "\<exists>d m. decodeCursor (encodeCursor c) = Inr d \<and> c_RunID d = c_RunID c \<and> in_int64 (c_StartedAt d)
    \<and> t_ns (c_StartedAt d) = t_ns (c_StartedAt c) - m * 2 ^ 64
    \<and> ((\<lambda>r. isAfterCursor r d) = (\<lambda>r. isAfterCursor r c) \<longleftrightarrow> in_int64 (c_StartedAt c))"
proof -
  let ?d = "\<lparr>c_StartedAt = unix_utc (UnixNano (c_StartedAt c)), c_RunID = c_RunID c\<rparr>"
  have "Equal (unix_utc (UnixNano (c_StartedAt c))) (c_StartedAt c) \<longleftrightarrow> in_int64 (c_StartedAt c)"
    using Equal_unix_utc in_int64_unix_utc [of "UnixNano (c_StartedAt c)"] by (auto simp: Equal_def in_int64_def)
  then have "(\<lambda>r. isAfterCursor r ?d) = (\<lambda>r. isAfterCursor r c) \<longleftrightarrow> in_int64 (c_StartedAt c)"
    using same_position [of ?d c] by simp
  moreover obtain m where "t_ns (unix_utc (UnixNano (c_StartedAt c))) = t_ns (c_StartedAt c) - m * 2 ^ 64"
    using sint_wraps [of "t_ns (c_StartedAt c)"] by (auto simp: unix_utc_def UnixNano_def)
  ultimately show ?thesis using decode_encode [OF assms] by (intro exI [of _ ?d] exI [of _ m]) simp
qed

text \<open>A run that starts in the year 3000, and its cursor.\<close>

definition far_cursor :: cursor where
  "far_cursor = \<lparr>c_StartedAt = \<lparr>t_ns = 32503680000000000000, t_loc = UTC\<rparr>, c_RunID = ''r''\<rparr>"

theorem cursor_wraps_witness:
  "\<exists>d. decodeCursor (encodeCursor far_cursor) = Inr d \<and> (\<lambda>r. isAfterCursor r d) \<noteq> (\<lambda>r. isAfterCursor r far_cursor)"
proof -
  have "\<not> in_int64 (c_StartedAt far_cursor)" "c_RunID far_cursor \<noteq> []" by (simp_all add: far_cursor_def in_int64_def)
  then show ?thesis using cursor_wraps [of far_cursor] by blast
qed

section \<open>Group cursors\<close>

definition spreadCursorVersion :: string where
  "spreadCursorVersion = ''v1''"

definition encodeSpreadCursor :: "string \<Rightarrow> string" where
  "encodeSpreadCursor fp = EncodeToString (spreadCursorVersion @ '':'' @ fp)"

definition decodeSpreadCursor :: "string \<Rightarrow> cursor_error + string" where
  "decodeSpreadCursor s =
     (case DecodeString s of
        None \<Rightarrow> Inl InvalidCursor
      | Some raw \<Rightarrow>
          (case Cut raw (CHR '':'') of (version, fp, ok) \<Rightarrow>
             if \<not> ok \<or> version \<noteq> spreadCursorVersion \<or> fp = [] then Inl UnsupportedCursor else Inr fp))"

lemma decodeSpread_encode:
  assumes "fp \<noteq> []"
  shows "decodeSpreadCursor (encodeSpreadCursor fp) = Inr fp"
proof -
  have "Cut (''v1'' @ CHR '':'' # fp) (CHR '':'') = (''v1'', fp, True)" by (rule Cut_append) simp
  with assms show ?thesis
    unfolding decodeSpreadCursor_def encodeSpreadCursor_def DecodeString_EncodeToString
    by (simp add: spreadCursorVersion_def)
qed

end
