(* ===== verification/Decimal.thy ===== *)
theory Decimal
  imports Float64
begin

text \<open>
  Decimal literals against their values: what \<open>ParseFloat\<close> computes in terms of the real number a
  literal denotes, and the round trip \<open>ParseFloat (FormatFloat f) = f\<close> for finite floats.
\<close>

section \<open>Digit strings\<close>

lemma of_char_char_of_int [simp]: "0 \<le> n \<Longrightarrow> n < 256 \<Longrightarrow> (of_char (char_of n :: char) :: int) = n"
  by (simp add: of_char_of)

lemma is_digit_iff: "is_digit c \<longleftrightarrow> 48 \<le> (of_char c :: int) \<and> (of_char c :: int) \<le> 57"
proof -
  have "(of_char c :: int) = int (of_char c)" by (simp only: of_nat_of_char)
  then show ?thesis by (simp add: digit_defs Let_def)
qed

lemma digits_int_Nil [simp]: "digits_int [] = 0"
  by (simp add: digits_int_def)

lemma foldl_digits: "foldl (\<lambda>a c. 10 * a + (of_char c - 48)) a s = a * 10 ^ length s + (digits_int s :: int)"
proof (induction s arbitrary: a)
  case (Cons c s)
  show ?case unfolding digits_int_def foldl.simps by (subst (1 2) Cons) (simp add: algebra_simps)
qed (simp add: digits_int_def)

lemma digits_int_append: "digits_int (s @ t) = digits_int s * 10 ^ length t + digits_int t"
proof -
  have "digits_int (s @ t) = foldl (\<lambda>a c. 10 * a + (of_char c - 48)) (digits_int s) t"
    by (simp add: digits_int_def)
  then show ?thesis by (simp only: foldl_digits)
qed

lemma digits_int_single [simp]: "digits_int [c] = of_char c - 48"
  by (simp add: digits_int_def)

lemma digits_int_Cons: "digits_int (c # s) = (of_char c - 48) * 10 ^ length s + digits_int s"
  using digits_int_append [of "[c]" s] by simp

lemma digits_int_nonneg: "list_all is_digit s \<Longrightarrow> 0 \<le> digits_int s"
  by (induction s) (auto simp: digits_int_Cons is_digit_iff)

lemma digits_int_zeros [simp]: "digits_int (replicate k (CHR ''0'')) = 0"
  by (induction k) (auto simp: digits_int_Cons)

lemma digits_int_eq_0:
  "list_all is_digit s \<Longrightarrow> digits_int s = 0 \<longleftrightarrow> list_all (\<lambda>c. \<not> (CHR ''1'' \<le> c \<and> c \<le> CHR ''9'')) s"
proof (induction s)
  case (Cons c s)
  have "is_digit c" "list_all is_digit s" using Cons.prems by simp_all
  then have "(0::int) \<le> (of_char c - 48) * 10 ^ length s" "(0::int) \<le> digits_int s"
    by (simp add: is_digit_iff, intro digits_int_nonneg)
  then have "digits_int (c # s) = 0 \<longleftrightarrow> (of_char c :: int) = 48 \<and> digits_int s = 0"
    by (auto simp: digits_int_Cons add_nonneg_eq_0_iff)
  moreover have "(of_char c :: int) = 48 \<longleftrightarrow> \<not> (CHR ''1'' \<le> c \<and> c \<le> CHR ''9'')"
  proof -
    have "CHR ''1'' \<le> c \<longleftrightarrow> 49 \<le> (of_char c :: nat)" "c \<le> CHR ''9'' \<longleftrightarrow> (of_char c :: nat) \<le> 57"
      unfolding less_eq_char_def by simp_all
    moreover have "(of_char c :: int) = int (of_char c)" by (simp only: of_nat_of_char)
    ultimately show ?thesis using Cons.prems by (auto simp: is_digit_iff)
  qed
  ultimately show ?case using Cons by simp
qed simp

section \<open>Printed naturals\<close>

lemma fmt_int_props:
  assumes "0 \<le> n"
  shows "digits_int (fmt_int n) = n" "list_all is_digit (fmt_int n)" "fmt_int n \<noteq> []"
    "0 < n \<Longrightarrow> hd (fmt_int n) \<noteq> CHR ''0''"
proof -
  have "digits_int (fmt_int n) = n \<and> list_all is_digit (fmt_int n) \<and> fmt_int n \<noteq> [] \<and>
      (0 < n \<longrightarrow> hd (fmt_int n) \<noteq> CHR ''0'')"
    using assms
  proof (induction n rule: fmt_int.induct)
    case (1 n)
    show ?case
    proof (cases "n < 10")
      case True
      have "char_of (48 + n) \<noteq> CHR ''0''" if "0 < n"
      proof
        assume "char_of (48 + n) = CHR ''0''"
        then have "(of_char (char_of (48 + n) :: char) :: int) = of_char (CHR ''0'')" by simp
        with that True show False by (simp add: of_char_of)
      qed
      with True "1.prems" show ?thesis by (subst (1 2 3 4) fmt_int.simps) (auto simp: is_digit_iff of_char_of)
    next
      case False
      with 1 have IH: "digits_int (fmt_int (n div 10)) = n div 10" "list_all is_digit (fmt_int (n div 10))"
        "fmt_int (n div 10) \<noteq> []" "hd (fmt_int (n div 10)) \<noteq> CHR ''0''"
        by (auto simp: pos_imp_zdiv_pos_iff)
      have "0 \<le> n mod 10" "n mod 10 < 10" by simp_all
      then have "(of_char (char_of (48 + n mod 10) :: char) :: int) = 48 + n mod 10"
        by (intro of_char_char_of_int) linarith+
      with IH False show ?thesis by (subst (1 2 3 4) fmt_int.simps) (auto simp: is_digit_iff digits_int_append)
    qed
  qed
  then show "digits_int (fmt_int n) = n" "list_all is_digit (fmt_int n)" "fmt_int n \<noteq> []"
    "0 < n \<Longrightarrow> hd (fmt_int n) \<noteq> CHR ''0''" by simp_all
qed

lemma length_fmt_int: "0 \<le> n \<Longrightarrow> n < 10 ^ Suc k \<Longrightarrow> length (fmt_int n) \<le> Suc k"
proof (induction k arbitrary: n)
  case 0
  then show ?case by (subst fmt_int.simps) simp
next
  case (Suc k)
  then have "n div 10 < 10 ^ Suc k" by (simp add: div_less_iff_less_mult mult.commute)
  with Suc.IH [of "n div 10"] Suc.prems show ?case
    by (subst fmt_int.simps) (simp add: pos_imp_zdiv_nonneg_iff)
qed

section \<open>The syntax of a literal\<close>

definition point_part :: "string \<Rightarrow> string" where
  "point_part fp = (if fp = [] then [] else CHR ''.'' # fp)"

definition sign_part :: "bool \<Rightarrow> string" where
  "sign_part neg = (if neg then ''-'' else [])"

lemma span_digits:
  assumes "list_all is_digit a" "b = [] \<or> \<not> is_digit (hd b)"
  shows "takeWhile is_digit (a @ b) = a" "dropWhile is_digit (a @ b) = b"
proof -
  have "\<forall>x \<in> set a. is_digit x" using assms(1) by (simp add: list_all_iff)
  moreover have "takeWhile is_digit b = []" "dropWhile is_digit b = b" using assms(2) by (cases b; simp)+
  ultimately show "takeWhile is_digit (a @ b) = a" "dropWhile is_digit (a @ b) = b" by simp_all
qed

lemma parse_decimal_build:
  assumes ip: "list_all is_digit ip" and fp: "list_all is_digit fp"
    and ok: "int_part_ok ip \<or> (ip = [] \<and> fp \<noteq> [])"
    and tl: "tl' = [] \<or> hd tl' = CHR ''e'' \<or> hd tl' = CHR ''E''" and x: "parse_exp tl' = Some x"
  shows "parse_decimal (sign_part neg @ ip @ point_part fp @ tl') = Some (neg, ip, fp, x)"
proof -
  let ?u = "ip @ point_part fp @ tl'"
  have nd: "tl' = [] \<or> \<not> is_digit (hd tl')" using tl by auto
  have "?u \<noteq> []" using ok by (auto simp: int_part_ok_def point_part_def)
  have "hd ?u \<noteq> CHR ''-''" using ok ip
    by (cases ip) (auto simp: int_part_ok_def point_part_def)
  with \<open>?u \<noteq> []\<close> have sgn: "(sign_part neg @ ?u \<noteq> [] \<and> hd (sign_part neg @ ?u) = CHR ''-'') = neg"
    "(if neg then tl (sign_part neg @ ?u) else sign_part neg @ ?u) = ?u"
    by (simp_all add: sign_part_def)
  have sp: "takeWhile is_digit ?u = ip" "dropWhile is_digit ?u = point_part fp @ tl'"
    by (rule span_digits [OF ip]; use nd in \<open>auto simp: point_part_def\<close>)+
  have sf: "takeWhile is_digit (fp @ tl') = fp" "dropWhile is_digit (fp @ tl') = tl'"
    by (rule span_digits [OF fp nd])+
  show ?thesis
  proof (cases "fp = []")
    case True
    with tl ok have "\<not> (point_part fp @ tl' \<noteq> [] \<and> hd (point_part fp @ tl') = CHR ''.'')" "int_part_ok ip"
      by (auto simp: point_part_def)
    with True x show ?thesis unfolding parse_decimal_def Let_def sgn sp by (simp add: point_part_def)
  next
    case False
    then have "point_part fp @ tl' = CHR ''.'' # fp @ tl'" by (simp add: point_part_def)
    with False ok x sf show ?thesis unfolding parse_decimal_def Let_def sgn sp by auto
  qed
qed

lemma parse_exp_tail: "parse_exp t = Some x \<Longrightarrow> t = [] \<or> hd t = CHR ''e'' \<or> hd t = CHR ''E''"
  by (auto simp: parse_exp_def split: list.splits if_splits)

text \<open>Conversely, every accepted literal has this shape.\<close>

lemma parse_decimal_shape:
  assumes "parse_decimal s = Some (neg, ip, fp, x)"
  shows "\<exists>t. s = sign_part neg @ ip @ point_part fp @ t \<and> list_all is_digit ip \<and> list_all is_digit fp
    \<and> parse_exp t = Some x"
proof -
  define u where "u = (if s \<noteq> [] \<and> hd s = CHR ''-'' then tl s else s)"
  let ?r = "dropWhile is_digit u"
  have neg: "neg = (s \<noteq> [] \<and> hd s = CHR ''-'')" and ip: "ip = takeWhile is_digit u"
    using assms unfolding parse_decimal_def Let_def u_def by (auto split: if_splits)
  have s: "s = sign_part neg @ u" by (cases s) (auto simp: neg sign_part_def u_def)
  have u: "u = ip @ ?r" unfolding ip by simp
  have dig: "list_all is_digit (takeWhile is_digit w)" for w by (auto simp: list_all_iff dest: set_takeWhileD)
  show ?thesis
  proof (cases "?r \<noteq> [] \<and> hd ?r = CHR ''.''")
    case True
    then have fp: "fp = takeWhile is_digit (tl ?r)" "fp \<noteq> []"
      and x: "parse_exp (dropWhile is_digit (tl ?r)) = Some x"
      using assms unfolding parse_decimal_def Let_def u_def [symmetric] by (auto split: if_splits)
    have "?r = CHR ''.'' # tl ?r" using True by (metis list.collapse)
    then have "?r = point_part fp @ dropWhile is_digit (tl ?r)" using fp by (simp add: point_part_def)
    with s u x ip fp dig show ?thesis by metis
  next
    case False
    then have "fp = []" "parse_exp ?r = Some x"
      using assms unfolding parse_decimal_def Let_def u_def [symmetric] by (auto split: if_splits)
    with s u ip dig show ?thesis by (intro exI [of _ ?r]) (simp add: point_part_def)
  qed
qed

section \<open>The value of a literal\<close>

definition lit_value :: "string \<Rightarrow> real option" where
  "lit_value s = map_option (\<lambda>(neg, ip, fp, x).
     (if neg then - 1 else 1) * (real_of_int (decimal_num ip fp x) / real_of_int (decimal_den fp x)))
     (parse_decimal s)"

lemma decimal_ratio:
  "real_of_int (decimal_num ip fp x) / real_of_int (decimal_den fp x)
     = real_of_int (digits_int (ip @ fp)) * 10 powr real_of_int (x - int (length fp))"
proof (cases "int (length fp) \<le> x")
  case True
  then have "10 powr real_of_int (x - int (length fp)) = 10 ^ nat (x - int (length fp))"
    using powr_real_of_int [of 10 "x - int (length fp)"] by simp
  with True show ?thesis by (simp add: decimal_num_def decimal_den_def)
next
  case False
  then have "10 powr real_of_int (x - int (length fp)) = inverse (10 ^ nat (int (length fp) - x))"
    using powr_real_of_int [of 10 "x - int (length fp)"] by simp
  with False show ?thesis by (simp add: decimal_num_def decimal_den_def divide_inverse)
qed

lemma decimal_den_pos [simp]: "0 < decimal_den fp x"
  by (simp add: decimal_den_def)

lemma decimal_num_nonneg: "list_all is_digit ip \<Longrightarrow> list_all is_digit fp \<Longrightarrow> 0 \<le> decimal_num ip fp x"
  by (simp add: decimal_num_def digits_int_nonneg)

text \<open>\<open>ParseFloat\<close> is the nearest float to the value of the literal, with the literal's sign.\<close>

lemma ParseFloat_value:
  assumes "parse_decimal s = Some (neg, ip, fp, x)"
  shows "ParseFloat s = Some (f64_of_mag neg (round_real \<bar>the (lit_value s)\<bar>),
                              inf_mag \<le> round_real \<bar>the (lit_value s)\<bar>)"
proof -
  have "0 \<le> decimal_num ip fp x"
    using parse_decimal_shape [OF assms] decimal_num_nonneg by blast
  moreover from this have "\<bar>the (lit_value s)\<bar> = real_of_int (decimal_num ip fp x) / real_of_int (decimal_den fp x)"
    using assms less_imp_le [OF decimal_den_pos, of fp x] by (simp add: lit_value_def abs_mult)
  ultimately show ?thesis using assms by (simp add: ParseFloat_def Let_def round_mag_eq)
qed

section \<open>The shortest digits read back\<close>

lemma powr_10_diff: "10 powr real_of_int (int a - int b) = 10 ^ a / (10 ^ b :: real)"
  by (simp add: powr_diff powr_realpow)

lemma reads_back_iff:
  assumes "0 \<le> c"
  shows "reads_back b j dr c \<longleftrightarrow> round_real (real_of_int c * 10 powr real_of_int (int dr - int j)) = b"
proof (cases "j \<le> dr")
  case True
  then have "10 ^ dr / (10 ^ j :: real) = 10 ^ (dr - j)" by (simp add: power_diff)
  with True assms show ?thesis unfolding powr_10_diff by (simp add: reads_back_def round_mag_eq)
next
  case False
  then have "(10 ^ dr / 10 ^ j :: real) = 1 / 10 ^ (j - dr)" by (simp add: power_diff)
  with False assms show ?thesis unfolding powr_10_diff by (simp add: reads_back_def round_mag_eq)
qed

lemma exact_value:
  assumes "0 \<le> b"
  shows "real_of_int (exact_num b) * 10 powr real_of_int (int 0 - int (exact_pow b)) = mag_value b"
proof (cases "0 \<le> mag_exp b")
  case True
  then show ?thesis
    using powr_real_of_int [of 2 "mag_exp b"] by (simp add: exact_num_def exact_pow_def mag_value_def)
next
  case False
  define j where "j = nat (- mag_exp b)"
  have "2 powr real_of_int (mag_exp b) = inverse (2 ^ j)"
    using False powr_real_of_int [of 2 "mag_exp b"] by (simp add: j_def)
  moreover have ten: "(10::real) ^ j = 2 ^ j * 5 ^ j" by (simp flip: power_mult_distrib)
  have "10 powr real_of_int (int 0 - int j) = inverse (2 ^ j) * inverse (5 ^ j)"
    unfolding powr_10_diff ten by (simp add: divide_inverse)
  moreover have "exact_num b = mag_mant b * 5 ^ j" "exact_pow b = j"
    using False by (simp_all add: exact_num_def exact_pow_def j_def)
  ultimately show ?thesis by (simp add: mag_value_def)
qed

lemma exact_num_nonneg: "0 \<le> b \<Longrightarrow> 0 \<le> exact_num b"
  using mag_fields(1) by (simp add: exact_num_def Let_def)

lemma reads_back_exact: "0 \<le> b \<Longrightarrow> reads_back b (exact_pow b) 0 (exact_num b)"
  by (simp only: reads_back_iff exact_num_nonneg exact_value round_real_exact)

lemma shortest_cut_reads_back:
  assumes "reads_back b j 0 n" "0 \<le> n" "shortest_cut b n j k = (c, dr)"
  shows "reads_back b j dr c \<and> 0 \<le> c \<and> dr \<le> k \<and> c \<le> n + 1"
  using assms(3)
proof (induction k)
  case 0
  with assms show ?case by simp
next
  case (Suc k)
  show ?case
  proof (cases "shortest_at b n j (Suc k)")
    case None
    with Suc show ?thesis by (simp add: le_SucI)
  next
    case (Some c')
    have "0 \<le> n div 10 ^ Suc k" using assms(2) by (simp add: pos_imp_zdiv_nonneg_iff)
    moreover have "n div 10 ^ Suc k \<le> n"
      using zdiv_mono2 [of n 1 "10 ^ Suc k", OF assms(2) zero_less_one one_le_power] by simp
    ultimately show ?thesis using Some Suc.prems
      by (auto simp: shortest_at_def Let_def split: if_splits)
  qed
qed

lemma strip_zeros:
  obtains k where "ds = rev (dropWhile (\<lambda>d. d = CHR ''0'') (rev ds)) @ replicate k (CHR ''0'')"
proof -
  let ?z = "takeWhile (\<lambda>d. d = CHR ''0'') (rev ds)"
  have "rev ds = ?z @ dropWhile (\<lambda>d. d = CHR ''0'') (rev ds)" by simp
  then have "ds = rev (dropWhile (\<lambda>d. d = CHR ''0'') (rev ds)) @ rev ?z" by (metis rev_append rev_rev_ident)
  moreover have "\<forall>x \<in> set ?z. x = CHR ''0''" by (auto dest: set_takeWhileD)
  then have "replicate (length ?z) (CHR ''0'') = ?z" by (rule replicate_length_same)
  then have "rev ?z = replicate (length ?z) (CHR ''0'')" by (metis rev_replicate)
  ultimately show ?thesis using that [of "length ?z"] by simp
qed

lemma mag_exp_bound:
  assumes "0 \<le> b" "b < inf_mag"
  shows "nat (mag_exp b) \<le> 1074" "nat (- mag_exp b) \<le> 1074"
proof -
  have "b div 2 ^ 52 < 2047" "0 \<le> b div 2 ^ 52"
    using assms by (simp_all add: inf_mag_def div_less_iff_less_mult pos_imp_zdiv_nonneg_iff)
  then show "nat (mag_exp b) \<le> 1074" "nat (- mag_exp b) \<le> 1074"
    by (simp_all add: mag_exp_def nat_le_iff)
qed

lemma power_le_10: "1 \<le> x \<Longrightarrow> x \<le> 10 \<Longrightarrow> i \<le> k \<Longrightarrow> x ^ i \<le> (10::int) ^ k"
  by (rule order_trans [OF power_mono [of x 10] power_increasing]) simp_all

lemma exact_num_bound:
  assumes "0 \<le> b" "b < inf_mag" and k: "k = 1074"
  shows "exact_num b < 10 ^ Suc (k + 16)"
proof -
  have m: "0 \<le> mag_mant b" "mag_mant b \<le> 10 ^ 16"
    using mag_fields(1,2) [OF assms(1)] by simp_all
  have e: "nat (mag_exp b) \<le> k" "nat (- mag_exp b) \<le> k"
    unfolding k by (rule mag_exp_bound [OF assms(1,2)])+
  have "exact_num b \<le> 10 ^ 16 * 10 ^ k"
  proof (cases "0 \<le> mag_exp b")
    case True
    have "mag_mant b * 2 ^ nat (mag_exp b) \<le> 10 ^ 16 * 10 ^ k"
      by (rule mult_mono [OF m(2) power_le_10 [OF _ _ e(1)]]) simp_all
    with True show ?thesis by (simp only: exact_num_def Let_def if_True)
  next
    case False
    have "mag_mant b * 5 ^ nat (- mag_exp b) \<le> 10 ^ 16 * 10 ^ k"
      by (rule mult_mono [OF m(2) power_le_10 [OF _ _ e(2)]]) simp_all
    with False show ?thesis by (simp only: exact_num_def Let_def if_False)
  qed
  also have "\<dots> < 10 ^ Suc (k + 16)" unfolding power_Suc power_add [of _ k] by simp
  finally show ?thesis .
qed

lemma round_real_0 [simp]: "round_real 0 = 0"
  by (simp add: round_real_def)

lemma shortest_props:
  assumes b: "0 < b" "b < inf_mag" and sh: "shortest b = (ds, dp)"
  shows "list_all is_digit ds" "ds \<noteq> []" "hd ds \<noteq> CHR ''0''" "\<bar>dp\<bar> < 9999"
    "round_real (real_of_int (digits_int ds) * 10 powr real_of_int (dp - int (length ds))) = b"
proof -
  define n j where "n = exact_num b" and "j = exact_pow b"
  obtain k where k: "k = (1074::nat)" by simp
  obtain c dr where cut: "shortest_cut b n j (length (fmt_int n) - 1) = (c, dr)" by fastforce
  have n: "0 \<le> n" "n < 10 ^ Suc (k + 16)"
    unfolding n_def using b exact_num_nonneg [of b] exact_num_bound [OF _ b(2) k] by linarith+
  have rb: "reads_back b j dr c" "0 \<le> c" "dr \<le> length (fmt_int n) - 1" "c \<le> n + 1"
    using shortest_cut_reads_back [OF _ n(1) cut] reads_back_exact [of b] b by (auto simp: n_def j_def)
  have rr: "round_real (real_of_int c * 10 powr real_of_int (int dr - int j)) = b"
    using rb reads_back_iff by simp
  with b have c: "0 < c" using rb(2) by (cases "c = 0") auto
  define full where "full = fmt_int c"
  note full = fmt_int_props [of c, folded full_def, OF rb(2)]
  have ds: "ds = rev (dropWhile (\<lambda>d. d = CHR ''0'') (rev full))" and dp: "dp = int (length full) + int dr - int j"
    using sh b cut by (auto simp: shortest_def n_def j_def full_def Let_def)
  obtain z where z: "full = ds @ replicate z (CHR ''0'')" unfolding ds by (rule strip_zeros)
  show "list_all is_digit ds" using full(2) unfolding z by simp
  have val: "c = digits_int ds * 10 ^ z" using full(1) unfolding z by (simp add: digits_int_append)
  with c show "ds \<noteq> []" by auto
  with full(4) c show "hd ds \<noteq> CHR ''0''" unfolding z by simp
  have lens: "length (fmt_int n) \<le> Suc (k + 16)" by (rule length_fmt_int [OF n])
  have "c \<le> 10 ^ Suc (k + 16)" using rb(4) n(2) by linarith
  also have "(10::int) ^ Suc (k + 16) < 10 ^ Suc (k + 17)" by (rule power_strict_increasing) simp_all
  finally have "length full \<le> Suc (k + 17)" unfolding full_def by (rule length_fmt_int [OF rb(2)])
  moreover have "j \<le> 1074" using mag_exp_bound(2) [of b] b by (simp add: j_def exact_pow_def)
  ultimately show "\<bar>dp\<bar> < 9999" using lens rb(3) unfolding dp k by linarith
  have "dp - int (length ds) = int z + (int dr - int j)" unfolding dp z by simp
  then have "10 powr real_of_int (dp - int (length ds)) = 10 ^ z * 10 powr real_of_int (int dr - int j)"
    by (simp add: powr_add powr_realpow)
  with rr val show "round_real (real_of_int (digits_int ds) * 10 powr real_of_int (dp - int (length ds))) = b"
    by (simp add: mult.assoc)
qed

section \<open>The printed literal parses back\<close>

lemma foldl_exp_digit:
  "list_all is_digit s \<Longrightarrow> digits_int s < 10000 \<Longrightarrow> foldl exp_digit 0 s = digits_int s"
proof (induction s rule: rev_induct)
  case (snoc c s)
  then have "0 \<le> digits_int s" "0 \<le> (of_char c :: int) - 48"
    by (intro digits_int_nonneg, simp, simp add: is_digit_iff)
  with snoc have "digits_int s < 10000" "foldl exp_digit 0 s = digits_int s"
    by (auto simp: digits_int_append)
  then show ?case by (simp add: exp_digit_def [of "digits_int s"] digits_int_append)
qed simp

lemma parse_exp_fmt_exp:
  assumes "\<bar>x\<bar> < 10000"
  shows "parse_exp (CHR ''e'' # fmt_exp x) = Some x"
proof -
  define ds where "ds = (if \<bar>x\<bar> < 10 then CHR ''0'' # fmt_int \<bar>x\<bar> else fmt_int \<bar>x\<bar>)"
  have "list_all is_digit ds" "ds \<noteq> []" "digits_int ds = \<bar>x\<bar>"
    using fmt_int_props [of "\<bar>x\<bar>"] by (auto simp: ds_def digits_int_Cons is_digit_iff)
  moreover from this assms have "foldl exp_digit 0 ds = \<bar>x\<bar>" by (simp add: foldl_exp_digit)
  moreover have "fmt_exp x = (if x < 0 then CHR ''-'' else CHR ''+'') # ds"
    by (simp add: fmt_exp_def ds_def)
  ultimately show ?thesis by (auto simp: parse_exp_def Let_def)
qed

text \<open>Both layouts of \<open>'g'\<close> denote \<open>0.ds * 10^dp\<close>.\<close>

lemma parse_fmt_e:
  assumes "list_all is_digit ds" "ds \<noteq> []" "hd ds \<noteq> CHR ''0''" "\<bar>dp\<bar> < 9999"
  shows "parse_decimal (sign_part neg @ fmt_e ds dp) = Some (neg, [hd ds], tl ds, dp - 1)"
proof -
  have "sign_part neg @ fmt_e ds dp = sign_part neg @ [hd ds] @ point_part (tl ds) @ CHR ''e'' # fmt_exp (dp - 1)"
    by (simp add: fmt_e_def point_part_def)
  also have "parse_decimal \<dots> = Some (neg, [hd ds], tl ds, dp - 1)"
    by (rule parse_decimal_build)
      (use assms in \<open>auto simp: int_part_ok_def parse_exp_fmt_exp neq_Nil_conv\<close>)
  finally show ?thesis .
qed

lemma parse_fmt_f:
  assumes ds: "list_all is_digit ds" "ds \<noteq> []" "hd ds \<noteq> CHR ''0''"
  obtains ip fp where "parse_decimal (sign_part neg @ fmt_f ds dp) = Some (neg, ip, fp, 0)"
    "real_of_int (digits_int (ip @ fp)) * 10 powr - real (length fp)
       = real_of_int (digits_int ds) * 10 powr real_of_int (dp - int (length ds))"
proof -
  have zeros: "list_all is_digit (replicate k (CHR ''0''))" for k by (induction k) (auto simp: is_digit_iff)
  have td: "list_all is_digit (take k ds)" "list_all is_digit (drop k ds)" for k
    using ds(1) by (auto simp: list_all_iff dest: in_set_takeD in_set_dropD)
  have build: "parse_decimal (sign_part neg @ ip @ point_part fp) = Some (neg, ip, fp, 0)"
    if "list_all is_digit ip" "list_all is_digit fp" "int_part_ok ip" for ip fp
    using parse_decimal_build [of ip fp "[]" 0 neg] that by (simp add: parse_exp_def)
  consider (whole) "0 < dp" "int (length ds) \<le> dp" | (mixed) "0 < dp" "dp < int (length ds)" | (frac) "dp \<le> 0"
    by linarith
  then show ?thesis
  proof cases
    case whole
    let ?ip = "ds @ replicate (nat dp - length ds) (CHR ''0'')"
    have "fmt_f ds dp = ?ip @ point_part []" using whole by (simp add: fmt_f_def point_part_def)
    moreover have "int_part_ok ?ip" using ds by (auto simp: int_part_ok_def)
    ultimately have "parse_decimal (sign_part neg @ fmt_f ds dp) = Some (neg, ?ip, [], 0)"
      using build [of ?ip "[]"] ds zeros by simp
    moreover have "10 powr real_of_int (dp - int (length ds)) = 10 ^ (nat dp - length ds)"
      using whole powr_real_of_int [of 10 "dp - int (length ds)"] by (simp add: nat_diff_distrib)
    ultimately show ?thesis using that by (simp add: digits_int_append)
  next
    case mixed
    let ?ip = "take (nat dp) ds" and ?fp = "drop (nat dp) ds"
    have "fmt_f ds dp = ?ip @ point_part ?fp" using mixed ds by (simp add: fmt_f_def point_part_def)
    moreover have "int_part_ok ?ip" using ds mixed by (cases ds) (auto simp: int_part_ok_def take_Cons')
    ultimately have "parse_decimal (sign_part neg @ fmt_f ds dp) = Some (neg, ?ip, ?fp, 0)"
      using build [of ?ip ?fp] td by simp
    moreover have "- real (length ?fp) = real_of_int (dp - int (length ds))" using mixed by simp
    ultimately show ?thesis using that [of ?ip ?fp] by simp
  next
    case frac
    let ?fp = "replicate (nat (- dp)) (CHR ''0'') @ ds"
    have "\<not> int (length ds) \<le> dp" using frac ds(2) by (cases ds) auto
    then have "fmt_f ds dp = ''0'' @ point_part ?fp" using frac ds by (simp add: fmt_f_def point_part_def)
    then have "parse_decimal (sign_part neg @ fmt_f ds dp) = Some (neg, ''0'', ?fp, 0)"
      using build [of "''0''" ?fp] ds zeros by (simp add: int_part_ok_def is_digit_iff)
    moreover have "- real (length ?fp) = real_of_int (dp - int (length ds))" using frac by simp
    ultimately show ?thesis using that [of "''0''" ?fp] by (simp add: digits_int_append digits_int_Cons)
  qed
qed

lemma f64_mag_range: "0 \<le> f64_mag f" "f64_mag f < 2 ^ 63"
  unfolding f64_mag_def by simp_all

lemma f64_of_mag_fields:
  assumes "is_finite f"
  shows "f64_of_mag (f64_neg f) (f64_mag f) = f"
proof -
  have "min (f64_mag f) inf_mag = f64_mag f" using assms by (simp add: is_finite_def)
  then show ?thesis by (simp add: f64_of_mag_def flip: uint_f64_fields)
qed

text \<open>The printed form of a finite float denotes a number whose nearest float is that float.\<close>

lemma FormatFloat_parses:
  assumes "is_finite f"
  obtains ip fp x where "parse_decimal (FormatFloat f) = Some (f64_neg f, ip, fp, x)"
    "round_real \<bar>the (lit_value (FormatFloat f))\<bar> = f64_mag f"
proof -
  note result = that
  let ?b = "f64_mag f"
  have fmt: "FormatFloat f = sign_part (f64_neg f) @
      (let (ds, dp) = shortest ?b in if dp - 1 < - 4 \<or> dp - 1 \<ge> 6 then fmt_e ds dp else fmt_f ds dp)"
    using assms by (simp add: FormatFloat_def is_finite_def is_nan_def is_inf_def sign_part_def case_prod_beta Let_def)
  have finish: ?thesis
    if p: "parse_decimal (FormatFloat f) = Some (f64_neg f, ip, fp, x)"
      and r: "round_real (real_of_int (digits_int (ip @ fp)) * 10 powr real_of_int (x - int (length fp))) = ?b"
    for ip fp x
  proof (rule result [OF p])
    have "0 \<le> digits_int (ip @ fp)"
      using parse_decimal_shape [OF p] by (intro digits_int_nonneg) auto
    then have "\<bar>real_of_int (digits_int (ip @ fp))\<bar> = real_of_int (digits_int (ip @ fp))" by simp
    then have "\<bar>the (lit_value (FormatFloat f))\<bar>
        = real_of_int (digits_int (ip @ fp)) * 10 powr real_of_int (x - int (length fp))"
      using p by (simp only: lit_value_def option.map option.sel prod.case decimal_ratio abs_mult)
        (simp add: abs_mult)
    with r show "round_real \<bar>the (lit_value (FormatFloat f))\<bar> = ?b" by simp
  qed
  show ?thesis
  proof (cases "?b = 0")
    case True
    then have "FormatFloat f = sign_part (f64_neg f) @ ''0'' @ point_part [] @ []"
      unfolding fmt by (simp add: shortest_def fmt_f_def point_part_def)
    also have "parse_decimal \<dots> = Some (f64_neg f, ''0'', [], 0)"
      by (rule parse_decimal_build) (simp_all add: int_part_ok_def is_digit_iff parse_exp_def)
    finally show ?thesis using finish [of "''0''" "[]" 0] True by (simp add: digits_int_Cons)
  next
    case False
    obtain ds dp where sh: "shortest ?b = (ds, dp)" by fastforce
    have "0 < ?b" "?b < inf_mag" using False f64_mag_range(1) [of f] assms by (auto simp: is_finite_def)
    note ds = shortest_props [OF this sh]
    show ?thesis
    proof (cases "dp - 1 < - 4 \<or> dp - 1 \<ge> 6")
      case True
      then have "FormatFloat f = sign_part (f64_neg f) @ fmt_e ds dp" unfolding fmt sh by simp
      then have "parse_decimal (FormatFloat f) = Some (f64_neg f, [hd ds], tl ds, dp - 1)"
        using parse_fmt_e [OF ds(1-4)] by simp
      moreover have "[hd ds] @ tl ds = ds" "dp - 1 - int (length (tl ds)) = dp - int (length ds)"
        using ds(2) by (cases ds; simp)+
      ultimately show ?thesis using ds(5) finish [of "[hd ds]" "tl ds" "dp - 1"] by metis
    next
      case f: False
      then have body: "FormatFloat f = sign_part (f64_neg f) @ fmt_f ds dp" unfolding fmt sh by simp
      obtain ip fp where "parse_decimal (sign_part (f64_neg f) @ fmt_f ds dp) = Some (f64_neg f, ip, fp, 0)"
        "real_of_int (digits_int (ip @ fp)) * 10 powr - real (length fp)
           = real_of_int (digits_int ds) * 10 powr real_of_int (dp - int (length ds))"
        using parse_fmt_f [OF ds(1-3)] by metis
      with ds(5) body show ?thesis using finish [of ip fp 0] by simp
    qed
  qed
qed

lemma ParseFloat_FormatFloat:
  assumes "is_finite f"
  shows "ParseFloat (FormatFloat f) = Some (f, False)"
proof -
  obtain ip fp x where "parse_decimal (FormatFloat f) = Some (f64_neg f, ip, fp, x)"
    and "round_real \<bar>the (lit_value (FormatFloat f))\<bar> = f64_mag f"
    using FormatFloat_parses [OF assms] by metis
  then show ?thesis using ParseFloat_value assms f64_of_mag_fields [OF assms] by (auto simp: is_finite_def)
qed

end
