(* ===== verification/Fingerprint.thy ===== *)
theory Fingerprint
  imports Lineage Decimal
begin

text \<open>
  What the fingerprint of \<open>internal/lineage/run.go\<close> identifies: the normal form of a parameter
  value depends only on the number a literal denotes, and two runs share a fingerprint exactly
  when they share their identity, up to collisions of SHA-256.
\<close>

section \<open>Zero literals\<close>

lemma takeWhile_mantissa:
  assumes "list_all is_digit ip" "list_all is_digit fp" "t = [] \<or> hd t = CHR ''e'' \<or> hd t = CHR ''E''"
  shows "takeWhile (\<lambda>c. c \<noteq> CHR ''e'' \<and> c \<noteq> CHR ''E'') (sign_part neg @ ip @ point_part fp @ t)
     = sign_part neg @ ip @ point_part fp"
proof -
  let ?P = "\<lambda>c. c \<noteq> CHR ''e'' \<and> c \<noteq> CHR ''E''"
  have digit: "?P c" if "is_digit c" for c using that by (auto simp: is_digit_iff)
  have "\<forall>c \<in> set (sign_part neg @ ip @ point_part fp). ?P c"
    using assms(1,2) digit by (auto simp: sign_part_def point_part_def list_all_iff)
  then have "takeWhile ?P ((sign_part neg @ ip @ point_part fp) @ t)
      = (sign_part neg @ ip @ point_part fp) @ takeWhile ?P t"
    by (intro takeWhile_append2) blast
  moreover have "takeWhile ?P t = []" using assms(3) by (cases t) auto
  ultimately show ?thesis by simp
qed

lemma isZeroLiteral_iff:
  assumes "parse_decimal v = Some (neg, ip, fp, x)"
  shows "isZeroLiteral v \<longleftrightarrow> digits_int (ip @ fp) = 0"
proof -
  obtain t where t: "v = sign_part neg @ ip @ point_part fp @ t"
    and d: "list_all is_digit ip" "list_all is_digit fp" and x: "parse_exp t = Some x"
    using parse_decimal_shape [OF assms] by blast
  have "isZeroLiteral v \<longleftrightarrow> list_all (\<lambda>c. \<not> (CHR ''1'' \<le> c \<and> c \<le> CHR ''9'')) (sign_part neg @ ip @ point_part fp)"
    unfolding isZeroLiteral_def t takeWhile_mantissa [OF d parse_exp_tail [OF x]] ..
  also have "\<dots> \<longleftrightarrow> list_all (\<lambda>c. \<not> (CHR ''1'' \<le> c \<and> c \<le> CHR ''9'')) (ip @ fp)"
    by (simp add: sign_part_def point_part_def less_eq_char_def)
  also have "\<dots> \<longleftrightarrow> digits_int (ip @ fp) = 0"
    using d by (subst digits_int_eq_0) simp_all
  finally show ?thesis .
qed

section \<open>The number behind a literal\<close>

text \<open>
  A real number has a double of its own sign of zero-ness: it does not overflow, and it does not
  underflow to zero.
\<close>

definition representable :: "real \<Rightarrow> bool" where
  "representable y \<longleftrightarrow> round_real \<bar>y\<bar> < inf_mag \<and> (y = 0 \<or> round_real \<bar>y\<bar> \<noteq> 0)"

text \<open>The double nearest to a real, negative zero excluded.\<close>

definition nearest :: "real \<Rightarrow> float64" where
  "nearest y = f64_of_mag (y < 0) (round_real \<bar>y\<bar>)"

lemma lit_value_parse:
  assumes "parse_decimal v = Some (neg, ip, fp, x)"
  shows "\<exists>y. lit_value v = Some y \<and> (y = 0 \<longleftrightarrow> digits_int (ip @ fp) = 0) \<and> (y \<noteq> 0 \<longrightarrow> (y < 0 \<longleftrightarrow> neg))"
proof -
  have "0 \<le> digits_int (ip @ fp)"
    using parse_decimal_shape [OF assms] by (intro digits_int_nonneg) auto
  then show ?thesis using assms
    by (cases neg) (auto simp: lit_value_def decimal_ratio mult_less_0_iff zero_less_mult_iff)
qed

lemma lit_value_numeric: "lit_value v \<noteq> None \<longleftrightarrow> numericParamPattern v"
  by (simp add: lit_value_def numericParamPattern_def)

lemma round_real_nonneg: "0 \<le> y \<Longrightarrow> 0 \<le> round_real y"
  unfolding round_real_def rne_real_def Let_def by (auto simp: max_def)

lemma uint_f64_of_mag:
  assumes "0 \<le> b" "b < inf_mag"
  shows "uint (f64_of_mag neg b) = (if neg then 2 ^ 63 else 0) + b"
proof -
  have "min b inf_mag = b" "b < 2 ^ 63" using assms by (simp_all add: inf_mag_def)
  then have "((if neg then 2 ^ 63 else 0) + b) mod 2 ^ 64 = (if neg then 2 ^ 63 else 0) + b"
    using assms(1) by (intro mod_pos_pos_trivial) auto
  with \<open>min b inf_mag = b\<close> show ?thesis
    unfolding f64_of_mag_def uint_word_of_int by simp
qed

lemma f64_mag_of_mag: "0 \<le> b \<Longrightarrow> b < inf_mag \<Longrightarrow> f64_mag (f64_of_mag neg b) = b"
  unfolding f64_mag_def by (simp add: uint_f64_of_mag inf_mag_def)

lemma f64_neg_of_mag: "0 \<le> b \<Longrightarrow> b < inf_mag \<Longrightarrow> f64_neg (f64_of_mag neg b) = neg"
  unfolding f64_neg_def by (simp add: uint_f64_of_mag inf_mag_def)

lemma is_finite_of_mag: "0 \<le> b \<Longrightarrow> b < inf_mag \<Longrightarrow> is_finite (f64_of_mag neg b)"
  by (simp add: is_finite_def f64_mag_of_mag)

lemma nearest_fields:
  assumes "representable y"
  shows "f64_mag (nearest y) = round_real \<bar>y\<bar>" "is_finite (nearest y)"
    "f64_mag (nearest y) = 0 \<longleftrightarrow> y = 0" "f64_neg (nearest y) \<longleftrightarrow> y < 0"
  using assms by (auto simp: nearest_def representable_def round_real_nonneg f64_mag_of_mag is_finite_of_mag f64_neg_of_mag)

section \<open>The normal form\<close>

lemma normalize_representable:
  assumes "lit_value v = Some y" "representable y"
  shows "normalizeParamValue v = FormatFloat (nearest y)"
proof -
  obtain neg ip fp x where p: "parse_decimal v = Some (neg, ip, fp, x)"
    using assms(1) by (auto simp: lit_value_def)
  have z: "isZeroLiteral v \<longleftrightarrow> y = 0" and s: "y \<noteq> 0 \<Longrightarrow> (y < 0) = neg"
    using isZeroLiteral_iff [OF p] lit_value_parse [OF p] assms(1) by auto
  have pf: "ParseFloat v = Some (f64_of_mag neg (round_real \<bar>y\<bar>), False)"
    using ParseFloat_value [OF p] assms by (simp add: representable_def)
  have mag: "f64_mag (f64_of_mag neg (round_real \<bar>y\<bar>)) = round_real \<bar>y\<bar>"
    using assms(2) by (simp add: representable_def round_real_nonneg f64_mag_of_mag)
  show ?thesis
  proof (cases "y = 0")
    case True
    with p pf mag z show ?thesis
      by (simp add: normalizeParamValue_def numericParamPattern_def nearest_def zero64_def)
  next
    case False
    with p pf mag s assms(2) show ?thesis
      by (simp add: normalizeParamValue_def numericParamPattern_def nearest_def representable_def)
  qed
qed

lemma normalize_unchanged:
  assumes "\<And>y. lit_value v = Some y \<Longrightarrow> \<not> representable y"
  shows "normalizeParamValue v = v"
proof (cases "parse_decimal v")
  case None
  then show ?thesis by (simp add: normalizeParamValue_def numericParamPattern_def)
next
  case (Some d)
  obtain neg ip fp x where p: "parse_decimal v = Some (neg, ip, fp, x)" using Some by (cases d) auto
  obtain y where y: "lit_value v = Some y" "y = 0 \<longleftrightarrow> digits_int (ip @ fp) = 0"
    using lit_value_parse [OF p] by blast
  have "inf_mag \<le> round_real \<bar>y\<bar> \<or> (y \<noteq> 0 \<and> round_real \<bar>y\<bar> = 0)"
    using assms [OF y(1)] by (auto simp: representable_def)
  then show ?thesis
  proof
    assume "inf_mag \<le> round_real \<bar>y\<bar>"
    then show ?thesis using p ParseFloat_value [OF p] y
      by (simp add: normalizeParamValue_def)
  next
    assume u: "y \<noteq> 0 \<and> round_real \<bar>y\<bar> = 0"
    have "0 < inf_mag" by (simp add: inf_mag_def)
    with u show ?thesis using ParseFloat_value [OF p] y isZeroLiteral_iff [OF p]
      by (simp add: normalizeParamValue_def f64_mag_of_mag)
  qed
qed

lemma normalize_cases:
  obtains (number) y where "lit_value v = Some y" "representable y"
      "normalizeParamValue v = FormatFloat (nearest y)"
  | (verbatim) "\<And>y. lit_value v = Some y \<Longrightarrow> \<not> representable y" "normalizeParamValue v = v"
proof (cases "\<exists>y. lit_value v = Some y \<and> representable y")
  case True
  then show ?thesis using number normalize_representable by blast
next
  case False
  then show ?thesis using verbatim normalize_unchanged [of v] by blast
qed

text \<open>The printed normal form denotes a number with the same nearest double.\<close>

lemma lit_value_FormatFloat:
  assumes "representable y"
  obtains z where "lit_value (FormatFloat (nearest y)) = Some z" "representable z" "nearest z = nearest y"
proof -
  let ?f = "nearest y"
  note n = nearest_fields [OF assms]
  obtain ip fp x where p: "parse_decimal (FormatFloat ?f) = Some (f64_neg ?f, ip, fp, x)"
    and r: "round_real \<bar>the (lit_value (FormatFloat ?f))\<bar> = f64_mag ?f"
    using FormatFloat_parses [OF n(2)] by metis
  obtain z where z: "lit_value (FormatFloat ?f) = Some z" "z \<noteq> 0 \<longrightarrow> (z < 0 \<longleftrightarrow> f64_neg ?f)"
    using lit_value_parse [OF p] by blast
  have zm: "round_real \<bar>z\<bar> = f64_mag ?f" using r z by simp
  have "z = 0" if "y = 0"
  proof -
    have "f64_mag ?f = 0" using n(3) that by simp
    then have "shortest (f64_mag ?f) = ([], 0)" "\<not> is_nan ?f" "\<not> is_inf ?f"
      using n(2) by (simp_all add: shortest_def is_nan_def is_inf_def is_finite_def)
    then have "FormatFloat ?f = ''0''" using n(4) that by (simp add: FormatFloat_def fmt_f_def)
    then have "lit_value ''0'' = Some z" using z by simp
    then show "z = 0"
      by (simp add: lit_value_def parse_decimal_def parse_exp_def int_part_ok_def is_digit_iff decimal_num_def digits_int_Cons)
  qed
  moreover have "y = 0" if "z = 0" using that zm n(3) by simp
  ultimately have yz: "z = 0 \<longleftrightarrow> y = 0" by blast
  have "(z < 0) = (y < 0)" using z(2) n(4) yz by (cases "y = 0") auto
  then have "nearest z = ?f" using zm n(1) by (simp add: nearest_def)
  moreover have "representable z" using zm n yz by (auto simp: representable_def is_finite_def)
  ultimately show ?thesis using that z(1) by blast
qed

section \<open>What the fingerprint identifies\<close>

text \<open>Two different hash inputs with the same digest.\<close>

definition sha256_collision :: "string \<Rightarrow> string \<Rightarrow> bool" where
  "sha256_collision x y \<longleftrightarrow> x \<noteq> y \<and> sha256 x = sha256 y"

lemma Compute_eq_iff:
  "Compute a = Compute b \<longleftrightarrow>
     sha256 (hash_input (map_keys_sorted (Params a)) a) = sha256 (hash_input (map_keys_sorted (Params b)) b)"
  by (auto simp: Compute_def Compute_ranged_def hex_encode_inject)

lemma identity_Compute: "identity_of u = identity_of r \<Longrightarrow> Compute u = Compute r"
  unfolding Compute_eq_iff by (rule arg_cong [of _ _ sha256]) (rule hash_input_eq_iff [THEN iffD2])

text \<open>
  Property C1. Two runs have the same fingerprint exactly when they agree on project, commit, dirty
  flag, config hash, dataset version, model version, seed and on the parameters in normal form,
  or their hash inputs are a collision of SHA-256. In particular no choice of field contents
  moves bytes from one field to the next, and nothing but these fields enters the fingerprint.
\<close>

theorem fingerprint_identity:
  "Compute a = Compute b \<longleftrightarrow>
     identity_of a = identity_of b \<or>
     sha256_collision (hash_input (map_keys_sorted (Params a)) a) (hash_input (map_keys_sorted (Params b)) b)"
  unfolding Compute_eq_iff sha256_collision_def hash_input_eq_iff [symmetric] by auto

text \<open>
  The fingerprint does not depend on the order in which Go visits the parameter map.
\<close>

theorem fingerprint_order_independent:
  assumes "range_order (Params r) ks"
  shows "Compute_ranged ks r = Compute r"
  using sort_range_order [OF assms] by (simp add: Compute_def Compute_ranged_def hash_input_def)

theorem fingerprint_order_independent_witness:
  "Compute_ranged [''lr'', ''bs''] sample_run = Compute sample_run"
  by (rule fingerprint_order_independent)
    (auto simp: range_order_def sample_run_def zero_run_def fmlookup_of_list split: if_splits)

text \<open>
  Property C26. Normalisation merges two parameter values only when they are the same text or are
  decimal literals with the same nearest double, neither overflowing nor underflowing; and it
  merges all of those. So \<open>3e-4\<close> and \<open>0.0003\<close> are one value, while \<open>007\<close>, \<open>1e999\<close>, \<open>true\<close> and
  every other non-number keep their own spelling.
\<close>

theorem normalize_merges_exactly:
  "normalizeParamValue a = normalizeParamValue b \<longleftrightarrow>
     a = b \<or> (\<exists>y z. lit_value a = Some y \<and> lit_value b = Some z \<and>
                    representable y \<and> representable z \<and> nearest y = nearest z)"
proof -
  have apart: False if n: "representable y" "FormatFloat (nearest y) = v"
    and v: "\<And>w. lit_value v = Some w \<Longrightarrow> \<not> representable w" for y v
    using lit_value_FormatFloat [OF n(1)] n(2) v by metis
  show ?thesis
  proof (cases a rule: normalize_cases)
    case a: (number y)
    show ?thesis
    proof (cases b rule: normalize_cases)
      case b: (number z)
      have "FormatFloat (nearest y) = FormatFloat (nearest z) \<longleftrightarrow> nearest y = nearest z"
        using ParseFloat_FormatFloat [OF nearest_fields(2)] a(2) b(2) by (metis option.inject prod.inject)
      with a b show ?thesis by auto
    next
      case verbatim
      with a apart [of y b] show ?thesis by auto
    qed
  next
    case a: verbatim
    show ?thesis
    proof (cases b rule: normalize_cases)
      case (number z)
      with a apart [of z a] show ?thesis by auto
    qed (use a in auto)
  qed
qed

text \<open>
  Normalisation is idempotent, so a client that sends values already in normal form
  gets the fingerprint of one that does not.
\<close>

theorem normalize_idempotent:
  "normalizeParamValue (normalizeParamValue v) = normalizeParamValue v"
proof (cases v rule: normalize_cases)
  case (number y)
  obtain z where "lit_value (FormatFloat (nearest y)) = Some z" "representable z" "nearest z = nearest y"
    using lit_value_FormatFloat [OF number(2)] by metis
  with number(3) show ?thesis using normalize_representable by metis
qed simp

text \<open>
  A parameter value that is a number in range is replaced by the shortest decimal
  that parses back to the same double, without error and without a negative zero.
\<close>

theorem normalize_parses_back:
  assumes "ParseFloat v = Some (f, False)" and "f64_mag f = 0 \<Longrightarrow> isZeroLiteral v"
  shows "ParseFloat (normalizeParamValue v) = Some (if f64_mag f = 0 then zero64 False else f, False)"
proof -
  obtain neg ip fp x where p: "parse_decimal v = Some (neg, ip, fp, x)"
    using assms(1) by (auto simp: ParseFloat_def split: option.splits prod.splits)
  have f: "f = f64_of_mag neg (round_real \<bar>the (lit_value v)\<bar>)" "round_real \<bar>the (lit_value v)\<bar> < inf_mag"
    using ParseFloat_value [OF p] assms(1) by auto
  have "is_finite f" "is_finite (zero64 False)"
    using f by (auto simp: is_finite_of_mag round_real_nonneg zero64_def inf_mag_def)
  moreover have "normalizeParamValue v = FormatFloat (if f64_mag f = 0 then zero64 False else f)"
    using assms p by (cases "f64_mag f = 0") (auto simp: normalizeParamValue_def numericParamPattern_def)
  ultimately show ?thesis using ParseFloat_FormatFloat by simp
qed

theorem normalize_parses_back_witness:
  "ParseFloat (normalizeParamValue ''3e-4'') = Some (0x3F33A92A30553261, False)"
proof -
  have "ParseFloat ''3e-4'' = Some (0x3F33A92A30553261, False)" "f64_mag 0x3F33A92A30553261 \<noteq> 0"
    by code_simp+
  then show ?thesis using normalize_parses_back [of "''3e-4''" "0x3F33A92A30553261"] by simp
qed

text \<open>
  \<open>Validate\<close> accepts exactly the runs with a project and a commit that are not blank, a
  status that is empty or known, a config hash if the tree was dirty, an end not before the
  start, and only known field names in the capture declaration.
\<close>

theorem validate_accepts_exactly:
  "Validate r = None \<longleftrightarrow>
     TrimSpace (Project r) \<noteq> [] \<and> TrimSpace (GitCommit r) \<noteq> []
     \<and> (Status r = [] \<or> ValidStatus (Status r))
     \<and> \<not> (GitDirty r \<and> TrimSpace (ConfigHash r) = [])
     \<and> \<not> (\<exists>t. EndedAt r = Some t \<and> Before t (StartedAt r))
     \<and> \<not> (\<exists>c f. Capture r = Some c \<and> f \<in> set (slice (Attempted c)) \<and> f \<notin> set CaptureFields)"
  unfolding Validate_None_iff Before_def by (auto simp: not_less)

end
