(* ===== verification/Compare.thy ===== *)
theory Compare
  imports Fingerprint
begin

text \<open>
  \<open>internal/compare/compare.go\<close>: what is different about two runs. The closure \<open>add\<close> of \<open>Runs\<close> is
  \<open>add_field\<close>, a step on the result under construction; \<open>Runs\<close> applies it to the fields in the
  order of the code.
\<close>

section \<open>Fields and results\<close>

datatype kind = KindIdentity | KindProvenance | KindMetric

text \<open>A nil pointer is \<^term>\<open>None\<close>.\<close>

record field =
  f_Name :: string
  f_Kind :: kind
  f_A :: "string option"
  f_B :: "string option"

record result =
  res_A :: string
  res_B :: string
  res_SameExperiment :: bool
  res_Fields :: "field list"
  res_Unattributable :: bool

definition pvalue :: "string \<Rightarrow> string option" where
  "pvalue s = Some s"

definition optional :: "string \<Rightarrow> string option" where
  "optional s = (if s = [] then None else Some s)"

definition lookup :: "string gomap \<Rightarrow> string \<Rightarrow> string option" where
  "lookup m k = (case map_get m k of None \<Rightarrow> None | Some v \<Rightarrow> Some v)"

definition equal_ptr :: "string option \<Rightarrow> string option \<Rightarrow> bool" where
  "equal_ptr x y = (if x = None \<or> y = None then x = None \<and> y = None else the x = the y)"

definition SameExperiment :: "run \<Rightarrow> run \<Rightarrow> bool" where
  "SameExperiment a b =
     (if Fingerprint a \<noteq> [] \<and> Fingerprint b \<noteq> [] then Fingerprint a = Fingerprint b
      else Compute a = Compute b)"

section \<open>Rendering\<close>

definition captureClient :: "capture_declaration option \<Rightarrow> string" where
  "captureClient c = (case c of None \<Rightarrow> [] | Some d \<Rightarrow> Client d)"

definition captureAttempted :: "capture_declaration option \<Rightarrow> string" where
  "captureAttempted c =
     (case c of None \<Rightarrow> []
      | Some d \<Rightarrow> if length (slice (Attempted d)) = 0 then []
                  else Join (sort (slice (Attempted d))) '','')"

text \<open>\<^verbatim>\<open>%g\<close> prints what \<open>FormatFloat\<close> with \<open>'g', -1\<close> does.\<close>

definition fmtMetric :: "float64 gomap \<Rightarrow> string \<Rightarrow> string option" where
  "fmtMetric m k = (case map_get m k of None \<Rightarrow> None | Some v \<Rightarrow> pvalue (FormatFloat v))"

text \<open>The set \<open>seen\<close> of both maps' keys, sorted; the visiting order of the maps does not survive the sort.\<close>

definition unionKeys :: "'v gomap \<Rightarrow> 'v gomap \<Rightarrow> string list" where
  "unionKeys a b = sort (remdups (map_keys_sorted a @ map_keys_sorted b))"

section \<open>The diff\<close>

type_synonym candidate = "string \<times> kind \<times> string option \<times> string option"

definition add_field :: "result \<Rightarrow> candidate \<Rightarrow> result" where
  "add_field res f =
     (case f of (name, knd, x, y) \<Rightarrow>
        if equal_ptr x y then res
        else let res' = res\<lparr>res_Fields := res_Fields res @ [\<lparr>f_Name = name, f_Kind = knd, f_A = x, f_B = y\<rparr>]\<rparr>
             in if res_SameExperiment res' \<and> knd = KindMetric then res'\<lparr>res_Unattributable := True\<rparr>
                else res')"

text \<open>The arguments of the successive calls of \<open>add\<close>.\<close>

definition identity_candidates :: "run \<Rightarrow> run \<Rightarrow> candidate list" where
  "identity_candidates a b =
     [(''project'', KindIdentity, pvalue (Project a), pvalue (Project b)),
      (''git_commit'', KindIdentity, pvalue (GitCommit a), pvalue (GitCommit b)),
      (''git_dirty'', KindIdentity, pvalue (sprint_bool (GitDirty a)), pvalue (sprint_bool (GitDirty b))),
      (''config_hash'', KindIdentity, optional (ConfigHash a), optional (ConfigHash b)),
      (''dataset_version'', KindIdentity, optional (DatasetVersion a), optional (DatasetVersion b)),
      (''model_version'', KindIdentity, optional (ModelVersion a), optional (ModelVersion b)),
      (''seed'', KindIdentity, pvalue (sprint_int64 (Seed a)), pvalue (sprint_int64 (Seed b)))]
     @ map (\<lambda>k. (''params.'' @ k, KindIdentity, lookup (Params a) k, lookup (Params b) k))
         (unionKeys (Params a) (Params b))"

definition provenance_candidates :: "run \<Rightarrow> run \<Rightarrow> candidate list" where
  "provenance_candidates a b =
     [(''host'', KindProvenance, optional (Host a), optional (Host b)),
      (''device'', KindProvenance, optional (Device a), optional (Device b)),
      (''framework_version'', KindProvenance, optional (FrameworkVersion a), optional (FrameworkVersion b)),
      (''submitter_claim'', KindProvenance, optional (SubmitterClaim a), optional (SubmitterClaim b)),
      (''job_id'', KindProvenance, optional (JobID a), optional (JobID b)),
      (''status'', KindProvenance, optional (Status a), optional (Status b)),
      (''checkpoint_uri'', KindProvenance, optional (CheckpointURI a), optional (CheckpointURI b)),
      (''capture.client'', KindProvenance, optional (captureClient (Capture a)), optional (captureClient (Capture b))),
      (''capture.attempted'', KindProvenance,
         optional (captureAttempted (Capture a)), optional (captureAttempted (Capture b)))]"

definition metric_candidates :: "run \<Rightarrow> run \<Rightarrow> candidate list" where
  "metric_candidates a b =
     map (\<lambda>k. (''metrics.'' @ k, KindMetric, fmtMetric (Metrics a) k, fmtMetric (Metrics b) k))
       (unionKeys (Metrics a) (Metrics b))"

definition Runs :: "run \<Rightarrow> run \<Rightarrow> result" where
  "Runs a b =
     foldl add_field
       \<lparr>res_A = RunID a, res_B = RunID b, res_SameExperiment = SameExperiment a b, res_Fields = [],
        res_Unattributable = False\<rparr>
       (identity_candidates a b @ provenance_candidates a b @ metric_candidates a b)"

section \<open>What the loop computes\<close>

lemma equal_ptr_eq [simp]: "equal_ptr x y \<longleftrightarrow> x = y"
  by (cases x; cases y) (auto simp: equal_ptr_def)

lemma lookup_get [simp]: "lookup m k = map_get m k"
  by (simp add: lookup_def split: option.splits)

lemma optional_inject [simp]: "optional x = optional y \<longleftrightarrow> x = y"
  by (simp add: optional_def)

lemma pvalue_inject [simp]: "pvalue x = pvalue y \<longleftrightarrow> x = y"
  by (simp add: pvalue_def)

lemma set_unionKeys: "k \<in> set (unionKeys a b) \<longleftrightarrow> map_get a k \<noteq> None \<or> map_get b k \<noteq> None"
  by (simp add: unionKeys_def set_map_keys_sorted)

lemma unionKeys_commute: "unionKeys a b = unionKeys b a"
  by (rule sorted_distinct_set_unique) (auto simp: unionKeys_def)

fun to_field :: "candidate \<Rightarrow> field" where
  "to_field (name, knd, x, y) = \<lparr>f_Name = name, f_Kind = knd, f_A = x, f_B = y\<rparr>"

fun distinct_ends :: "candidate \<Rightarrow> bool" where
  "distinct_ends (name, knd, x, y) = (x \<noteq> y)"

lemma foldl_add_field:
  "foldl add_field res cs =
     res\<lparr>res_Fields := res_Fields res @ map to_field (filter distinct_ends cs),
         res_Unattributable := res_Unattributable res \<or>
           (res_SameExperiment res \<and> (\<exists>c \<in> set cs. distinct_ends c \<and> f_Kind (to_field c) = KindMetric))\<rparr>"
proof (induction cs arbitrary: res)
  case (Cons c cs)
  show ?case unfolding foldl.simps Cons.IH
    by (cases c) (auto simp: add_field_def Let_def)
qed simp

definition candidates :: "run \<Rightarrow> run \<Rightarrow> candidate list" where
  "candidates a b = identity_candidates a b @ provenance_candidates a b @ metric_candidates a b"

lemma Runs_parts:
  "res_A (Runs a b) = RunID a" "res_B (Runs a b) = RunID b"
  "res_SameExperiment (Runs a b) = SameExperiment a b"
  "res_Fields (Runs a b) = map to_field (filter distinct_ends (candidates a b))"
  "res_Unattributable (Runs a b) \<longleftrightarrow> SameExperiment a b \<and>
     (\<exists>c \<in> set (candidates a b). distinct_ends c \<and> f_Kind (to_field c) = KindMetric)"
  by (simp_all add: Runs_def foldl_add_field candidates_def del: set_append foldl_append)

lemma kind_candidates:
  "c \<in> set (identity_candidates a b) \<Longrightarrow> f_Kind (to_field c) = KindIdentity"
  "c \<in> set (provenance_candidates a b) \<Longrightarrow> f_Kind (to_field c) = KindProvenance"
  "c \<in> set (metric_candidates a b) \<Longrightarrow> f_Kind (to_field c) = KindMetric"
  by (auto simp: identity_candidates_def provenance_candidates_def metric_candidates_def)

lemma candidates_of_kind:
  "(\<exists>c \<in> set (candidates a b). distinct_ends c \<and> f_Kind (to_field c) = KindIdentity) \<longleftrightarrow>
     (\<exists>c \<in> set (identity_candidates a b). distinct_ends c)"
  "(\<exists>c \<in> set (candidates a b). distinct_ends c \<and> f_Kind (to_field c) = KindMetric) \<longleftrightarrow>
     (\<exists>c \<in> set (metric_candidates a b). distinct_ends c)"
proof -
  have "(\<exists>c \<in> I \<union> (P \<union> M). D c \<and> K c = KindIdentity) = (\<exists>c \<in> I. D c)"
    "(\<exists>c \<in> I \<union> (P \<union> M). D c \<and> K c = KindMetric) = (\<exists>c \<in> M. D c)"
    if "\<And>c. c \<in> I \<Longrightarrow> K c = KindIdentity" "\<And>c. c \<in> P \<Longrightarrow> K c = KindProvenance"
      "\<And>c. c \<in> M \<Longrightarrow> K c = KindMetric" for I P M D and K :: "candidate \<Rightarrow> kind"
    using that by auto
  from this [of "set (identity_candidates a b)" "\<lambda>c. f_Kind (to_field c)" "set (provenance_candidates a b)"
      "set (metric_candidates a b)" distinct_ends, OF kind_candidates] show
    "(\<exists>c \<in> set (candidates a b). distinct_ends c \<and> f_Kind (to_field c) = KindIdentity) \<longleftrightarrow>
       (\<exists>c \<in> set (identity_candidates a b). distinct_ends c)"
    "(\<exists>c \<in> set (candidates a b). distinct_ends c \<and> f_Kind (to_field c) = KindMetric) \<longleftrightarrow>
       (\<exists>c \<in> set (metric_candidates a b). distinct_ends c)"
    unfolding candidates_def set_append by simp_all
qed

definition identity_fields :: "result \<Rightarrow> field list" where
  "identity_fields res = filter (\<lambda>f. f_Kind f = KindIdentity) (res_Fields res)"

lemma identity_fields_Runs:
  "identity_fields (Runs a b) = map to_field (filter distinct_ends (identity_candidates a b))"
proof -
  have none: "filter (\<lambda>f. f_Kind f = KindIdentity) (map to_field (filter distinct_ends cs)) = []"
    if "\<And>c. c \<in> set cs \<Longrightarrow> f_Kind (to_field c) \<noteq> KindIdentity" for cs
    using that by (induction cs) auto
  have all: "filter (\<lambda>f. f_Kind f = KindIdentity) (map to_field (filter distinct_ends cs)) = map to_field (filter distinct_ends cs)"
    if "\<And>c. c \<in> set cs \<Longrightarrow> f_Kind (to_field c) = KindIdentity" for cs
    using that by (induction cs) auto
  show ?thesis
    unfolding identity_fields_def Runs_parts candidates_def filter_append map_append
    using all [of "identity_candidates a b"] none [of "provenance_candidates a b"] none [of "metric_candidates a b"]
    by (simp add: kind_candidates)
qed

lemma field_in_Runs:
  "(\<exists>f \<in> set (res_Fields (Runs a b)). P f) \<longleftrightarrow> (\<exists>c \<in> set (candidates a b). distinct_ends c \<and> P (to_field c))"
proof -
  have "(\<exists>f \<in> set (map to_field (filter distinct_ends cs)). P f) \<longleftrightarrow> (\<exists>c \<in> set cs. distinct_ends c \<and> P (to_field c))"
    for cs by (induction cs) simp_all
  then show ?thesis by (simp only: Runs_parts)
qed

lemma field_mem_Runs:
  "\<lparr>f_Name = n, f_Kind = k, f_A = x, f_B = y\<rparr> \<in> set (res_Fields (Runs a b)) \<longleftrightarrow>
     (n, k, x, y) \<in> set (candidates a b) \<and> x \<noteq> y"
proof -
  have "\<lparr>f_Name = n, f_Kind = k, f_A = x, f_B = y\<rparr> \<in> set (map to_field (filter distinct_ends cs)) \<longleftrightarrow>
      (n, k, x, y) \<in> set cs \<and> x \<noteq> y" for cs
  proof (induction cs)
    case (Cons c cs)
    then show ?case by (cases c) auto
  qed simp
  then show ?thesis by (simp only: Runs_parts)
qed

lemma union_differ:
  "(\<exists>k \<in> set (unionKeys a b). map_get a k \<noteq> map_get b k) \<longleftrightarrow> map_get a \<noteq> map_get b"
  unfolding Bex_def set_unionKeys fun_eq_iff by metis

section \<open>Properties\<close>

lemma identity_candidates_differ:
  "(\<exists>c \<in> set (identity_candidates a b). distinct_ends c) \<longleftrightarrow>
     \<not> (Project a = Project b \<and> GitCommit a = GitCommit b \<and> GitDirty a = GitDirty b \<and> ConfigHash a = ConfigHash b
        \<and> DatasetVersion a = DatasetVersion b \<and> ModelVersion a = ModelVersion b \<and> Seed a = Seed b
        \<and> map_get (Params a) = map_get (Params b))"
  unfolding identity_candidates_def using union_differ [of "Params a" "Params b"] by simp

lemma identity_candidates_Compute:
  assumes "\<not> (\<exists>c \<in> set (identity_candidates a b). distinct_ends c)"
  shows "Compute a = Compute b"
proof -
  have "norm_params a = norm_params b"
    using assms by (intro fmap_ext) (simp add: identity_candidates_differ norm_params_lookup)
  then have "identity_of a = identity_of b"
    using assms by (simp add: identity_candidates_differ identity_of_def)
  then show ?thesis by (rule identity_Compute)
qed

text \<open>
  Property C27. The diff lists a field of kind identity exactly when the two runs differ, literally, in one of
  the fields that feed the fingerprint; if it lists none, the recomputed fingerprints are equal.
\<close>

theorem compare_identity_exact:
  "((\<exists>f \<in> set (res_Fields (Runs a b)). f_Kind f = KindIdentity) \<longleftrightarrow>
     \<not> (Project a = Project b \<and> GitCommit a = GitCommit b \<and> GitDirty a = GitDirty b \<and> ConfigHash a = ConfigHash b
        \<and> DatasetVersion a = DatasetVersion b \<and> ModelVersion a = ModelVersion b \<and> Seed a = Seed b
        \<and> map_get (Params a) = map_get (Params b)))
   \<and> ((\<exists>f \<in> set (res_Fields (Runs a b)). f_Kind f = KindIdentity) \<or> Compute a = Compute b)"
proof -
  have iff: "(\<exists>f \<in> set (res_Fields (Runs a b)). f_Kind f = KindIdentity) \<longleftrightarrow>
      (\<exists>c \<in> set (identity_candidates a b). distinct_ends c)"
    unfolding field_in_Runs candidates_of_kind ..
  then show ?thesis using identity_candidates_Compute [of a b] unfolding identity_candidates_differ by blast
qed

definition finite_metrics :: "float64 gomap \<Rightarrow> bool" where
  "finite_metrics m \<longleftrightarrow> list_all (\<lambda>k. is_finite (the (map_get m k))) (map_keys_sorted m)"

lemma finite_metricsD: "finite_metrics m \<Longrightarrow> map_get m k = Some v \<Longrightarrow> is_finite v"
  by (auto simp: finite_metrics_def list_all_iff set_map_keys_sorted dest!: bspec)

lemma FormatFloat_inject: "is_finite v \<Longrightarrow> is_finite w \<Longrightarrow> FormatFloat v = FormatFloat w \<longleftrightarrow> v = w"
  using ParseFloat_FormatFloat by (metis option.inject prod.inject)

lemma fmtMetric_inject:
  assumes "finite_metrics m" "finite_metrics n"
  shows "fmtMetric m k = fmtMetric n k \<longleftrightarrow> map_get m k = map_get n k"
  using finite_metricsD [OF assms(1), of k] finite_metricsD [OF assms(2), of k] FormatFloat_inject
  by (auto simp: fmtMetric_def pvalue_def split: option.splits)

text \<open>
  Property C28. A pair is reported unattributable exactly when the two runs are the same experiment and some
  metric differs as a double or is missing on one side: printing with \<^verbatim>\<open>%g\<close> hides no difference
  between finite values.
\<close>

theorem compare_unattributable_exact:
  assumes "finite_metrics (Metrics a)" "finite_metrics (Metrics b)"
  shows "res_Unattributable (Runs a b) \<longleftrightarrow> SameExperiment a b \<and> map_get (Metrics a) \<noteq> map_get (Metrics b)"
proof -
  have "(\<exists>c \<in> set (metric_candidates a b). distinct_ends c) \<longleftrightarrow> (\<exists>k \<in> set (unionKeys (Metrics a) (Metrics b)). map_get (Metrics a) k \<noteq> map_get (Metrics b) k)"
    by (simp add: metric_candidates_def fmtMetric_inject [OF assms])
  then show ?thesis unfolding Runs_parts candidates_of_kind union_differ by simp
qed

theorem compare_unattributable_exact_witness:
  "res_Unattributable (Runs sample_run (sample_run\<lparr>Metrics := Some (fmap_of_list [(''loss'', 0)])\<rparr>))"
proof -
  have "is_finite 0" by code_simp
  then have "finite_metrics (Some (fmap_of_list [(''loss'', 0)]))"
    by (auto simp: finite_metrics_def list_all_iff set_map_keys_sorted fmlookup_of_list split: if_splits)
  moreover have "finite_metrics (Metrics sample_run)"
    by (simp add: finite_metrics_def sample_run_def zero_run_def map_keys_sorted_def)
  moreover have "SameExperiment sample_run (sample_run\<lparr>Metrics := m\<rparr>)" for m
    unfolding SameExperiment_def Compute_eq_iff
    by (simp add: hash_input_def sample_run_def)
  moreover have "map_get (Metrics sample_run) \<noteq> map_get (Some (fmap_of_list [(''loss'', 0 :: float64)]))"
    by (auto simp: sample_run_def zero_run_def fun_eq_iff fmlookup_of_list intro!: exI [of _ "''loss''"])
  ultimately show ?thesis by (subst compare_unattributable_exact) simp_all
qed

fun swap_field :: "field \<Rightarrow> field" where
  "swap_field f = f\<lparr>f_A := f_B f, f_B := f_A f\<rparr>"

fun swap_candidate :: "candidate \<Rightarrow> candidate" where
  "swap_candidate (name, knd, x, y) = (name, knd, y, x)"

lemma candidates_swap: "candidates b a = map swap_candidate (candidates a b)"
  by (simp add: candidates_def identity_candidates_def provenance_candidates_def metric_candidates_def
      unionKeys_commute [of "Params b"] unionKeys_commute [of "Metrics b"])

lemma Runs_self: "res_Fields (Runs a a) = []"
proof -
  have "\<not> distinct_ends c" if "c \<in> set (candidates a a)" for c
    using that by (auto simp: candidates_def identity_candidates_def provenance_candidates_def metric_candidates_def)
  then show ?thesis by (simp add: Runs_parts filter_empty_conv)
qed

text \<open>
  Property C32. Comparing in the other direction gives the same verdict and the same fields in the same order,
  with the two sides exchanged; and a run compared with itself shows no difference.
\<close>

theorem compare_symmetric:
  "res_Fields (Runs b a) = map swap_field (res_Fields (Runs a b))
   \<and> res_SameExperiment (Runs b a) = res_SameExperiment (Runs a b)
   \<and> res_Unattributable (Runs b a) = res_Unattributable (Runs a b)
   \<and> res_Fields (Runs a a) = []"
proof -
  have d: "distinct_ends (swap_candidate c) = distinct_ends c" "to_field (swap_candidate c) = swap_field (to_field c)"
    "f_Kind (to_field (swap_candidate c)) = f_Kind (to_field c)" for c
    by (cases c; auto)+
  have "filter distinct_ends (map swap_candidate cs) = map swap_candidate (filter distinct_ends cs)" for cs
    by (induction cs) (simp_all add: d(1))
  then have "res_Fields (Runs b a) = map swap_field (res_Fields (Runs a b))"
    unfolding Runs_parts candidates_swap [of b a] by (simp add: d(2))
  moreover have "SameExperiment b a = SameExperiment a b" by (auto simp: SameExperiment_def)
  ultimately show ?thesis using Runs_self [of a] unfolding Runs_parts candidates_swap [of b a] by (auto simp: d(1,3))
qed

text \<open>
  A parameter is listed exactly when its text differs or only one run has it, and then with both
  texts; a parameter set to the empty string is not the same as one that is missing.
\<close>

theorem compare_param_listed:
  "\<lparr>f_Name = ''params.'' @ k, f_Kind = KindIdentity, f_A = x, f_B = y\<rparr> \<in> set (res_Fields (Runs a b)) \<longleftrightarrow>
     x = map_get (Params a) k \<and> y = map_get (Params b) k \<and> x \<noteq> y"
proof -
  have "(''params.'' @ k, KindIdentity, x, y) \<in> set (candidates a b) \<longleftrightarrow>
      (''params.'' @ k, KindIdentity, x, y) \<in> set (identity_candidates a b)"
    unfolding candidates_def set_append provenance_candidates_def metric_candidates_def by auto
  moreover have "(''params.'' @ k, KindIdentity, x, y) \<in> set (identity_candidates a b) \<and> x \<noteq> y \<longleftrightarrow>
      x = map_get (Params a) k \<and> y = map_get (Params b) k \<and> x \<noteq> y"
    unfolding identity_candidates_def by (auto simp: set_unionKeys intro!: image_eqI [of _ _ k])
  ultimately show ?thesis unfolding field_mem_Runs by blast
qed

text \<open>
  The verdict and the list can disagree: parameters are compared as text while the fingerprint
  normalises them. Two runs that differ only in writing a learning rate as \<open>3e-4\<close> and as \<open>0.0003\<close>
  are the same experiment, and yet the diff lists an identity field.
\<close>

theorem compare_same_experiment_with_identity_field:
  "SameExperiment sample_run
      (sample_run\<lparr>Params := Some (fmap_of_list [(''lr'', ''0.0003''), (''bs'', ''32'')])\<rparr>)
   \<and> (\<exists>f \<in> set (res_Fields (Runs sample_run
        (sample_run\<lparr>Params := Some (fmap_of_list [(''lr'', ''0.0003''), (''bs'', ''32'')])\<rparr>))).
        f_Kind f = KindIdentity)"
proof -
  let ?b = "sample_run\<lparr>Params := Some (fmap_of_list [(''lr'', ''0.0003''), (''bs'', ''32'')])\<rparr>"
  have "ParseFloat ''3e-4'' = Some (0x3F33A92A30553261, False)"
    "ParseFloat ''0.0003'' = Some (0x3F33A92A30553261, False)" "f64_mag 0x3F33A92A30553261 \<noteq> 0"
    "numericParamPattern ''3e-4''" "numericParamPattern ''0.0003''" by code_simp+
  then have n: "normalizeParamValue ''3e-4'' = normalizeParamValue ''0.0003''"
    by (simp add: normalizeParamValue_def)
  have "norm_params sample_run = norm_params ?b"
    by (rule fmap_ext) (auto simp: norm_params_lookup sample_run_def zero_run_def fmlookup_of_list n)
  then have "identity_of sample_run = identity_of ?b" by (simp add: identity_of_def)
  then have "Compute sample_run = Compute ?b" by (rule identity_Compute)
  moreover have "Fingerprint sample_run = []" by (simp add: sample_run_def zero_run_def)
  moreover have "map_get (Params sample_run) ''lr'' \<noteq> map_get (Params ?b) ''lr''"
    by (simp add: sample_run_def zero_run_def fmlookup_of_list)
  then have "\<exists>c \<in> set (identity_candidates sample_run ?b). distinct_ends c"
    unfolding identity_candidates_differ by metis
  then have "\<exists>f \<in> set (res_Fields (Runs sample_run ?b)). f_Kind f = KindIdentity"
    unfolding field_in_Runs candidates_of_kind .
  ultimately show ?thesis by (simp add: SameExperiment_def)
qed

end
