(* ===== verification/Spread.thy ===== *)
theory Spread
  imports Lineage Sorting_Search
begin

text \<open>
  \<open>internal/spread/spread.go\<close>: how much runs of one experiment vary. A slice index out of range
  panics in Go; \<open>stat\<close> indexes its argument at 0, so it and its callers return \<^term>\<open>None\<close> for a
  panic, and \<open>One_total\<close> shows that there is none.
\<close>

section \<open>Data\<close>

record metric_stat =
  ms_Count :: int
  ms_Min :: float64
  ms_Max :: float64
  ms_Mean :: float64
  ms_StdDev :: float64

record provenance_diff =
  pd_Field :: string
  pd_Values :: "string list"

record group =
  g_Fingerprint :: string
  g_RunIDs :: "string list"
  g_Count :: int
  g_NoRepeats :: bool
  g_InFlight :: int
  g_Metrics :: "metric_stat gomap"
  g_Provenance :: "provenance_diff list"

section \<open>Statistics of one metric\<close>

text \<open>The first loop of \<open>stat\<close>: minimum, maximum and sum so far.\<close>

definition stat_step :: "float64 \<times> float64 \<times> float64 \<Rightarrow> float64 \<Rightarrow> float64 \<times> float64 \<times> float64" where
  "stat_step acc v =
     (case acc of (mn, mx, sm) \<Rightarrow>
        (if f64_less v mn then v else mn, if f64_less mx v then v else mx, f64_add sm v))"

definition sq_step :: "float64 \<Rightarrow> float64 \<Rightarrow> float64 \<Rightarrow> float64" where
  "sq_step mean sq v = (let d = f64_sub v mean in f64_add sq (f64_mul d d))"

definition stat :: "float64 list \<Rightarrow> metric_stat option" where
  "stat vs =
     (case vs of
        [] \<Rightarrow> None
      | v0 # _ \<Rightarrow>
          (let n = int (length vs);
               (mn, mx, sm) = foldl stat_step (v0, v0, zero64 False) vs;
               mean = f64_div sm (f64_of_int n);
               sq = foldl (sq_step mean) (zero64 False) vs
           in Some \<lparr>ms_Count = n, ms_Min = mn, ms_Max = mx, ms_Mean = mean,
                    ms_StdDev = f64_sqrt (f64_div sq (f64_of_int n))\<rparr>))"

section \<open>Statistics of a group\<close>

definition append_value :: "float64 gomap \<Rightarrow> string \<Rightarrow> (string, float64 list) fmap \<Rightarrow> (string, float64 list) fmap" where
  "append_value m k vals =
     fmupd k ((case fmlookup vals k of None \<Rightarrow> [] | Some vs \<Rightarrow> vs) @ [the (map_get m k)]) vals"

definition collect :: "(string, float64 list) fmap \<Rightarrow> run \<Rightarrow> (string, float64 list) fmap" where
  "collect vals r = fold (append_value (Metrics r)) (map_keys_sorted (Metrics r)) vals"

definition metricStats :: "run list \<Rightarrow> metric_stat gomap option" where
  "metricStats rs =
     (let vals = foldl collect fmempty rs; ks = sorted_list_of_fset (fmdom vals)
      in if ks = [] then Some None
         else if list_ex (\<lambda>k. stat (the (fmlookup vals k)) = None) ks then None
         else Some (Some (fmmap (\<lambda>vs. the (stat vs)) vals)))"

definition provenanceFields :: "(string \<times> (run \<Rightarrow> string)) list" where
  "provenanceFields =
     [(''device'', Device), (''framework_version'', FrameworkVersion),
      (''submitter_claim'', SubmitterClaim), (''job_id'', JobID)]"

text \<open>The inner loop: the distinct values in order of first appearance (\<open>seen\<close> holds exactly \<open>values\<close>).\<close>

definition add_seen :: "string list \<Rightarrow> string \<Rightarrow> string list" where
  "add_seen vals v = (if v \<in> set vals then vals else vals @ [v])"

definition provenanceDiffs :: "run list \<Rightarrow> provenance_diff list" where
  "provenanceDiffs rs =
     concat (map (\<lambda>(name, get).
        let vals = foldl (\<lambda>vs r. add_seen vs (get r)) [] rs
        in if 1 < length vals then [\<lparr>pd_Field = name, pd_Values = sort vals\<rparr>] else [])
       provenanceFields)"

definition One :: "string \<Rightarrow> run list \<Rightarrow> group option" where
  "One fp rs =
     (let terminal = filter (\<lambda>r. Terminal (Status r)) rs;
          inFlight = int (length (filter (\<lambda>r. \<not> Terminal (Status r)) rs));
          ids = sort (map RunID terminal);
          g = \<lparr>g_Fingerprint = fp, g_RunIDs = ids, g_Count = int (length terminal), g_NoRepeats = False,
               g_InFlight = inFlight, g_Metrics = None, g_Provenance = []\<rparr>
      in if length terminal < 2 then Some (g\<lparr>g_NoRepeats := True\<rparr>)
         else case metricStats terminal of
                None \<Rightarrow> None
              | Some ms \<Rightarrow> Some (g\<lparr>g_Metrics := ms, g_Provenance := provenanceDiffs terminal\<rparr>))"

text \<open>
  The loop of \<open>Compute\<close> over the runs: the order of first appearance and the runs of each
  fingerprint.
\<close>

definition group_step :: "string list \<times> (string, run list) fmap \<Rightarrow> run \<Rightarrow> string list \<times> (string, run list) fmap" where
  "group_step acc r =
     (case acc of (order, byFP) \<Rightarrow>
        (if fmlookup byFP (Fingerprint r) = None then order @ [Fingerprint r] else order,
         fmupd (Fingerprint r)
           ((case fmlookup byFP (Fingerprint r) of None \<Rightarrow> [] | Some rs \<Rightarrow> rs) @ [r]) byFP))"

definition spread_Compute :: "run list \<Rightarrow> group list option" where
  "spread_Compute rs =
     (let (order, byFP) = foldl group_step ([], fmempty) rs
      in those (map (\<lambda>fp. One fp (the (fmlookup byFP fp))) order))"

text \<open>\<open>ks\<close> is the order in which \<open>range g.Metrics\<close> visits the map.\<close>

definition minus_one64 :: float64 where
  "minus_one64 = f64_of_int (- 1)"

definition widest_step :: "metric_stat gomap \<Rightarrow> float64 \<Rightarrow> string \<Rightarrow> float64" where
  "widest_step ms widest k =
     (let m = the (map_get ms k)
      in if f64_eq (ms_Mean m) (zero64 False) then widest
         else let cv = f64_abs (f64_div (ms_StdDev m) (ms_Mean m))
              in if f64_less widest cv then cv else widest)"

definition Widest_ranged :: "string list \<Rightarrow> group \<Rightarrow> float64" where
  "Widest_ranged ks g = foldl (widest_step (g_Metrics g)) minus_one64 ks"

definition Widest :: "group \<Rightarrow> float64" where
  "Widest g = Widest_ranged (map_keys_sorted (g_Metrics g)) g"

section \<open>The vals of a metric\<close>

definition reported :: "string \<Rightarrow> run list \<Rightarrow> float64 list" where
  "reported k rs = List.map_filter (\<lambda>r. map_get (Metrics r) k) rs"

definition get_values :: "(string, float64 list) fmap \<Rightarrow> string \<Rightarrow> float64 list" where
  "get_values vals k = (case fmlookup vals k of None \<Rightarrow> [] | Some vs \<Rightarrow> vs)"

lemma reported_simps [simp]:
  "reported k [] = []"
  "reported k (rs @ [r]) = reported k rs @ (case map_get (Metrics r) k of None \<Rightarrow> [] | Some v \<Rightarrow> [v])"
  by (simp_all add: reported_def List.map_filter_def split: option.splits)

lemma append_values:
  assumes "distinct ks"
  shows "fmlookup (fold (append_value m) ks vals) k =
    (if k \<in> set ks then Some (get_values vals k @ [the (map_get m k)]) else fmlookup vals k)"
  using assms
proof (induction ks arbitrary: vals)
  case (Cons j ks)
  then show ?case by (auto simp: append_value_def get_values_def split: option.splits)
qed simp

lemma fmlookup_collect:
  "fmlookup (collect vals r) k =
     (case map_get (Metrics r) k of None \<Rightarrow> fmlookup vals k | Some v \<Rightarrow> Some (get_values vals k @ [v]))"
  unfolding collect_def by (simp add: append_values set_map_keys_sorted split: option.splits)

lemma values_reported:
  "fmlookup (foldl collect fmempty rs) k = (if reported k rs = [] then None else Some (reported k rs))"
proof (induction rs rule: rev_induct)
  case (snoc r rs)
  then show ?case by (auto simp: fmlookup_collect get_values_def split: option.splits)
qed simp

lemma stat_total: "vs \<noteq> [] \<Longrightarrow> \<exists>s. stat vs = Some s"
  by (cases vs) (auto simp: stat_def Let_def split: prod.splits)

lemma metricStats_reported:
  "\<exists>ms. metricStats rs = Some ms \<and>
     (\<forall>k. map_get ms k = (if reported k rs = [] then None else stat (reported k rs)))"
proof -
  define vals where "vals = foldl collect fmempty rs"
  define ks where "ks = sorted_list_of_fset (fmdom vals)"
  have ks: "k \<in> set ks \<longleftrightarrow> reported k rs \<noteq> []" for k
    using values_reported [of rs k] by (auto simp: ks_def vals_def fmlookup_dom_iff)
  have some: "\<not> list_ex (\<lambda>k. stat (the (fmlookup vals k)) = None) ks"
    using stat_total by (fastforce simp: list_ex_iff ks vals_def values_reported)
  have ms: "metricStats rs = Some (if ks = [] then None else Some (fmmap (\<lambda>vs. the (stat vs)) vals))"
    using some by (simp add: metricStats_def Let_def vals_def [symmetric] ks_def [symmetric])
  show ?thesis
  proof (cases "ks = []")
    case True
    then have "reported k rs = []" for k using ks [of k] by simp
    with True ms show ?thesis by simp
  next
    case False
    have "map_option (\<lambda>vs. the (stat vs)) (fmlookup vals k) =
        (if reported k rs = [] then None else stat (reported k rs))" for k
      using stat_total [of "reported k rs"] by (auto simp: vals_def values_reported)
    with False ms show ?thesis by simp
  qed
qed

section \<open>Grouping\<close>

lemma group_steps:
  "foldl group_step ([], fmempty) rs = (order, byFP) \<Longrightarrow>
     distinct order \<and> set order = Fingerprint ` set rs \<and>
     (\<forall>fp. fmlookup byFP fp = (if fp \<in> Fingerprint ` set rs then Some (filter (\<lambda>r. Fingerprint r = fp) rs) else None))"
proof (induction rs arbitrary: order byFP rule: rev_induct)
  case (snoc r rs)
  obtain o' b' where f: "foldl group_step ([], fmempty) rs = (o', b')" by fastforce
  note IH = snoc.IH [OF f]
  have step: "group_step (o', b') r = (order, byFP)" using snoc.prems f by simp
  have "order = (if Fingerprint r \<in> Fingerprint ` set rs then o' else o' @ [Fingerprint r])"
    using step IH by (simp add: group_step_def split: if_splits)
  moreover have "Fingerprint r \<notin> Fingerprint ` set rs \<Longrightarrow> filter (\<lambda>x. Fingerprint x = Fingerprint r) rs = []"
    by (auto simp: filter_empty_conv image_iff)
  then have "byFP = fmupd (Fingerprint r) (filter (\<lambda>x. Fingerprint x = Fingerprint r) rs @ [r]) b'"
    using step IH by (auto simp: group_step_def)
  ultimately show ?case using IH by auto
qed simp

lemma One_total: "\<exists>g. One fp rs = Some g"
  using metricStats_reported [of "filter (\<lambda>r. Terminal (Status r)) rs"] by (auto simp: One_def Let_def)

lemma One_parts:
  assumes "One fp rs = Some g"
  shows "g_Fingerprint g = fp" "g_Count g = int (length (filter (\<lambda>r. Terminal (Status r)) rs))"
    "g_InFlight g = int (length (filter (\<lambda>r. \<not> Terminal (Status r)) rs))"
    "g_RunIDs g = sort (map RunID (filter (\<lambda>r. Terminal (Status r)) rs))"
    "g_NoRepeats g \<longleftrightarrow> length (filter (\<lambda>r. Terminal (Status r)) rs) < 2"
  using assms by (auto simp: One_def Let_def split: option.splits if_splits)

lemma those_Some: "(\<And>x. x \<in> set xs \<Longrightarrow> f x = Some (g x)) \<Longrightarrow> those (map f xs) = Some (map g xs)"
  by (induction xs) auto

lemma sum_filter_fingerprints:
  assumes "distinct order" "set order = Fingerprint ` set rs"
  shows "(\<Sum>fp \<leftarrow> order. length (filter (\<lambda>r. Fingerprint r = fp) rs)) = length rs"
proof -
  have "(\<Sum>fp \<leftarrow> order. length (filter (\<lambda>r. Fingerprint r = fp) rs))
      = (\<Sum>fp \<in> Fingerprint ` set rs. length (filter (\<lambda>r. Fingerprint r = fp) rs))"
    using assms by (simp add: sum_list_distinct_conv_sum_set)
  also have "\<dots> = (\<Sum>fp \<in> Fingerprint ` set rs. \<Sum>i \<in> {i. i < length rs \<and> Fingerprint (rs ! i) = fp}. 1)"
    by (simp add: length_filter_conv_card)
  also have "\<dots> = (\<Sum>i \<in> (\<Union>fp \<in> Fingerprint ` set rs. {i. i < length rs \<and> Fingerprint (rs ! i) = fp}). 1)"
    by (rule sum.UNION_disjoint [symmetric]) auto
  also have "(\<Union>fp \<in> Fingerprint ` set rs. {i. i < length rs \<and> Fingerprint (rs ! i) = fp}) = {..< length rs}"
    by (auto intro!: bexI [OF _ nth_mem])
  finally show ?thesis by simp
qed

lemma spread_groups_of:
  "\<exists>groups. spread_Compute rs = Some groups \<and> distinct (map g_Fingerprint groups)
     \<and> set (map g_Fingerprint groups) = Fingerprint ` set rs
     \<and> list_all (\<lambda>g. One (g_Fingerprint g) (filter (\<lambda>r. Fingerprint r = g_Fingerprint g) rs) = Some g) groups
     \<and> (\<Sum>g \<leftarrow> groups. g_Count g + g_InFlight g) = int (length rs)"
proof -
  obtain order byFP where f: "foldl group_step ([], fmempty) rs = (order, byFP)" by fastforce
  note G = group_steps [OF f]
  define G' where "G' fp = the (One fp (filter (\<lambda>r. Fingerprint r = fp) rs))" for fp
  have One: "One fp (filter (\<lambda>r. Fingerprint r = fp) rs) = Some (G' fp)" for fp
    using One_total [of fp] by (auto simp: G'_def)
  note parts = One_parts [OF One]
  have "spread_Compute rs = Some (map G' order)"
    unfolding spread_Compute_def f Let_def prod.case using G One by (intro those_Some) auto
  moreover have "map g_Fingerprint (map G' order) = order" by (simp add: parts o_def)
  moreover have "g_Count (G' fp) + g_InFlight (G' fp) = int (length (filter (\<lambda>r. Fingerprint r = fp) rs))" for fp
    unfolding parts using sum_length_filter_compl [of "\<lambda>r. Terminal (Status r)"] by (metis of_nat_add)
  then have "(\<Sum>g \<leftarrow> map G' order. g_Count g + g_InFlight g)
      = int (\<Sum>fp \<leftarrow> order. length (filter (\<lambda>r. Fingerprint r = fp) rs))"
    by (induction order) simp_all
  moreover have "list_all (\<lambda>g. One (g_Fingerprint g) (filter (\<lambda>r. Fingerprint r = g_Fingerprint g) rs) = Some g)
      (map G' order)"
    using One by (simp add: list_all_iff parts(1))
  ultimately show ?thesis using G sum_filter_fingerprints [of order rs] by (intro exI [of _ "map G' order"]) simp
qed

text \<open>
  Property C29. Grouping never fails and partitions its input: one group per fingerprint that occurs, each the
  summary of exactly the runs with that fingerprint in their order, and the finished and in-flight
  runs of all groups add up to the input.
\<close>

theorem spread_partition:
  "\<exists>groups. spread_Compute rs = Some groups \<and> distinct (map g_Fingerprint groups)
     \<and> set (map g_Fingerprint groups) = Fingerprint ` set rs
     \<and> list_all (\<lambda>g. One (g_Fingerprint g) (filter (\<lambda>r. Fingerprint r = g_Fingerprint g) rs) = Some g) groups
     \<and> (\<Sum>g \<leftarrow> groups. g_Count g + g_InFlight g) = int (length rs)"
  by (rule spread_groups_of)

text \<open>
  Property C30. A group's statistics come from its finished runs alone: for each metric key, the summary of the
  values the finished runs report, in order, and nothing for a key none of them reports. Adding
  or removing runs still in flight changes only the in-flight count.
\<close>

theorem spread_terminal_only:
  "\<exists>g. One fp rs = Some g \<and>
     g_RunIDs g = sort (map RunID (filter (\<lambda>r. Terminal (Status r)) rs)) \<and>
     (if g_NoRepeats g then g_Count g < 2 \<and> g_Metrics g = None
      else map_get (g_Metrics g) = (\<lambda>k. let vs = reported k (filter (\<lambda>r. Terminal (Status r)) rs)
                                    in if vs = [] then None else stat vs)) \<and>
     map_option (\<lambda>h. h\<lparr>g_InFlight := g_InFlight g\<rparr>) (One fp (filter (\<lambda>r. Terminal (Status r)) rs)) = Some g"
proof -
  let ?t = "filter (\<lambda>r. Terminal (Status r)) rs"
  obtain ms where ms: "metricStats ?t = Some ms"
    "\<And>k. map_get ms k = (if reported k ?t = [] then None else stat (reported k ?t))"
    using metricStats_reported by blast
  show ?thesis
  proof (cases "length ?t < 2")
    case True
    then show ?thesis by (simp add: One_def Let_def)
  next
    case False
    with ms(1) show ?thesis by (simp add: One_def Let_def fun_eq_iff ms(2))
  qed
qed

section \<open>Bounds of a summary\<close>

lemma f64_less_ord: "\<not> is_nan a \<Longrightarrow> \<not> is_nan b \<Longrightarrow> f64_less a b \<longleftrightarrow> f64_ord a < f64_ord b"
  by (simp add: f64_less_def)

lemma stat_steps:
  assumes "foldl stat_step (a, b, s) vs = (mn, mx, sm)" "\<not> is_nan a" "\<not> is_nan b" "\<forall>v \<in> set vs. \<not> is_nan v"
  shows "mn \<in> insert a (set vs) \<and> mx \<in> insert b (set vs) \<and> sm = foldl f64_add s vs
    \<and> (\<forall>v \<in> insert a (set vs). f64_ord mn \<le> f64_ord v) \<and> (\<forall>v \<in> insert b (set vs). f64_ord v \<le> f64_ord mx)"
  using assms
proof (induction vs arbitrary: a b s)
  case (Cons v vs)
  let ?a = "if f64_less v a then v else a" and ?b = "if f64_less b v then v else b"
  have "foldl stat_step (?a, ?b, f64_add s v) vs = (mn, mx, sm)"
    using Cons.prems(1) by (simp add: stat_step_def [of "(a, b, s)"])
  moreover have "\<not> is_nan ?a" "\<not> is_nan ?b" "\<forall>v \<in> set vs. \<not> is_nan v" using Cons.prems by auto
  ultimately have IH: "mn \<in> insert ?a (set vs)" "mx \<in> insert ?b (set vs)" "sm = foldl f64_add (f64_add s v) vs"
    "\<forall>v \<in> insert ?a (set vs). f64_ord mn \<le> f64_ord v" "\<forall>v \<in> insert ?b (set vs). f64_ord v \<le> f64_ord mx"
    using Cons.IH by blast+
  have "f64_ord ?a \<le> f64_ord a" "f64_ord ?a \<le> f64_ord v" "f64_ord b \<le> f64_ord ?b" "f64_ord v \<le> f64_ord ?b"
    using Cons.prems by (auto simp: f64_less_ord)
  with IH show ?case by (auto split: if_splits)
qed simp

text \<open>
  Property C31. Over values that are numbers, the summary's count is their number, its minimum and maximum
  are among them and bound them all, its mean is the rounded quotient of the left-to-right sum by
  the count.
\<close>

theorem stat_bounds:
  assumes "list_all (\<lambda>v. \<not> is_nan v) vs" "vs \<noteq> []"
  shows "\<exists>s. stat vs = Some s \<and> ms_Count s = int (length vs) \<and> ms_Min s \<in> set vs \<and> ms_Max s \<in> set vs
    \<and> list_all (\<lambda>v. \<not> f64_less v (ms_Min s) \<and> \<not> f64_less (ms_Max s) v) vs
    \<and> ms_Mean s = f64_div (foldl f64_add (zero64 False) vs) (f64_of_int (int (length vs)))"
proof -
  obtain v0 rest where vs: "vs = v0 # rest" using assms(2) by (cases vs) auto
  obtain mn mx sm where f: "foldl stat_step (v0, v0, zero64 False) vs = (mn, mx, sm)" by (metis prod_cases3)
  have nan: "\<not> is_nan v" if "v \<in> set vs" for v using assms(1) that by (simp add: list_all_iff)
  have "v0 \<in> set vs" using vs by simp
  with stat_steps [OF f nan nan] nan have st: "mn \<in> set vs" "mx \<in> set vs" "sm = foldl f64_add (zero64 False) vs"
    "\<And>v. v \<in> set vs \<Longrightarrow> f64_ord mn \<le> f64_ord v \<and> f64_ord v \<le> f64_ord mx"
    by (auto simp: insert_absorb)
  then have "list_all (\<lambda>v. \<not> f64_less v mn \<and> \<not> f64_less mx v) vs"
    by (auto simp: list_all_iff f64_less_def not_less)
  moreover have "\<exists>sd. stat vs = Some \<lparr>ms_Count = int (length vs), ms_Min = mn, ms_Max = mx,
      ms_Mean = f64_div sm (f64_of_int (int (length vs))), ms_StdDev = sd\<rparr>"
    using f unfolding stat_def vs by (simp add: Let_def)
  ultimately show ?thesis using st by auto
qed

theorem stat_bounds_witness:
  "\<exists>s. stat [0x3FF0000000000000, 0x4000000000000000] = Some s \<and> ms_Count s = 2
     \<and> ms_Min s \<in> {0x3FF0000000000000, 0x4000000000000000}"
proof -
  have "list_all (\<lambda>v. \<not> is_nan v) [0x3FF0000000000000, 0x4000000000000000]" by code_simp
  from stat_bounds [OF this] show ?thesis by auto
qed

lemma tenth_sum1: "f64_add (zero64 False) 0x3FB999999999999A = 0x3FB999999999999A"
  by code_simp

lemma tenth_sum2: "f64_add 0x3FB999999999999A 0x3FB999999999999A = 0x3FC999999999999A"
  by code_simp

lemma tenth_sum3: "f64_add 0x3FC999999999999A 0x3FB999999999999A = 0x3FD3333333333334"
  by code_simp

lemma tenth_mean: "f64_of_int 3 = 0x4008000000000000" "f64_div 0x3FD3333333333334 0x4008000000000000 = 0x3FB999999999999B"
  by code_simp+

lemma tenth_order: "f64_less 0x3FB999999999999A 0x3FB999999999999B" "\<not> f64_less 0x3FB999999999999A 0x3FB999999999999A"
  by code_simp+

text \<open>
  The mean is not confined to the range, though: for three runs that all report 0.1 the rounded
  sum divided by three is 0.10000000000000002, above the maximum.
\<close>

lemma stat_mean_above_max:
  "\<exists>s. stat [0x3FB999999999999A, 0x3FB999999999999A, 0x3FB999999999999A] = Some s
     \<and> ms_Mean s = 0x3FB999999999999B \<and> ms_Max s = 0x3FB999999999999A \<and> f64_less (ms_Max s) (ms_Mean s)"
proof -
  have "foldl stat_step (0x3FB999999999999A, 0x3FB999999999999A, zero64 False)
       [0x3FB999999999999A, 0x3FB999999999999A, 0x3FB999999999999A]
     = (0x3FB999999999999A, 0x3FB999999999999A, 0x3FD3333333333334)"
    unfolding foldl.simps stat_step_def prod.case tenth_sum1 tenth_sum2 tenth_sum3 by simp
  then show ?thesis unfolding stat_def by (simp add: Let_def tenth_mean tenth_order del: foldl.simps)
qed

section \<open>Provenance disagreements\<close>

lemma foldl_add_seen:
  "distinct (foldl (\<lambda>vs r. add_seen vs (get r)) [] rs) \<and> set (foldl (\<lambda>vs r. add_seen vs (get r)) [] rs) = get ` set rs"
  by (induction rs rule: rev_induct) (auto simp: add_seen_def)

text \<open>
  Property C33. A provenance column is reported exactly when the finished runs disagree on it, with the sorted
  list of its distinct values, the empty value (not recorded) among them.
\<close>

theorem provenance_diffs_exact:
  "d \<in> set (provenanceDiffs rs) \<longleftrightarrow>
     (\<exists>get. (pd_Field d, get) \<in> set provenanceFields \<and> 1 < card (get ` set rs)
        \<and> d = \<lparr>pd_Field = pd_Field d, pd_Values = sorted_list_of_set (get ` set rs)\<rparr>)"
proof -
  have len: "length (foldl (\<lambda>vs r. add_seen vs (get r)) [] rs) = card (get ` set rs)"
    "sort (foldl (\<lambda>vs r. add_seen vs (get r)) [] rs) = sorted_list_of_set (get ` set rs)" for get :: "run \<Rightarrow> string"
    using foldl_add_seen [of get rs] distinct_card [of "foldl (\<lambda>vs r. add_seen vs (get r)) [] rs"]
    by (simp, metis sorted_list_of_set_sort_remdups distinct_remdups_id)
  show ?thesis unfolding provenanceDiffs_def Let_def len by (auto split: if_splits)
qed

section \<open>The ranking key\<close>

definition cv_of :: "metric_stat gomap \<Rightarrow> string \<Rightarrow> float64 option" where
  "cv_of ms k =
     (let m = the (map_get ms k); cv = f64_abs (f64_div (ms_StdDev m) (ms_Mean m))
      in if f64_eq (ms_Mean m) (zero64 False) \<or> is_nan cv then None else Some cv)"

lemma f64_abs_props: "\<not> f64_neg (f64_abs f)" "f64_ord (f64_abs f) = uint (f64_abs f)"
proof -
  have "uint (f64_abs f) = f64_mag f"
    unfolding f64_abs_def f64_mag_def uint_word_of_int by simp
  moreover have "0 \<le> f64_mag f" "f64_mag f < 2 ^ 63" by (simp_all add: f64_mag_def)
  ultimately show "\<not> f64_neg (f64_abs f)" "f64_ord (f64_abs f) = uint (f64_abs f)"
    by (simp_all add: f64_neg_def f64_ord_def f64_mag_def)
qed

lemma minus_one64_props: "\<not> is_nan minus_one64" "f64_ord minus_one64 < 0"
  by code_simp+

lemma widest_steps:
  fixes ms :: "metric_stat gomap"
  defines "S \<equiv> \<lambda>ks. {cv. \<exists>k \<in> set ks. cv_of ms k = Some cv}"
  assumes "\<not> is_nan w"
  shows "let x = foldl (widest_step ms) w ks in
    \<not> is_nan x \<and> x \<in> insert w (S ks) \<and> (\<forall>v \<in> insert w (S ks). f64_ord v \<le> f64_ord x)"
  using assms(2)
proof (induction ks arbitrary: w)
  case (Cons k ks)
  let ?w = "widest_step ms w k"
  have step: "\<not> is_nan ?w \<and> ?w \<in> insert w (set_option (cv_of ms k)) \<and>
      (\<forall>v \<in> insert w (set_option (cv_of ms k)). f64_ord v \<le> f64_ord ?w)"
    using Cons.prems by (auto simp: widest_step_def cv_of_def Let_def f64_less_def)
  have S: "S (k # ks) = set_option (cv_of ms k) \<union> S ks" by (auto simp: S_def)
  from Cons.IH [of ?w] step show ?case unfolding S by (auto simp: Let_def intro: order_trans)
qed (simp add: S_def)

text \<open>
  The ranking key of a group does not depend on the order in which Go visits the metrics map.
\<close>

theorem widest_order_independent:
  assumes "range_order (g_Metrics g) ks"
  shows "Widest_ranged ks g = Widest g"
proof -
  let ?ms = "g_Metrics g" let ?ks = "map_keys_sorted ?ms"
  define S where "S = insert minus_one64 {cv. \<exists>k \<in> set ks. cv_of ?ms k = Some cv}"
  have set: "set ks = set ?ks" using assms by (simp add: range_order_def set_map_keys_sorted)
  have best: "x \<in> S \<and> (\<forall>v \<in> S. f64_ord v \<le> f64_ord x)"
    if "x = foldl (widest_step ?ms) minus_one64 js" "set js = set ks" for x js
    using widest_steps [of minus_one64 ?ms js] minus_one64_props(1) that by (simp add: Let_def S_def)
  have inj: "x = y" if "x \<in> S" "y \<in> S" "f64_ord x = f64_ord y" for x y
  proof -
    have pos: "f64_ord v = uint v" if "v \<in> S" "v \<noteq> minus_one64" for v
      using that f64_abs_props(2) by (auto simp: S_def cv_of_def Let_def split: if_splits)
    show ?thesis using that pos [of x] pos [of y] minus_one64_props(2) uint_ge_0 [of x] uint_ge_0 [of y]
      by (cases "x = minus_one64"; cases "y = minus_one64") (auto simp: word_uint_eq_iff)
  qed
  show ?thesis unfolding Widest_def Widest_ranged_def
    using best [OF refl, of ks] best [OF refl, of ?ks] set by (intro inj) (auto intro: antisym)
qed

text \<open>A group whose only metric was reported by one run.\<close>

definition single_sample_group :: group where
  "single_sample_group =
     \<lparr>g_Fingerprint = ''f'', g_RunIDs = [''a'', ''b''], g_Count = 2, g_NoRepeats = False, g_InFlight = 0,
      g_Metrics = Some (fmap_of_list [(''loss'',
        \<lparr>ms_Count = 1, ms_Min = 0x3FF0000000000000, ms_Max = 0x3FF0000000000000,
         ms_Mean = 0x3FF0000000000000, ms_StdDev = 0\<rparr>)]),
      g_Provenance = []\<rparr>"

lemma keys_singleton: "map_keys_sorted (Some (fmap_of_list [(k, v)])) = [k]"
  by (rule sorted_distinct_set_unique) (auto simp: set_map_keys_sorted fmlookup_of_list)

theorem widest_order_independent_witness:
  "Widest_ranged [''loss''] single_sample_group = Widest single_sample_group"
  by (rule widest_order_independent)
    (auto simp: range_order_def single_sample_group_def fmlookup_of_list split: if_splits)

text \<open>
  A metric only one run reported is not skipped by the ranking: a group with nothing else ranks at 0,
  not at the -1 of a group with nothing measurable.
\<close>

theorem widest_counts_single_sample:
  "Widest single_sample_group = zero64 False \<and> zero64 False \<noteq> minus_one64"
proof -
  have "f64_abs (f64_div 0 0x3FF0000000000000) = zero64 False" "\<not> f64_eq 0x3FF0000000000000 (zero64 False)"
    "f64_less minus_one64 (zero64 False)" "zero64 False \<noteq> minus_one64" by code_simp+
  then show ?thesis unfolding Widest_def Widest_ranged_def single_sample_group_def
    by (simp add: keys_singleton widest_step_def fmlookup_of_list del: fmap_of_list_simps)
qed

end
