(* ===== verification/Metrics.thy ===== *)
theory Metrics
  imports Float64 "HOL-Library.Product_Lexorder"
begin

text \<open>
  \<open>internal/metrics/metrics.go\<close>: the counters and the request-duration histogram of the server.
  Every method holds the mutex, so each is one step on the registry. The counters are \<open>uint64\<close>
  and wrap; the callback \<open>runsGauge\<close> belongs to the server and is modelled there.
\<close>

section \<open>Registry\<close>

type_synonym label2 = "string \<times> string"

record registry =
  runsRecorded :: "(label2, 64 word) fmap"
  storeErrors :: "(string, 64 word) fmap"
  reqCount :: "(label2, 64 word) fmap"
  reqSum :: "(label2, float64) fmap"
  reqBuckets :: "(label2, 64 word list) fmap"

text \<open>0.0005, 0.001, 0.0025, 0.005, 0.01, 0.025, 0.05, 0.1, 0.25, 0.5, 1\<close>

definition requestBuckets :: "float64 list" where
  "requestBuckets =
     [0x3F40624DD2F1A9FC, 0x3F50624DD2F1A9FC, 0x3F647AE147AE147B, 0x3F747AE147AE147B, 0x3F847AE147AE147B,
      0x3F9999999999999A, 0x3FA999999999999A, 0x3FB999999999999A, 0x3FD0000000000000, 0x3FE0000000000000,
      0x3FF0000000000000]"

definition metrics_New :: registry where
  "metrics_New = \<lparr>runsRecorded = fmempty, storeErrors = fmempty, reqCount = fmempty, reqSum = fmempty,
     reqBuckets = fmempty\<rparr>"

text \<open>\<open>m[k]++\<close>: a missing key reads as zero.\<close>

definition incr :: "'k \<Rightarrow> ('k, 64 word) fmap \<Rightarrow> ('k, 64 word) fmap" where
  "incr k m = fmupd k ((case fmlookup m k of None \<Rightarrow> 0 | Some n \<Rightarrow> n) + 1) m"

definition RecordRun :: "string \<Rightarrow> string \<Rightarrow> registry \<Rightarrow> registry" where
  "RecordRun project status r = r\<lparr>runsRecorded := incr (project, status) (runsRecorded r)\<rparr>"

definition StoreError :: "string \<Rightarrow> registry \<Rightarrow> registry" where
  "StoreError knd r = r\<lparr>storeErrors := incr knd (storeErrors r)\<rparr>"

definition f64_le :: "float64 \<Rightarrow> float64 \<Rightarrow> bool" where
  "f64_le a b \<longleftrightarrow> f64_less a b \<or> f64_eq a b"

definition bump_buckets :: "float64 \<Rightarrow> 64 word list \<Rightarrow> 64 word list" where
  "bump_buckets seconds buckets =
     map (\<lambda>(n, bound). if f64_le seconds bound then n + 1 else n) (zip buckets requestBuckets)"

definition ObserveRequest :: "string \<Rightarrow> int \<Rightarrow> float64 \<Rightarrow> registry \<Rightarrow> registry" where
  "ObserveRequest route code seconds r =
     (let key = (route, FormatInt code 10);
          buckets = (case fmlookup (reqBuckets r) key of None \<Rightarrow> replicate (length requestBuckets) 0 | Some bs \<Rightarrow> bs)
      in r\<lparr>reqCount := incr key (reqCount r),
           reqSum := fmupd key (f64_add (case fmlookup (reqSum r) key of None \<Rightarrow> zero64 False | Some s \<Rightarrow> s) seconds)
                       (reqSum r),
           reqBuckets := fmupd key (bump_buckets seconds buckets) (reqBuckets r)\<rparr>)"

section \<open>The text exposition\<close>

text \<open>\<open>quote\<close> is \<open>strconv.Quote\<close>, that is \<^verbatim>\<open>%q\<close>; \<open>gauge\<close> is what the callback \<open>runsGauge\<close> returns.\<close>

definition formatFloat :: "float64 \<Rightarrow> string" where
  "formatFloat f = FormatFloat f"

definition sortedKeys1 :: "(string, 'v) fmap \<Rightarrow> string list" where
  "sortedKeys1 m = sorted_list_of_fset (fmdom m)"

text \<open>By the first component, then by the second: the lexicographic order of pairs.\<close>

definition sortedKeys2 :: "(label2, 'v) fmap \<Rightarrow> label2 list" where
  "sortedKeys2 m = sorted_list_of_fset (fmdom m)"

definition eol :: string where
  "eol = ''\<newline>''"

definition writeHeader :: "string \<Rightarrow> string \<Rightarrow> string \<Rightarrow> string" where
  "writeHeader name help typ =
     ''# HELP '' @ name @ '' '' @ help @ eol @ ''# TYPE '' @ name @ '' '' @ typ @ eol"

definition fmt_uint :: "64 word \<Rightarrow> string" where
  "fmt_uint w = FormatInt (uint w) 10"

definition durations :: "(string \<Rightarrow> string) \<Rightarrow> registry \<Rightarrow> label2 \<Rightarrow> string" where
  "durations quote r key =
     (let labels = ''{route='' @ quote (fst key) @ '',code='' @ quote (snd key);
          buckets = the (fmlookup (reqBuckets r) key);
          n = fmt_uint (the (fmlookup (reqCount r) key))
      in concat (map (\<lambda>i. ''runledger_request_duration_seconds_bucket'' @ labels @ '',le='' @
               quote (formatFloat (requestBuckets ! i)) @ ''} '' @ fmt_uint (buckets ! i) @ eol) [0 ..< length requestBuckets])
         @ ''runledger_request_duration_seconds_bucket'' @ labels @ '',le='' @ [CHR 0x22] @ ''+Inf'' @ [CHR 0x22] @ ''} '' @ n @ eol
         @ ''runledger_request_duration_seconds_sum'' @ labels @ ''} '' @ formatFloat (the (fmlookup (reqSum r) key)) @ eol
         @ ''runledger_request_duration_seconds_count'' @ labels @ ''} '' @ n @ eol)"

definition WriteTo :: "(string \<Rightarrow> string) \<Rightarrow> registry \<Rightarrow> float64 \<Rightarrow> string" where
  "WriteTo quote r gauge =
     writeHeader ''runledger_runs_recorded_total'' ''Total number of runs recorded, by project and status.'' ''counter''
     @ concat (map (\<lambda>key. ''runledger_runs_recorded_total{project='' @ quote (fst key) @ '',status='' @ quote (snd key)
          @ ''} '' @ fmt_uint (the (fmlookup (runsRecorded r) key)) @ eol) (sortedKeys2 (runsRecorded r)))
     @ writeHeader ''runledger_store_errors_total'' ''Total number of store errors, by kind.'' ''counter''
     @ concat (map (\<lambda>k. ''runledger_store_errors_total{kind='' @ quote k @ ''} ''
          @ fmt_uint (the (fmlookup (storeErrors r) k)) @ eol) (sortedKeys1 (storeErrors r)))
     @ writeHeader ''runledger_request_duration_seconds''
         ''HTTP request duration in seconds, by route and status code.'' ''histogram''
     @ concat (map (durations quote r) (sortedKeys2 (reqCount r)))
     @ writeHeader ''runledger_runs'' ''Current number of runs held by the store.'' ''gauge''
     @ ''runledger_runs '' @ formatFloat gauge @ eol"

section \<open>The histogram counts\<close>

type_synonym observation = "string \<times> int \<times> float64"

definition observe :: "registry \<Rightarrow> observation \<Rightarrow> registry" where
  "observe r ob = (case ob of (route, code, seconds) \<Rightarrow> ObserveRequest route code seconds r)"

definition at_key :: "label2 \<Rightarrow> observation \<Rightarrow> bool" where
  "at_key key ob \<longleftrightarrow> (case ob of (route, code, seconds) \<Rightarrow> (route, FormatInt code 10) = key)"

definition took_at_most :: "float64 \<Rightarrow> observation \<Rightarrow> bool" where
  "took_at_most bound ob \<longleftrightarrow> (case ob of (route, code, seconds) \<Rightarrow> f64_le seconds bound)"

lemma fmlookup_incr: "fmlookup (incr k m) j =
   (if j = k then Some ((case fmlookup m k of None \<Rightarrow> 0 | Some n \<Rightarrow> n) + 1) else fmlookup m j)"
  by (simp add: incr_def)

lemma histogram_words:
  "(case fmlookup (reqCount (foldl observe metrics_New obs)) key of None \<Rightarrow> 0 | Some n \<Rightarrow> n)
      = of_nat (length (filter (at_key key) obs)) \<and>
   (case fmlookup (reqBuckets (foldl observe metrics_New obs)) key of
      None \<Rightarrow> replicate (length requestBuckets) 0 | Some bs \<Rightarrow> bs)
      = map (\<lambda>b. of_nat (length (filter (\<lambda>ob. at_key key ob \<and> took_at_most b ob) obs))) requestBuckets"
proof (induction obs rule: rev_induct)
  case Nil
  then show ?case by (simp add: metrics_New_def map_replicate_const)
next
  case (snoc ob obs)
  obtain route code secs where ob: "ob = (route, code, secs)" by (cases ob)
  let ?r = "foldl observe metrics_New obs"
  show ?case
  proof (cases "at_key key ob")
    case True
    then have k: "key = (route, FormatInt code 10)" by (simp add: at_key_def ob)
    have "bump_buckets secs (map f requestBuckets)
        = map (\<lambda>b. if f64_le secs b then f b + 1 else f b) requestBuckets" for f
      by (simp add: bump_buckets_def zip_map1 zip_same_conv_map o_def)
    with snoc True show ?thesis
      by (simp add: ob observe_def ObserveRequest_def Let_def fmlookup_incr k [symmetric] took_at_most_def
          cong: map_cong)
  next
    case False
    then have "(route, FormatInt code 10) \<noteq> key" by (simp add: at_key_def ob)
    with snoc False show ?thesis by (auto simp: ob observe_def ObserveRequest_def Let_def fmlookup_incr)
  qed
qed

text \<open>
  Property C40. As long as fewer than \<open>2 ^ 64\<close> requests were observed, each bucket of the histogram holds exactly
  the number of requests of its route and status code that took at most the bucket's bound, and
  the count their total; so the buckets never exceed the count.
\<close>

theorem histogram_exact:
  assumes "length obs < 2 ^ 64" "fmlookup (reqCount (foldl observe metrics_New obs)) key = Some n"
    "fmlookup (reqBuckets (foldl observe metrics_New obs)) key = Some bs"
  shows "unat n = length (filter (at_key key) obs)
    \<and> map unat bs = map (\<lambda>b. length (filter (\<lambda>ob. at_key key ob \<and> took_at_most b ob) obs)) requestBuckets
    \<and> list_all (\<lambda>x. unat x \<le> unat n) bs"
proof -
  have small: "unat (of_nat k :: 64 word) = k" if "k \<le> length obs" for k
    using that assms(1) by (simp add: unat_of_nat take_bit_nat_eq_self)
  have "length (filter P obs) \<le> length obs" for P by simp
  note small = small [OF this]
  have n: "n = of_nat (length (filter (at_key key) obs))"
    "bs = map (\<lambda>b. of_nat (length (filter (\<lambda>ob. at_key key ob \<and> took_at_most b ob) obs))) requestBuckets"
    using histogram_words [of obs key] assms(2,3) by simp_all
  have "length (filter (\<lambda>ob. at_key key ob \<and> took_at_most b ob) obs) \<le> length (filter (at_key key) obs)" for b
    by (induction obs) auto
  then show ?thesis unfolding n by (simp add: small o_def list_all_iff)
qed

theorem histogram_exact_witness:
  "\<exists>n bs. fmlookup (reqCount (foldl observe metrics_New [(''GET /metrics'', 200, 0)])) (''GET /metrics'', ''200'') = Some n
     \<and> fmlookup (reqBuckets (foldl observe metrics_New [(''GET /metrics'', 200, 0)])) (''GET /metrics'', ''200'') = Some bs
     \<and> unat n = 1"
proof -
  have f: "FormatInt 200 10 = ''200''" by code_simp
  then have "at_key (''GET /metrics'', ''200'') (''GET /metrics'', 200, 0)" by (simp add: at_key_def)
  with histogram_exact [of "[(''GET /metrics'', 200, 0)]" "(''GET /metrics'', ''200'')"] f show ?thesis
    by (simp add: observe_def ObserveRequest_def Let_def metrics_New_def incr_def)
qed

end
