(* ===== verification/Api.thy ===== *)
theory Api
  imports Cursors Compare Spread Metrics
begin

text \<open>
  The HTTP server, \<open>internal/api/api.go\<close>: authentication, routing, the handlers and the middleware
  around them, over any store (the Go interface \<open>store.Store\<close> as the record \<open>store_ops\<close>).

  A handler maps a request and a server to a response and the server afterwards; a panic is
  \<^term>\<open>None\<close> in place of the response, which \<open>instrument\<close> recovers. What a handler asks of the
  world around it is in the environment of the request: the clock, the random bytes, and the
  results of \<open>mime.ParseMediaType\<close> and \<open>time.Parse(time.RFC3339, _)\<close>, which are arguments of the
  model. The body of a request is the outcome of \<open>Decode\<close> into the handler's struct: an error
  (malformed JSON, an unknown field, more than \<open>MaxRequestBodyBytes\<close>) or the decoded value.
\<close>

section \<open>Limits and tokens\<close>

definition DefaultListLimit :: int where "DefaultListLimit = 50"
definition MaxListLimit :: int where "MaxListLimit = 500"
definition defaultMinRuns :: int where "defaultMinRuns = 2"

record auth =
  WriteToken :: string
  ReadToken :: string

definition auth_enabled :: "auth \<Rightarrow> bool" where
  "auth_enabled a \<longleftrightarrow> WriteToken a \<noteq> [] \<or> ReadToken a \<noteq> []"

text \<open>\<open>subtle.ConstantTimeCompare\<close> is 1 exactly for equal byte strings.\<close>

definition constantTimeEqual :: "string \<Rightarrow> string \<Rightarrow> bool" where
  "constantTimeEqual a b \<longleftrightarrow> (if length a \<noteq> length b then False else list_all2 (=) a b)"

definition allows :: "auth \<Rightarrow> bool \<Rightarrow> string \<Rightarrow> bool" where
  "allows a wr token \<longleftrightarrow>
     (if WriteToken a \<noteq> [] \<and> constantTimeEqual token (WriteToken a) then True
      else if \<not> wr \<and> ReadToken a \<noteq> [] \<and> constantTimeEqual token (ReadToken a) then True
      else False)"

section \<open>The server and its store\<close>

record 'st server =
  srv_store :: 'st
  srv_metrics :: registry
  srv_auth :: auth

text \<open>An \<open>Option\<close> changes the server under construction; \<open>api_New\<close> is the call that \<open>cmd/runledger\<close> makes.\<close>

definition WithAuth :: "auth \<Rightarrow> 'st server \<Rightarrow> 'st server" where
  "WithAuth a s = s\<lparr>srv_auth := a\<rparr>"

definition New_server :: "'st \<Rightarrow> ('st server \<Rightarrow> 'st server) list \<Rightarrow> 'st server" where
  "New_server st opts =
     (let srv = foldl (\<lambda>s opt. opt s) \<lparr>srv_store = st, srv_metrics = metrics_New, srv_auth = \<lparr>WriteToken = [], ReadToken = []\<rparr>\<rparr> opts
      in srv\<lparr>srv_metrics := metrics_New\<rparr>)"

definition api_New :: "'st \<Rightarrow> auth \<Rightarrow> 'st server" where
  "api_New st a = New_server st [WithAuth a]"

lemma api_New_eq: "api_New st a = \<lparr>srv_store = st, srv_metrics = metrics_New, srv_auth = a\<rparr>"
  by (simp add: api_New_def New_server_def WithAuth_def Let_def)

text \<open>The callback \<open>New\<close> hands to the registry.\<close>

definition runsGauge :: "'st store_ops \<Rightarrow> 'st \<Rightarrow> float64" where
  "runsGauge ops st =
     (case so_List ops empty_query st of
        Inl e \<Rightarrow> f64_of_int (- 1)
      | Inr pg \<Rightarrow> f64_of_int (int (length (pg_Runs pg))))"

definition with_metrics :: "(registry \<Rightarrow> registry) \<Rightarrow> 'st server \<Rightarrow> 'st server" where
  "with_metrics f srv = srv\<lparr>srv_metrics := f (srv_metrics srv)\<rparr>"

section \<open>Requests and responses\<close>

record patch_request =
  pr_Project :: "string option"
  pr_GitCommit :: "string option"
  pr_GitDirty :: "bool option"
  pr_ConfigHash :: "string option"
  pr_DatasetVersion :: "string option"
  pr_ModelVersion :: "string option"
  pr_Seed :: "64 word option"
  pr_Params :: "string gomap"
  pr_Status :: "status option"
  pr_EndedAt :: "time option"
  pr_CheckpointURI :: "string option"
  pr_Host :: "string option"
  pr_Device :: "string option"
  pr_FrameworkVersion :: "string option"
  pr_SubmitterClaim :: "string option"
  pr_JobID :: "string option"
  pr_Metrics :: "float64 gomap"

definition to_patch :: "patch_request \<Rightarrow> patch" where
  "to_patch q = \<lparr>p_Project = pr_Project q, p_GitCommit = pr_GitCommit q, p_GitDirty = pr_GitDirty q,
     p_ConfigHash = pr_ConfigHash q, p_DatasetVersion = pr_DatasetVersion q,
     p_ModelVersion = pr_ModelVersion q, p_Seed = pr_Seed q, p_Params = pr_Params q,
     p_Status = pr_Status q, p_EndedAt = pr_EndedAt q, p_CheckpointURI = pr_CheckpointURI q,
     p_Host = pr_Host q, p_Device = pr_Device q, p_FrameworkVersion = pr_FrameworkVersion q,
     p_SubmitterClaim = pr_SubmitterClaim q, p_JobID = pr_JobID q, p_Metrics = pr_Metrics q\<rparr>"

text \<open>
  The path is the list of segments of the cleaned, unescaped URL path, a trailing slash giving an
  empty last segment. The query is \<open>url.Values\<close>; \<open>q_get\<close> is its \<open>Get\<close>.
\<close>

record request =
  rq_Method :: string
  rq_Path :: "string list"
  rq_Header :: "string \<Rightarrow> string"
  rq_Query :: "(string, string list) fmap"
  rq_RunBody :: "string + run"
  rq_PatchBody :: "string + patch_request"

definition q_get :: "(string, string list) fmap \<Rightarrow> string \<Rightarrow> string" where
  "q_get q k = (case fmlookup q k of Some (v # _) \<Rightarrow> v | _ \<Rightarrow> [])"

record environment =
  e_now :: time
  e_suffixBytes :: "string option"
  e_reqIDBytes :: "string option"
  e_seconds :: float64
  e_ParseMediaType :: "string \<Rightarrow> string option"
  e_ParseTime :: "string \<Rightarrow> time option"

text \<open>The bytes that \<open>rand.Read\<close> fills the buffer with are in the environment; \<^term>\<open>None\<close> is its failure.\<close>

definition newRequestID :: "environment \<Rightarrow> string" where
  "newRequestID env = (case e_reqIDBytes env of None \<Rightarrow> ''unavailable'' | Some buf \<Rightarrow> hex_encode buf)"

definition randomSuffix :: "environment \<Rightarrow> string" where
  "randomSuffix env = (case e_suffixBytes env of None \<Rightarrow> ''unavailable'' | Some buf \<Rightarrow> hex_encode buf)"

datatype api_error =
    MissingContentType
  | UnsupportedContentType string
  | DecodeError string
  | StoreFailed store_error
  | RunA store_error
  | RunB store_error
  | NotReady store_error
  | UnknownQueryParameter string
  | BadLimit string
  | BadMinRuns string
  | BadCursor cursor_error
  | StaleCursor
  | BadStatus string
  | BadTime string string
  | BothRequired
  | NoSuchFingerprint string
  | ReadOnlyToken
  | MissingToken
  | NoSuchRoute string "string list"
  | MethodNotAllowed string "string list"

datatype body =
    BEmpty
  | BText string
  | BErr string api_error
  | BRun run
  | BPage "run list" int int "string option"
  | BResult result
  | BGroups "group list" int int "string option"
  | BGroup group
  | BMetrics registry float64

record response =
  rs_Status :: int
  rs_Header :: "(string \<times> string) list"
  rs_Body :: body

definition writeJSON :: "int \<Rightarrow> body \<Rightarrow> response" where
  "writeJSON code v = \<lparr>rs_Status = code, rs_Header = [(''Content-Type'', ''application/json'')], rs_Body = v\<rparr>"

definition writeErr :: "int \<Rightarrow> string \<Rightarrow> api_error \<Rightarrow> response" where
  "writeErr code errCode err = writeJSON code (BErr errCode err)"

definition set_header :: "string \<Rightarrow> string \<Rightarrow> response \<Rightarrow> response" where
  "set_header k v r = r\<lparr>rs_Header := (k, v) # filter (\<lambda>h. fst h \<noteq> k) (rs_Header r)\<rparr>"

type_synonym 'st handler = "environment \<Rightarrow> 'st store_ops \<Rightarrow> request \<Rightarrow> 'st server \<Rightarrow> response option \<times> 'st server"

section \<open>Parameters\<close>

definition parseLimit :: "string \<Rightarrow> api_error + int" where
  "parseLimit s =
     (if s = [] then Inr DefaultListLimit
      else case Atoi s of
        None \<Rightarrow> Inl (BadLimit s)
      | Some n \<Rightarrow> if n \<le> 0 then Inl (BadLimit s)
                  else Inr (if n > MaxListLimit then MaxListLimit else n))"

definition parseMinRuns :: "string \<Rightarrow> api_error + int" where
  "parseMinRuns s =
     (if s = [] then Inr defaultMinRuns
      else case Atoi s of
        None \<Rightarrow> Inl (BadMinRuns s)
      | Some n \<Rightarrow> if n < 0 then Inl (BadMinRuns s) else Inr n)"

definition parseTimeParam :: "environment \<Rightarrow> string \<Rightarrow> string \<Rightarrow> api_error + time" where
  "parseTimeParam env name s =
     (if s = [] then Inr zero_time
      else case e_ParseTime env s of None \<Rightarrow> Inl (BadTime name s) | Some t \<Rightarrow> Inr t)"

definition listQueryParams :: "string list" where
  "listQueryParams =
     [''project'', ''git_commit'', ''fingerprint'', ''status'', ''device'', ''limit'', ''cursor'',
      ''since'', ''until'', ''submitter_claim'', ''job_id'', ''capture_client'']"

definition spreadListQueryParams :: "string list" where
  "spreadListQueryParams = [''project'', ''min_runs'', ''limit'', ''cursor'']"

text \<open>
  The first unknown query parameter. Go visits the parameters in some order; which of several
  unknown ones is named in the error depends on it, the status and code do not.
\<close>

definition unknown_param :: "string list \<Rightarrow> (string, string list) fmap \<Rightarrow> string option" where
  "unknown_param known q = List.find (\<lambda>k. k \<notin> set known) (sorted_list_of_fset (fmdom q))"

definition requireJSON :: "environment \<Rightarrow> request \<Rightarrow> api_error option" where
  "requireJSON env rq =
     (let ct = rq_Header rq ''Content-Type''
      in if ct = [] then Some MissingContentType
         else if e_ParseMediaType env ct \<noteq> Some ''application/json'' then Some (UnsupportedContentType ct)
         else None)"

definition bearerToken :: "request \<Rightarrow> string \<times> bool" where
  "bearerToken rq =
     (let h = rq_Header rq ''Authorization''
      in if \<not> HasPrefix h ''Bearer '' then ([], False)
         else let token = TrimPrefix h ''Bearer '' in (token, token \<noteq> []))"

definition requireAuth :: "bool \<Rightarrow> 'st handler \<Rightarrow> 'st handler" where
  "requireAuth wr nxt env ops rq srv =
     (if \<not> auth_enabled (srv_auth srv) then nxt env ops rq srv
      else case bearerToken rq of (token, ok) \<Rightarrow>
        if ok \<and> allows (srv_auth srv) wr token then nxt env ops rq srv
        else if ok \<and> wr \<and> allows (srv_auth srv) False token
        then (Some (writeErr 403 ''forbidden'' ReadOnlyToken), srv)
        else (Some (set_header ''WWW-Authenticate'' ''Bearer realm=\"run-ledger\"''
                      (writeErr 401 ''unauthenticated'' MissingToken)), srv))"

section \<open>Recording and updating\<close>

definition apiVersion :: string where
  "apiVersion = ''/v1''"

text \<open>The fields the server fills in before a run reaches the store.\<close>

definition stamp :: "environment \<Rightarrow> run \<Rightarrow> run" where
  "stamp env r0 =
     (let r1 = (if IsZero (StartedAt r0) then r0\<lparr>StartedAt := e_now env\<rparr> else r0);
          r2 = (if Status r1 = [] then r1\<lparr>Status := StatusCreated\<rparr> else r1);
          r3 = r2\<lparr>Fingerprint := Compute r2\<rparr>;
          r4 = r3\<lparr>FingerprintVersion := CurrentFingerprintVersion\<rparr>
      in if RunID r4 = []
         then r4\<lparr>RunID := take 16 (Fingerprint r4) @ ''-'' @ FormatInt (sint (UnixNano (StartedAt r4))) 36
                          @ ''-'' @ randomSuffix env\<rparr>
         else r4)"

text \<open>
  The store sorts the attempted capture fields in place, through a pointer the handler's copy of
  the run shares; so the run in the response has them sorted.
\<close>

definition api_record :: "'st handler" where
  "api_record env ops rq srv =
     (case requireJSON env rq of
        Some e \<Rightarrow> (Some (writeErr 415 ''unsupported_media_type'' e), srv)
      | None \<Rightarrow>
        (case rq_RunBody rq of
           Inl m \<Rightarrow> (Some (writeErr 400 ''bad_request'' (DecodeError m)), srv)
         | Inr r0 \<Rightarrow>
           (let r = stamp env r0
            in case so_Record ops r (srv_store srv) of
                 (Some err, st) \<Rightarrow>
                   (let srv' = srv\<lparr>srv_store := st\<rparr>
                    in if errors_Is err ErrConflict
                       then (Some (writeErr 409 ''id_taken'' (StoreFailed err)),
                             with_metrics (StoreError ''conflict'') srv')
                       else (Some (writeErr 400 ''bad_request'' (StoreFailed err)),
                             with_metrics (StoreError ''invalid'') srv'))
               | (None, st) \<Rightarrow>
                   (Some (set_header ''Location'' (apiVersion @ ''/runs/'' @ RunID r)
                            (writeJSON 201 (BRun (NormalizeCapture r)))),
                    with_metrics (RecordRun (Project r) (Status r)) (srv\<lparr>srv_store := st\<rparr>)))))"

text \<open>The switch of \<open>update\<close> on the error: metric kind, HTTP status and error code.\<close>

definition update_error_response :: "store_error \<Rightarrow> string \<times> int \<times> string" where
  "update_error_response err =
     (if errors_Is err ErrNotFound then (''not_found'', 404, ''not_found'')
      else if errors_Is err ErrIdentityConflict then (''conflict'', 409, ''identity_conflict'')
      else if errors_Is err ErrIllegalTransition then (''conflict'', 409, ''illegal_transition'')
      else if errors_Is err ErrUnknownStatus then (''invalid'', 400, ''unknown_status'')
      else if errors_Is err ErrConflict then (''conflict'', 409, ''conflict'')
      else (''invalid'', 400, ''bad_request''))"

definition api_update :: "string \<Rightarrow> 'st handler" where
  "api_update i env ops rq srv =
     (case requireJSON env rq of
        Some e \<Rightarrow> (Some (writeErr 415 ''unsupported_media_type'' e), srv)
      | None \<Rightarrow>
        (case rq_PatchBody rq of
           Inl m \<Rightarrow> (Some (writeErr 400 ''bad_request'' (DecodeError m)), srv)
         | Inr req \<Rightarrow>
           (case so_Update ops (e_now env) i (to_patch req) (srv_store srv) of
              (Inl err, st) \<Rightarrow>
                (case update_error_response err of (knd, code, errCode) \<Rightarrow>
                   (Some (writeErr code errCode (StoreFailed err)),
                    with_metrics (StoreError knd) (srv\<lparr>srv_store := st\<rparr>)))
            | (Inr r, st) \<Rightarrow>
                (let srv' = srv\<lparr>srv_store := st\<rparr>
                 in (Some (writeJSON 200 (BRun r)),
                     if pr_Status req \<noteq> None then with_metrics (RecordRun (Project r) (Status r)) srv' else srv')))))"

section \<open>Reading\<close>

definition api_get :: "string \<Rightarrow> 'st handler" where
  "api_get i env ops rq srv =
     (case so_Get ops i (srv_store srv) of
        Inl err \<Rightarrow>
          if errors_Is err ErrNotFound
          then (Some (writeErr 404 ''not_found'' (StoreFailed err)), with_metrics (StoreError ''not_found'') srv)
          else (Some (writeErr 500 ''internal'' (StoreFailed err)), with_metrics (StoreError ''internal'') srv)
      | Inr r \<Rightarrow> (Some (writeJSON 200 (BRun r)), srv))"

text \<open>The query of \<open>list\<close>, or the status code and error with which the request is refused.\<close>

definition list_query :: "environment \<Rightarrow> (string, string list) fmap \<Rightarrow> string \<times> api_error + query" where
  "list_query env q =
     (case unknown_param listQueryParams q of
        Some k \<Rightarrow> Inl (''bad_request'', UnknownQueryParameter k)
      | None \<Rightarrow>
     (case parseLimit (q_get q ''limit'') of
        Inl e \<Rightarrow> Inl (''bad_request'', e)
      | Inr limit \<Rightarrow>
     (case (if q_get q ''cursor'' = [] then Inr None
            else case decodeCursor (q_get q ''cursor'') of Inl e \<Rightarrow> Inl e | Inr c \<Rightarrow> Inr (Some c)) of
        Inl e \<Rightarrow> Inl (''invalid_cursor'', BadCursor e)
      | Inr after \<Rightarrow>
     (let status = q_get q ''status''
      in if status \<noteq> [] \<and> \<not> ValidStatus status then Inl (''unknown_status'', BadStatus status)
         else case parseTimeParam env ''since'' (q_get q ''since'') of
           Inl e \<Rightarrow> Inl (''bad_request'', e)
         | Inr since \<Rightarrow>
         (case parseTimeParam env ''until'' (q_get q ''until'') of
           Inl e \<Rightarrow> Inl (''bad_request'', e)
         | Inr untl \<Rightarrow>
             Inr \<lparr>q_Project = q_get q ''project'', q_GitCommit = q_get q ''git_commit'',
                  q_Fingerprint = q_get q ''fingerprint'', q_Status = status,
                  q_Device = q_get q ''device'', q_SubmitterClaim = q_get q ''submitter_claim'',
                  q_JobID = q_get q ''job_id'', q_CaptureClient = q_get q ''capture_client'',
                  q_Limit = limit, q_After = after, q_Since = since, q_Until = untl\<rparr>)))))"

definition api_list :: "'st handler" where
  "api_list env ops rq srv =
     (case list_query env (rq_Query rq) of
        Inl (code, e) \<Rightarrow> (Some (writeErr 400 code e), srv)
      | Inr qry \<Rightarrow>
          (case so_List ops qry (srv_store srv) of
             Inl err \<Rightarrow> (Some (writeErr 500 ''internal'' (StoreFailed err)), with_metrics (StoreError ''internal'') srv)
           | Inr pg \<Rightarrow>
               (Some (writeJSON 200 (BPage (pg_Runs pg) (int (length (pg_Runs pg))) (q_Limit qry)
                        (map_option encodeCursor (pg_Next pg)))), srv)))"

definition statusFor :: "store_error \<Rightarrow> int" where
  "statusFor err = (if errors_Is err ErrNotFound then 404 else 500)"

definition errKind :: "store_error \<Rightarrow> string" where
  "errKind err = (if errors_Is err ErrNotFound then ''not_found'' else ''internal'')"

definition errCodeFor :: "store_error \<Rightarrow> string" where
  "errCodeFor err = (if errors_Is err ErrNotFound then ''not_found'' else ''internal'')"

text \<open>
  The two runs are read one after the other, without a lock around both: \<open>later\<close> is the store at
  the second read. In a request that nobody writes under, it is the same.
\<close>

definition api_compare_at :: "'st \<Rightarrow> 'st handler" where
  "api_compare_at later env ops rq srv =
     (let idA = q_get (rq_Query rq) ''a''; idB = q_get (rq_Query rq) ''b''
      in if idA = [] \<or> idB = [] then (Some (writeErr 400 ''bad_request'' BothRequired), srv)
         else case so_Get ops idA (srv_store srv) of
           Inl err \<Rightarrow> (Some (writeErr (statusFor err) (errCodeFor err) (RunA err)),
                       with_metrics (StoreError (errKind err)) srv)
         | Inr a \<Rightarrow>
           (case so_Get ops idB later of
              Inl err \<Rightarrow> (Some (writeErr (statusFor err) (errCodeFor err) (RunB err)),
                          with_metrics (StoreError (errKind err)) srv)
            | Inr b \<Rightarrow> (Some (writeJSON 200 (BResult (Runs a b))), srv)))"

definition api_compare :: "'st handler" where
  "api_compare env ops rq srv = api_compare_at (srv_store srv) env ops rq srv"

definition group_less :: "group \<Rightarrow> group \<Rightarrow> bool" where
  "group_less g h \<longleftrightarrow>
     (let wi = Widest g; wj = Widest h
      in if \<not> f64_eq wi wj then f64_less wj wi else g_Fingerprint g < g_Fingerprint h)"

fun index_of :: "('a \<Rightarrow> bool) \<Rightarrow> 'a list \<Rightarrow> nat option" where
  "index_of P [] = None"
| "index_of P (x # xs) = (if P x then Some 0 else map_option Suc (index_of P xs))"

text \<open>The page of \<open>spreadList\<close> after the group \<open>after\<close>, with the cursor of the next; \<^term>\<open>None\<close> if the cursor is stale.\<close>

definition spread_page :: "group list \<Rightarrow> string \<Rightarrow> int \<Rightarrow> (group list \<times> string option) option" where
  "spread_page groups after limit =
     (case (if after = [] then Some 0
            else map_option Suc (index_of (\<lambda>g. g_Fingerprint g = after) groups)) of
        None \<Rightarrow> None
      | Some start \<Rightarrow>
          (let fin = (if int start + limit > int (length groups) then length groups else start + nat limit);
               pg = take (fin - start) (drop start groups)
           in Some (pg, if fin < length groups then Some (encodeSpreadCursor (g_Fingerprint (last pg))) else None)))"

definition spread_groups :: "int \<Rightarrow> run list \<Rightarrow> group list option" where
  "spread_groups minRuns rs =
     map_option (\<lambda>gs. sort_slice group_less (filter (\<lambda>g. g_Count g \<ge> minRuns) gs)) (spread_Compute rs)"

definition spread_params :: "(string, string list) fmap \<Rightarrow> string \<times> api_error + int \<times> int \<times> string" where
  "spread_params q =
     (case unknown_param spreadListQueryParams q of
        Some k \<Rightarrow> Inl (''bad_request'', UnknownQueryParameter k)
      | None \<Rightarrow>
     (case parseMinRuns (q_get q ''min_runs'') of
        Inl e \<Rightarrow> Inl (''bad_request'', e)
      | Inr minRuns \<Rightarrow>
     (case parseLimit (q_get q ''limit'') of
        Inl e \<Rightarrow> Inl (''bad_request'', e)
      | Inr limit \<Rightarrow>
     (if q_get q ''cursor'' = [] then Inr (minRuns, limit, [])
      else case decodeSpreadCursor (q_get q ''cursor'') of
        Inl e \<Rightarrow> Inl (''invalid_cursor'', BadCursor e)
      | Inr fp \<Rightarrow> Inr (minRuns, limit, fp)))))"

definition api_spreadList :: "'st handler" where
  "api_spreadList env ops rq srv =
     (case spread_params (rq_Query rq) of
        Inl (code, e) \<Rightarrow> (Some (writeErr 400 code e), srv)
      | Inr (minRuns, limit, after) \<Rightarrow>
          (case so_List ops (empty_query\<lparr>q_Project := q_get (rq_Query rq) ''project''\<rparr>) (srv_store srv) of
             Inl err \<Rightarrow> (Some (writeErr 500 ''internal'' (StoreFailed err)), with_metrics (StoreError ''internal'') srv)
           | Inr pg \<Rightarrow>
               (case spread_groups minRuns (pg_Runs pg) of
                  None \<Rightarrow> (None, srv)
                | Some groups \<Rightarrow>
                    (case spread_page groups after limit of
                       None \<Rightarrow> (Some (writeErr 400 ''invalid_cursor'' StaleCursor), srv)
                     | Some (gs, nxt) \<Rightarrow>
                         (Some (writeJSON 200 (BGroups gs (int (length gs)) limit nxt)), srv)))))"

definition api_spreadOne :: "string \<Rightarrow> 'st handler" where
  "api_spreadOne fp env ops rq srv =
     (case so_List ops (empty_query\<lparr>q_Fingerprint := fp\<rparr>) (srv_store srv) of
        Inl err \<Rightarrow> (Some (writeErr 500 ''internal'' (StoreFailed err)), with_metrics (StoreError ''internal'') srv)
      | Inr pg \<Rightarrow>
          if length (pg_Runs pg) = 0
          then (Some (writeErr 404 ''not_found'' (NoSuchFingerprint fp)), with_metrics (StoreError ''not_found'') srv)
          else (case One fp (pg_Runs pg) of
                  None \<Rightarrow> (None, srv)
                | Some g \<Rightarrow> (Some (writeJSON 200 (BGroup g)), srv)))"

section \<open>Probes\<close>

definition api_healthz :: "'st handler" where
  "api_healthz env ops rq srv = (Some \<lparr>rs_Status = 200, rs_Header = [], rs_Body = BText ''ok\<newline>''\<rparr>, srv)"

definition api_readyz :: "'st handler" where
  "api_readyz env ops rq srv =
     (case so_List ops (empty_query\<lparr>q_Limit := 1\<rparr>) (srv_store srv) of
        Inl err \<Rightarrow> (Some (writeErr 503 ''unavailable'' (NotReady err)), with_metrics (StoreError ''readyz'') srv)
      | Inr _ \<Rightarrow> (Some \<lparr>rs_Status = 200, rs_Header = [], rs_Body = BText ''ok\<newline>''\<rparr>, srv))"

definition api_serveMetrics :: "'st handler" where
  "api_serveMetrics env ops rq srv =
     (Some \<lparr>rs_Status = 200, rs_Header = [(''Content-Type'', ''text/plain; version=0.0.4; charset=utf-8'')],
            rs_Body = BMetrics (srv_metrics srv) (runsGauge ops (srv_store srv))\<rparr>, srv)"

end
