(* ===== verification/Server.thy ===== *)
theory Server
  imports Api
begin

text \<open>
  Routing and middleware of \<open>internal/api/api.go\<close>: the route table, the fallback for requests no
  route takes, the instrumentation around every request, and \<open>serve\<close>, one request from arrival
  to response. \<open>mux_Handler\<close> is what \<open>http.ServeMux\<close> does with these patterns, no two of which
  match the same request.
\<close>

section \<open>Routes\<close>

datatype seg = Lit string | Wild string

datatype endpoint = EpRecord | EpUpdate | EpList | EpGet | EpCompare | EpSpreadList | EpSpreadOne
  | EpHealthz | EpReadyz | EpMetrics

record route =
  rt_Method :: string
  rt_Segs :: "seg list"
  rt_Endpoint :: endpoint

fun seg_text :: "seg \<Rightarrow> string" where
  "seg_text (Lit s) = s"
| "seg_text (Wild n) = ''{'' @ n @ ''}''"

definition pattern :: "route \<Rightarrow> string" where
  "pattern rt = rt_Method rt @ '' '' @ concat (map (\<lambda>s. ''/'' @ seg_text s) (rt_Segs rt))"

definition routes :: "route list" where
  "routes =
     [\<lparr>rt_Method = ''POST'', rt_Segs = [Lit ''v1'', Lit ''runs''], rt_Endpoint = EpRecord\<rparr>,
      \<lparr>rt_Method = ''PATCH'', rt_Segs = [Lit ''v1'', Lit ''runs'', Wild ''id''], rt_Endpoint = EpUpdate\<rparr>,
      \<lparr>rt_Method = ''GET'', rt_Segs = [Lit ''v1'', Lit ''runs''], rt_Endpoint = EpList\<rparr>,
      \<lparr>rt_Method = ''GET'', rt_Segs = [Lit ''v1'', Lit ''runs'', Wild ''id''], rt_Endpoint = EpGet\<rparr>,
      \<lparr>rt_Method = ''GET'', rt_Segs = [Lit ''v1'', Lit ''comparisons''], rt_Endpoint = EpCompare\<rparr>,
      \<lparr>rt_Method = ''GET'', rt_Segs = [Lit ''v1'', Lit ''fingerprints''], rt_Endpoint = EpSpreadList\<rparr>,
      \<lparr>rt_Method = ''GET'', rt_Segs = [Lit ''v1'', Lit ''fingerprints'', Wild ''fingerprint''],
        rt_Endpoint = EpSpreadOne\<rparr>,
      \<lparr>rt_Method = ''GET'', rt_Segs = [Lit ''healthz''], rt_Endpoint = EpHealthz\<rparr>,
      \<lparr>rt_Method = ''GET'', rt_Segs = [Lit ''readyz''], rt_Endpoint = EpReadyz\<rparr>,
      \<lparr>rt_Method = ''GET'', rt_Segs = [Lit ''metrics''], rt_Endpoint = EpMetrics\<rparr>]"

text \<open>A wildcard takes one non-empty segment; a \<open>GET\<close> pattern also takes \<open>HEAD\<close>.\<close>

fun segs_match :: "seg list \<Rightarrow> string list \<Rightarrow> bool" where
  "segs_match [] [] = True"
| "segs_match (Lit l # ps) (s # ss) = (l = s \<and> segs_match ps ss)"
| "segs_match (Wild n # ps) (s # ss) = (s \<noteq> [] \<and> segs_match ps ss)"
| "segs_match _ _ = False"

definition method_match :: "string \<Rightarrow> string \<Rightarrow> bool" where
  "method_match pat meth \<longleftrightarrow> pat = meth \<or> (pat = ''GET'' \<and> meth = ''HEAD'')"

definition route_match :: "string \<Rightarrow> string list \<Rightarrow> route \<Rightarrow> bool" where
  "route_match meth path rt \<longleftrightarrow> method_match (rt_Method rt) meth \<and> segs_match (rt_Segs rt) path"

text \<open>\<^term>\<open>None\<close> is the catch-all pattern \<open>/\<close>.\<close>

definition mux_Handler :: "string \<Rightarrow> string list \<Rightarrow> route option" where
  "mux_Handler meth path = List.find (route_match meth path) routes"

definition endpoint_handler :: "endpoint \<Rightarrow> string \<Rightarrow> 'st handler" where
  "endpoint_handler ep val =
     (case ep of
        EpRecord \<Rightarrow> requireAuth True api_record
      | EpUpdate \<Rightarrow> requireAuth True (api_update val)
      | EpList \<Rightarrow> requireAuth False api_list
      | EpGet \<Rightarrow> requireAuth False (api_get val)
      | EpCompare \<Rightarrow> requireAuth False api_compare
      | EpSpreadList \<Rightarrow> requireAuth False api_spreadList
      | EpSpreadOne \<Rightarrow> requireAuth False (api_spreadOne val)
      | EpHealthz \<Rightarrow> api_healthz
      | EpReadyz \<Rightarrow> api_readyz
      | EpMetrics \<Rightarrow> api_serveMetrics)"

section \<open>Requests no route takes\<close>

definition unmatched_step :: "string list \<Rightarrow> string list \<Rightarrow> route \<Rightarrow> string list" where
  "unmatched_step path allowed rt =
     (if rt_Method rt \<in> set allowed then allowed
      else case mux_Handler (rt_Method rt) path of
             Some rt' \<Rightarrow> if pattern rt' = pattern rt then allowed @ [rt_Method rt] else allowed
           | None \<Rightarrow> allowed)"

definition unmatched :: "'st handler" where
  "unmatched env ops rq srv =
     (let allowed = foldl (unmatched_step (rq_Path rq)) [] routes
      in if length allowed = 0
         then (Some (writeErr 404 ''not_found'' (NoSuchRoute (rq_Method rq) (rq_Path rq))), srv)
         else (Some (set_header ''Allow'' (Join (sort allowed) '', '')
                       (writeErr 405 ''method_not_allowed'' (MethodNotAllowed (rq_Method rq) (rq_Path rq)))), srv))"

section \<open>Middleware\<close>

record status_recorder =
  sr_status :: int
  sr_wroteHeader :: bool

definition sr_WriteHeader :: "int \<Rightarrow> status_recorder \<Rightarrow> status_recorder" where
  "sr_WriteHeader code rw = (if sr_wroteHeader rw then rw else rw\<lparr>sr_status := code, sr_wroteHeader := True\<rparr>)"

definition sr_Write :: "status_recorder \<Rightarrow> status_recorder" where
  "sr_Write rw = (if \<not> sr_wroteHeader rw then sr_WriteHeader 200 rw else rw)"

text \<open>A response leaves a handler by \<open>WriteHeader\<close> and \<open>Write\<close>, the metrics by \<open>Write\<close> alone.\<close>

definition sr_respond :: "response \<Rightarrow> status_recorder \<Rightarrow> status_recorder" where
  "sr_respond rs rw =
     sr_Write (case rs_Body rs of BMetrics _ _ \<Rightarrow> rw | _ \<Rightarrow> sr_WriteHeader (rs_Status rs) rw)"

definition mux_ServeHTTP :: "'st handler" where
  "mux_ServeHTTP env ops rq srv =
     (case mux_Handler (rq_Method rq) (rq_Path rq) of
        None \<Rightarrow> unmatched env ops rq srv
      | Some rt \<Rightarrow> endpoint_handler (rt_Endpoint rt) (last (rq_Path rq)) env ops rq srv)"

text \<open>
  \<open>instrument\<close>: the request id is echoed, a panic becomes a 500, and the request is counted under
  its pattern and the status recorded.
\<close>

definition serve :: "environment \<Rightarrow> 'st store_ops \<Rightarrow> request \<Rightarrow> 'st server \<Rightarrow> response \<times> 'st server" where
  "serve env ops rq srv =
     (let reqID = (if rq_Header rq ''X-Request-Id'' = [] then newRequestID env else rq_Header rq ''X-Request-Id'');
          pat = (case mux_Handler (rq_Method rq) (rq_Path rq) of None \<Rightarrow> ''unmatched'' | Some rt \<Rightarrow> pattern rt);
          rw0 = \<lparr>sr_status = 200, sr_wroteHeader = False\<rparr>
      in case mux_ServeHTTP env ops rq srv of (resp, srv1) \<Rightarrow>
           (let rw1 = (case resp of None \<Rightarrow> rw0 | Some rs \<Rightarrow> sr_respond rs rw0);
                rw2 = (if resp = None \<and> \<not> sr_wroteHeader rw1 then sr_WriteHeader 500 rw1 else rw1);
                rs = (case resp of None \<Rightarrow> \<lparr>rs_Status = sr_status rw2, rs_Header = [], rs_Body = BEmpty\<rparr> | Some rs \<Rightarrow> rs)
            in (set_header ''X-Request-Id'' reqID rs,
                with_metrics (ObserveRequest pat (sr_status rw2) (e_seconds env)) srv1)))"

lemmas [routing] = mux_ServeHTTP_def mux_Handler_def routes_def route_match_def method_match_def endpoint_handler_def

section \<open>What a request may change\<close>

lemma with_metrics_frame [simp]: "srv_store (with_metrics f srv) = srv_store srv" "srv_auth (with_metrics f srv) = srv_auth srv"
  by (simp_all add: with_metrics_def)

lemma reads_keep_server:
  "srv_store (snd (api_list env ops rq srv)) = srv_store srv" "srv_auth (snd (api_list env ops rq srv)) = srv_auth srv"
  "srv_store (snd (api_get i env ops rq srv)) = srv_store srv" "srv_auth (snd (api_get i env ops rq srv)) = srv_auth srv"
  "srv_store (snd (api_compare env ops rq srv)) = srv_store srv" "srv_auth (snd (api_compare env ops rq srv)) = srv_auth srv"
  "srv_store (snd (api_spreadList env ops rq srv)) = srv_store srv" "srv_auth (snd (api_spreadList env ops rq srv)) = srv_auth srv"
  "srv_store (snd (api_spreadOne fp env ops rq srv)) = srv_store srv" "srv_auth (snd (api_spreadOne fp env ops rq srv)) = srv_auth srv"
  "srv_store (snd (api_healthz env ops rq srv)) = srv_store srv" "srv_auth (snd (api_healthz env ops rq srv)) = srv_auth srv"
  "srv_store (snd (api_readyz env ops rq srv)) = srv_store srv" "srv_auth (snd (api_readyz env ops rq srv)) = srv_auth srv"
  "srv_store (snd (api_serveMetrics env ops rq srv)) = srv_store srv" "srv_auth (snd (api_serveMetrics env ops rq srv)) = srv_auth srv"
  "srv_store (snd (unmatched env ops rq srv)) = srv_store srv" "srv_auth (snd (unmatched env ops rq srv)) = srv_auth srv"
  by (auto simp: api_list_def api_get_def api_compare_def api_compare_at_def api_spreadList_def api_spreadOne_def api_healthz_def
      api_readyz_def api_serveMetrics_def unmatched_def Let_def split: sum.splits prod.splits option.splits if_splits)

text \<open>A write handler leaves the store alone or replaces it by what one store operation returns.\<close>

lemma writes_change_store:
  "srv_store (snd (api_record env ops rq srv)) = srv_store srv \<or>
     (\<exists>r0. rq_RunBody rq = Inr r0 \<and> srv_store (snd (api_record env ops rq srv)) = snd (so_Record ops (stamp env r0) (srv_store srv)))"
  "srv_store (snd (api_update i env ops rq srv)) = srv_store srv \<or>
     (\<exists>p. srv_store (snd (api_update i env ops rq srv)) = snd (so_Update ops (e_now env) i p (srv_store srv)))"
  "srv_auth (snd (api_record env ops rq srv)) = srv_auth srv" "srv_auth (snd (api_update i env ops rq srv)) = srv_auth srv"
     apply (auto simp: api_record_def Let_def split: sum.splits prod.splits option.splits if_splits) [1]
    apply (auto simp: api_update_def Let_def split: sum.splits prod.splits option.splits if_splits) [1]
      apply (metis snd_conv)+
   apply (auto simp: api_record_def api_update_def Let_def split: sum.splits prod.splits option.splits if_splits)
  done

lemma serve_parts:
  "srv_store (snd (serve env ops rq srv)) = srv_store (snd (mux_ServeHTTP env ops rq srv))"
  "srv_auth (snd (serve env ops rq srv)) = srv_auth (snd (mux_ServeHTTP env ops rq srv))"
  by (simp_all add: serve_def Let_def split: prod.splits)

lemma serve_response:
  assumes "mux_ServeHTTP env ops rq srv = (Some rs, srv')"
  shows "rs_Status (fst (serve env ops rq srv)) = rs_Status rs" "rs_Body (fst (serve env ops rq srv)) = rs_Body rs"
    "srv_store (snd (serve env ops rq srv)) = srv_store srv'"
  using assms by (simp_all add: serve_def Let_def set_header_def)

lemma post_runs_route: "mux_ServeHTTP env ops rq srv = requireAuth True api_record env ops rq srv"
  if "rq_Method rq = ''POST''" "rq_Path rq = [''v1'', ''runs'']"
  using that by (simp add: routing)

end
