(* ===== verification/Memory.thy ===== *)
theory Memory
  imports Store_Contract
begin

text \<open>
  The in-process backend, \<open>internal/store/memory.go\<close>: the reference implementation of the store.
  Every operation holds the mutex while it touches the map, so here each is one atomic step on the
  map of runs; \<open>Memory_Concurrent\<close> justifies that.
\<close>

section \<open>Deep equality of runs\<close>

text \<open>
  \<open>reflect.DeepEqual\<close> on two runs: all fields, a nil map or slice apart from an empty one, times
  with their location, metric values by Go's \<open>==\<close>. (The two maps are never the same object:
  each request decodes its own.)
\<close>

definition deep_metrics :: "float64 gomap \<Rightarrow> float64 gomap \<Rightarrow> bool" where
  "deep_metrics a b \<longleftrightarrow>
     (case (a, b) of
        (None, None) \<Rightarrow> True
      | (Some m, Some n) \<Rightarrow>
          fmdom m = fmdom n \<and>
          list_all (\<lambda>k. f64_eq (the (fmlookup m k)) (the (fmlookup n k))) (map_keys_sorted a)
      | _ \<Rightarrow> False)"

definition DeepEqual :: "run \<Rightarrow> run \<Rightarrow> bool" where
  "DeepEqual a b \<longleftrightarrow> a\<lparr>Metrics := None\<rparr> = b\<lparr>Metrics := None\<rparr> \<and> deep_metrics (Metrics a) (Metrics b)"

section \<open>Operations\<close>

record memory =
  runs :: "(string, run) fmap"

definition NewMemory :: memory where
  "NewMemory = \<lparr>runs = fmempty\<rparr>"

definition mem_Record :: "run \<Rightarrow> memory \<Rightarrow> store_error option \<times> memory" where
  "mem_Record r0 m =
     (case Validate r0 of
        Some e \<Rightarrow> (Some (Invalid e), m)
      | None \<Rightarrow>
          (let r = NormalizeCapture r0
           in case fmlookup (runs m) (RunID r) of
                Some existing \<Rightarrow> (if \<not> DeepEqual existing r then (Some ErrConflict, m) else (None, m))
              | None \<Rightarrow> (None, m\<lparr>runs := fmupd (RunID r) r (runs m)\<rparr>)))"

definition mem_Update :: "time \<Rightarrow> string \<Rightarrow> patch \<Rightarrow> memory \<Rightarrow> (store_error + run) \<times> memory" where
  "mem_Update now i p m =
     (case fmlookup (runs m) i of
        None \<Rightarrow> (Inl ErrNotFound, m)
      | Some existing \<Rightarrow>
          (case applyPatch now existing p of
             Inl e \<Rightarrow> (Inl e, m)
           | Inr updated \<Rightarrow> (Inr updated, m\<lparr>runs := fmupd i updated (runs m)\<rparr>)))"

definition mem_Get :: "string \<Rightarrow> memory \<Rightarrow> store_error + run" where
  "mem_Get i m = (case fmlookup (runs m) i of None \<Rightarrow> Inl ErrNotFound | Some r \<Rightarrow> Inr r)"

text \<open>What \<open>List\<close> makes of the runs that passed its filters.\<close>

definition list_page :: "query \<Rightarrow> run list \<Rightarrow> page" where
  "list_page q passed =
     (let out = sort_slice list_less passed;
          out' = (case q_After q of
                    None \<Rightarrow> out
                  | Some after \<Rightarrow>
                      drop (sort_Search (length out) (\<lambda>i. isAfterCursor (out ! i) after)) out)
      in paginate out' (q_Limit q))"

text \<open>\<open>ids\<close> is the order in which \<open>range m.runs\<close> visits the map.\<close>

definition mem_List_ranged :: "string list \<Rightarrow> query \<Rightarrow> memory \<Rightarrow> page" where
  "mem_List_ranged ids q m = list_page q (filter (query_match q) (map (\<lambda>i. the (fmlookup (runs m) i)) ids))"

definition mem_List :: "query \<Rightarrow> memory \<Rightarrow> store_error + page" where
  "mem_List q m = Inr (mem_List_ranged (sorted_list_of_fset (fmdom (runs m))) q m)"

text \<open>What \<open>NewMemory\<close> returns as a \<open>Store\<close>.\<close>

definition mem_ops :: "memory store_ops" where
  "mem_ops = \<lparr>so_Record = mem_Record, so_Update = mem_Update, so_Get = mem_Get, so_List = mem_List\<rparr>"

lemma mem_ops_simps [simp]:
  "so_Record mem_ops = mem_Record" "so_Update mem_ops = mem_Update" "so_Get mem_ops = mem_Get" "so_List mem_ops = mem_List"
  by (simp_all add: mem_ops_def)

section \<open>Invariant\<close>

text \<open>
  Every run is stored under its own id, is valid lineage and has its capture declaration in
  canonical order.
\<close>

definition mem_inv :: "memory \<Rightarrow> bool" where
  "mem_inv m \<longleftrightarrow> (\<forall>i r. fmlookup (runs m) i = Some r \<longrightarrow>
      RunID r = i \<and> Validate r = None \<and> NormalizeCapture r = r)"

lemma mem_invD:
  assumes "mem_inv m" "fmlookup (runs m) i = Some r"
  shows "RunID r = i" "Validate r = None" "NormalizeCapture r = r"
  using assms by (auto simp: mem_inv_def)

section \<open>Every operation keeps the invariant\<close>

lemma mem_inv_New: "mem_inv NewMemory"
  by (simp add: mem_inv_def NewMemory_def)

lemma mem_inv_Record: "mem_inv m \<Longrightarrow> mem_inv (snd (mem_Record r m))"
  by (auto simp: mem_Record_def mem_inv_def Let_def split: option.splits)

lemma mem_inv_Update:
  assumes "mem_inv m"
  shows "mem_inv (snd (mem_Update now i p m))"
proof (cases "fmlookup (runs m) i")
  case None
  with assms show ?thesis by (simp add: mem_Update_def)
next
  case (Some r)
  show ?thesis
  proof (cases "applyPatch now r p")
    case (Inr u)
    have "RunID u = i" "Validate u = None" "NormalizeCapture u = u"
      using mem_invD [OF assms Some] applyPatch_frame [OF Inr] applyPatch_valid [OF Inr]
      by (auto intro: NormalizeCapture_cong)
    with Inr Some assms show ?thesis by (auto simp: mem_Update_def mem_inv_def)
  qed (simp add: mem_Update_def Some assms)
qed

section \<open>The order of a listing\<close>

text \<open>Runs with distinct ids are totally ordered by the listing comparison.\<close>

interpretation listing: strict_order_on list_less "{r. fmlookup rs (RunID r) = Some r}"
proof unfold_locales
  fix x y
  assume "x \<in> {r. fmlookup rs (RunID r) = Some r}" "y \<in> {r. fmlookup rs (RunID r) = Some r}" "x \<noteq> y"
  then have "list_key x \<noteq> list_key y" by (auto simp: list_key_def)
  then show "list_less x y \<or> list_less y x" by (simp add: list_less_key neq_iff)
qed (auto simp: list_less_key)

lemma listing_after_cursor:
  assumes "sorted_wrt list_less xs"
  shows "(case q_After q of None \<Rightarrow> xs
      | Some c \<Rightarrow> drop (sort_Search (length xs) (\<lambda>i. isAfterCursor (xs ! i) c)) xs) = filter (after_ok q) xs"
proof (cases "q_After q")
  case None
  then show ?thesis by (simp add: after_ok_def)
next
  case (Some c)
  have "sorted_wrt (\<lambda>x y. isAfterCursor x c \<longrightarrow> isAfterCursor y c) xs"
    using assms by (rule sorted_wrt_mono_rel [rotated]) (auto simp: isAfterCursor_key list_less_key)
  then show ?thesis using Some drop_sort_Search [of "\<lambda>r. isAfterCursor r c"]
    by (simp add: after_ok_def [abs_def])
qed

text \<open>Whatever order the map is visited in, \<open>List\<close> returns the page of the one sorted listing.\<close>

lemma mem_List_ranged_listing:
  assumes inv: "mem_inv m" and ids: "distinct ids" "set ids = fset (fmdom (runs m))"
  shows "\<exists>xs. is_listing q (fmlookup (runs m)) xs \<and> mem_List_ranged ids q m = paginate xs (q_Limit q)"
proof -
  let ?A = "{r. fmlookup (runs m) (RunID r) = Some r}"
  define raw where "raw = filter (query_match q) (map (\<lambda>i. the (fmlookup (runs m) i)) ids)"
  define out where "out = sort_slice list_less raw"
  have get: "fmlookup (runs m) i = Some (the (fmlookup (runs m) i))" if "i \<in> set ids" for i
    using that ids(2) by (auto simp: fmlookup_dom_iff)
  have ID: "RunID (the (fmlookup (runs m) i)) = i" if "i \<in> set ids" for i
    using mem_invD(1) [OF inv get [OF that]] .
  have "inj_on (\<lambda>i. the (fmlookup (runs m) i)) (set ids)"
    by (rule inj_on_inverseI [of _ RunID]) (rule ID)
  then have raw: "distinct raw" "set raw \<subseteq> ?A"
    using ids(1) get ID by (auto simp: raw_def distinct_map intro!: distinct_filter)
  have set_raw: "set raw = {r. (\<exists>i. fmlookup (runs m) i = Some r) \<and> query_match q r}"
    using get ids(2) by (auto simp: raw_def fmlookup_dom_iff image_iff) (metis fmdomI get option.sel)+
  have sorted: "sorted_wrt list_less out"
    unfolding out_def by (rule listing.sorted_sort_slice [OF raw])
  have "is_listing q (fmlookup (runs m)) (filter (after_ok q) out)"
    using sorted set_raw by (auto simp: is_listing_def out_def sorted_wrt_filter)
  moreover have "mem_List_ranged ids q m = paginate (filter (after_ok q) out) (q_Limit q)"
    unfolding mem_List_ranged_def list_page_def Let_def raw_def [symmetric] out_def [symmetric]
    by (simp only: listing_after_cursor [OF sorted])
  ultimately show ?thesis by blast
qed

lemma mem_List_any_order:
  assumes "mem_inv m" "distinct ids" "set ids = fset (fmdom (runs m))"
  shows "Inr (mem_List_ranged ids q m) = mem_List q m"
proof -
  obtain xs where xs: "is_listing q (fmlookup (runs m)) xs" "mem_List_ranged ids q m = paginate xs (q_Limit q)"
    using mem_List_ranged_listing [OF assms] by blast
  obtain ys where ys: "is_listing q (fmlookup (runs m)) ys" "mem_List q m = Inr (paginate ys (q_Limit q))"
    unfolding mem_List_def using mem_List_ranged_listing [OF assms(1), of "sorted_list_of_fset (fmdom (runs m))" q] by auto
  show ?thesis using xs(2) ys(2) listing_unique [OF xs(1) ys(1)] by simp
qed

section \<open>Memory implements the store contract\<close>

lemma NormalizeCapture_evolves:
  assumes "NormalizeCapture r = r" "evolves r u"
  shows "NormalizeCapture u = u"
  using assms by (auto intro: NormalizeCapture_cong simp: evolves_by_def)

interpretation mem: run_store mem_Record mem_Update mem_Get mem_List "\<lambda>m. fmlookup (runs m)" mem_inv
  NormalizeCapture "\<lambda>x r. DeepEqual x (NormalizeCapture r)" "\<lambda>_. True" "(=)" "\<lambda>_. True"
proof (unfold_locales, goal_cases)
  case (3 st r)
  then show ?case using mem_inv_Record [of st r] by (auto simp: mem_Record_def Let_def)
next
  case (7 st i r now p u)
  have "NormalizeCapture u = u"
    using mem_invD(3) [OF 7(1,2)] applyPatch_evolves [OF 7(3)] by (rule NormalizeCapture_evolves)
  with 7 mem_inv_Update [OF 7(1), of now i p] show ?case by (auto simp: mem_Update_def)
next
  case (9 st q)
  then show ?case using mem_List_ranged_listing [of st "sorted_list_of_fset (fmdom (runs st))" q]
    by (auto simp: mem_List_def)
next
  case (12 r u)
  then show ?case using NormalizeCapture_evolves by metis
qed (auto simp: mem_Record_def mem_Update_def mem_Get_def Let_def dest: mem_invD split: option.splits)

end
