(* ===== verification/Patch_Rules.thy ===== *)
theory Patch_Rules
  imports Store_Contract Fingerprint
begin

text \<open>
  The rules of \<open>applyPatch\<close> (\<open>internal/store/store.go\<close>) as properties: identity is immutable,
  the status follows the lifecycle, a finished run is frozen and has an end, and a retried patch
  changes nothing more.
\<close>

section \<open>Identity\<close>

lemma applyPatch_identity_checked: "applyPatch now r p = Inr u \<Longrightarrow> checkIdentityUnchanged r p = None"
  by (auto simp: applyPatch_def split: option.splits)

lemma checkIdentity_frame:
  assumes "Project u = Project r" "GitCommit u = GitCommit r" "GitDirty u = GitDirty r"
    "ConfigHash u = ConfigHash r" "DatasetVersion u = DatasetVersion r" "ModelVersion u = ModelVersion r"
    "Seed u = Seed r" "Params u = Params r"
  shows "checkIdentityUnchanged u p = checkIdentityUnchanged r p"
  using assms by (simp add: checkIdentityUnchanged_def)

text \<open>
  Property C2. An accepted patch leaves the run id, the whole identity, the start time, the capture
  declaration and the stored fingerprint alone, so the fingerprint recomputed from the updated
  run is the one recomputed from the old run; and every scalar identity field the patch carries
  has the value already recorded.
\<close>

theorem patch_keeps_identity:
  assumes "applyPatch now r p = Inr u"
  shows "RunID u = RunID r \<and> identity_of u = identity_of r \<and> Compute u = Compute r
    \<and> Fingerprint u = Fingerprint r \<and> FingerprintVersion u = FingerprintVersion r
    \<and> StartedAt u = StartedAt r \<and> Capture u = Capture r \<and> Params u = Params r
    \<and> set_option (p_Project p) \<subseteq> {Project r} \<and> set_option (p_GitCommit p) \<subseteq> {GitCommit r}
    \<and> set_option (p_GitDirty p) \<subseteq> {GitDirty r} \<and> set_option (p_ConfigHash p) \<subseteq> {ConfigHash r}
    \<and> set_option (p_DatasetVersion p) \<subseteq> {DatasetVersion r}
    \<and> set_option (p_ModelVersion p) \<subseteq> {ModelVersion r} \<and> set_option (p_Seed p) \<subseteq> {Seed r}"
proof -
  note frame = applyPatch_frame [OF assms]
  have "\<not> differs f x \<Longrightarrow> set_option f \<subseteq> {x}" for f :: "string option" and x by (cases f) auto
  moreover have "\<not> differs f x \<Longrightarrow> set_option f \<subseteq> {x}" for f :: "bool option" and x by (cases f) auto
  moreover have "\<not> differs f x \<Longrightarrow> set_option f \<subseteq> {x}" for f :: "64 word option" and x by (cases f) auto
  ultimately show ?thesis
    using applyPatch_identity_checked [OF assms] frame identity_Compute [OF frame(3)]
    unfolding checkIdentityUnchanged_def by (auto split: if_splits)
qed

text \<open>A patch that finishes the sample run.\<close>

definition sample_patch :: patch where
  "sample_patch = empty_patch\<lparr>p_Project := Some ''p'', p_Status := Some StatusSucceeded,
     p_Metrics := Some (fmap_of_list [(''loss'', 0x3FE0000000000000)])\<rparr>"

definition sample_now :: time where
  "sample_now = \<lparr>t_ns = 5000, t_loc = UTC\<rparr>"

definition sample_done :: run where
  "sample_done = sample_run\<lparr>Status := StatusSucceeded, EndedAt := Some sample_now,
     Metrics := Some (fmap_of_list [(''loss'', 0x3FE0000000000000)])\<rparr>"

lemma sample_run_fields [simp]:
  "Project sample_run = ''p''" "Status sample_run = StatusRunning" "EndedAt sample_run = None"
  "Capture sample_run = None" "Metrics sample_run = None" "RunID sample_run = ''run_1''"
  "t_ns (StartedAt sample_run) = 1000" "GitDirty sample_run = False"
  by (simp_all add: sample_run_def zero_run_def)

lemma ValidStatus_simps [simp]:
  "ValidStatus StatusCreated" "ValidStatus StatusRunning" "ValidStatus StatusSucceeded"
  "ValidStatus StatusFailed" "ValidStatus StatusCancelled"
  by (simp_all add: ValidStatus_def validStatuses_def)

lemma sample_patched: "applyPatch sample_now sample_run sample_patch = Inr sample_done"
proof -
  have "patch_fields sample_now sample_run sample_patch StatusSucceeded = sample_done"
    by (simp add: patch_fields_def sample_patch_def empty_patch_def sample_done_def set_if_def fm_def
        sample_run_def zero_run_def)
  moreover have "checkIdentityUnchanged sample_run sample_patch = None"
    by (simp add: checkIdentityUnchanged_def sample_patch_def empty_patch_def)
  moreover have "Validate sample_done = None"
    using Validate_sample_run by (simp add: Validate_None_iff sample_done_def sample_now_def)
  moreover have "p_Status sample_patch = Some StatusSucceeded" by (simp add: sample_patch_def)
  ultimately show ?thesis by (simp add: applyPatch_def legalTransitions_def)
qed

theorem patch_keeps_identity_witness:
  "Compute sample_done = Compute sample_run \<and> RunID sample_done = ''run_1''"
  using patch_keeps_identity [OF sample_patched] by simp

section \<open>Lifecycle\<close>

text \<open>
  Property C3. An accepted patch moves the status along created, running, finished only: it keeps it,
  or takes it from created to running, or from running to one of the three final ones; a requested status is the resulting one; and a run whose status
  is terminal comes back exactly as it was.
\<close>

theorem patch_lifecycle:
  assumes "applyPatch now r p = Inr u"
  shows "(Status u = Status r \<or> (Status r = StatusCreated \<and> Status u = StatusRunning)
      \<or> (Status r = StatusRunning \<and> Status u \<in> {StatusSucceeded, StatusFailed, StatusCancelled}))
    \<and> Status u = set_if (p_Status p) (Status r) \<and> (Terminal (Status r) \<longrightarrow> u = r)"
proof (cases rule: applyPatch_cases [OF assms])
  case 1
  then have "\<not> differs (p_Status p) (Status r)" by (simp add: isNoopPatch_def split: if_splits)
  with 1 show ?thesis by (simp add: not_differs)
qed (auto simp: legalTransitions_def)

theorem patch_lifecycle_witness:
  "Status sample_run = StatusRunning \<and> Status sample_done = StatusSucceeded"
  using patch_lifecycle [OF sample_patched] by (auto simp: sample_patch_def)

text \<open>
  A run a patch takes into a terminal status always has an end time afterwards, not before its
  start: the one the patch names, else the one already recorded, else the time of the call.
\<close>

theorem patch_terminal_has_end:
  assumes "applyPatch now r p = Inr u" "\<not> Terminal (Status r)" "Terminal (Status u)"
  shows "EndedAt u = Some (case p_EndedAt p of Some t \<Rightarrow> t
           | None \<Rightarrow> (case EndedAt r of Some t \<Rightarrow> t | None \<Rightarrow> now))
    \<and> \<not> Before (the (EndedAt u)) (StartedAt u)"
proof (cases rule: applyPatch_cases [OF assms(1)])
  case 2
  then have "EndedAt u = Some (case p_EndedAt p of Some t \<Rightarrow> t
           | None \<Rightarrow> (case EndedAt r of Some t \<Rightarrow> t | None \<Rightarrow> now))"
    using assms(3) by (auto simp: patch_fields_def Let_def split: option.splits)
  with 2(3) show ?thesis by (auto simp: Validate_None_iff Before_def)
qed (use assms in simp)

theorem patch_terminal_has_end_witness:
  "EndedAt sample_done = Some sample_now \<and> \<not> Before (the (EndedAt sample_done)) (StartedAt sample_done)"
  using patch_terminal_has_end [OF sample_patched] by (simp add: sample_done_def sample_patch_def empty_patch_def)

section \<open>Retries\<close>

definition no_nan :: "float64 gomap \<Rightarrow> bool" where
  "no_nan m \<longleftrightarrow> list_all (\<lambda>k. case map_get m k of None \<Rightarrow> True | Some v \<Rightarrow> \<not> is_nan v) (map_keys_sorted m)"

lemma no_nanD: "no_nan m \<Longrightarrow> map_get m k = Some v \<Longrightarrow> \<not> is_nan v"
  by (auto simp: no_nan_def list_all_iff set_map_keys_sorted dest!: bspec split: option.splits)

lemma f64_eq_refl [simp]: "f64_eq v v \<longleftrightarrow> \<not> is_nan v"
  by (simp add: f64_eq_def)

lemma patch_fields_get_metric:
  "map_get (Metrics (patch_fields now r p s)) k =
     (case map_get (p_Metrics p) k of Some v \<Rightarrow> Some v | None \<Rightarrow> map_get (Metrics r) k)"
  by (cases "p_Metrics p") (auto simp: patch_fields_def Let_def map_get_fm fmlookup_dom_iff split: option.splits)

lemma isNoop_after_patch:
  assumes "no_nan (p_Metrics p)" "s = set_if (p_Status p) (Status r)"
  shows "isNoopPatch (patch_fields now r p s) p"
proof -
  have "list_all (\<lambda>k. case (map_get (p_Metrics p) k, map_get (Metrics (patch_fields now r p s)) k) of
      (Some v, Some stored) \<Rightarrow> f64_eq stored v | _ \<Rightarrow> False) (map_keys_sorted (p_Metrics p))"
    using no_nanD [OF assms(1)]
    by (auto simp: list_all_iff set_map_keys_sorted patch_fields_get_metric)
  moreover have "\<not> differs f (set_if f x)" for f :: "string option" and x by (cases f) simp_all
  ultimately show ?thesis unfolding isNoopPatch_def assms(2)
    by (simp add: patch_fields_def Let_def Equal_def split: option.splits)
qed

lemma patch_fields_twice:
  assumes "\<not> Terminal s"
  shows "patch_fields now' (patch_fields now r p s) p s = patch_fields now r p s"
proof -
  have "set_if f (set_if f x) = set_if f x" for f :: "string option" and x by (cases f) simp_all
  moreover have "fmadd (fmadd m n) n = fmadd m n" for m n :: "(string, float64) fmap"
    by (rule fmap_ext) simp
  ultimately show ?thesis using assms
    by (cases "p_Metrics p"; cases "p_EndedAt p") (simp_all add: patch_fields_def Let_def)
qed

text \<open>
  Property C4. Sending an accepted patch again is accepted and changes nothing, at whatever later time
  the retry arrives and whatever the patch did, also when it finished the run. (The metric values
  must be numbers: a NaN is not equal to itself, and JSON cannot carry one.)
\<close>

theorem patch_retry_idempotent:
  assumes "applyPatch now r p = Inr u" "no_nan (p_Metrics p)"
  shows "applyPatch now' u p = Inr u"
proof (cases rule: applyPatch_cases [OF assms(1)])
  case 1
  with assms(1) show ?thesis by (auto simp: applyPatch_def split: option.splits if_splits)
next
  case 2
  define s where "s = set_if (p_Status p) (Status r)"
  have u: "u = patch_fields now r p s" using 2 by (simp add: s_def)
  have same: "\<not> differs (p_Status p) s" "set_if (p_Status p) s = s" by (cases "p_Status p"; simp add: s_def)+
  have valid: "\<not> (case p_Status p of None \<Rightarrow> False | Some s \<Rightarrow> \<not> ValidStatus s)"
    using assms(1) by (auto simp: applyPatch_def split: option.splits if_splits)
  have ident: "checkIdentityUnchanged u p = None"
    using applyPatch_identity_checked [OF assms(1)] by (subst checkIdentity_frame [of u r]) (simp_all add: u)
  show ?thesis
  proof (cases "Terminal s")
    case True
    with ident valid isNoop_after_patch [OF assms(2) s_def] show ?thesis
      by (simp add: applyPatch_def u)
  next
    case False
    then have "patch_fields now' u p s = u" by (simp add: u patch_fields_twice)
    with False ident valid same 2(3) show ?thesis by (simp add: applyPatch_def u)
  qed
qed

theorem patch_retry_idempotent_witness:
  "applyPatch \<lparr>t_ns = 9000, t_loc = UTC\<rparr> sample_done sample_patch = Inr sample_done"
proof -
  have "\<not> is_nan 0x3FE0000000000000" by code_simp
  then have "no_nan (p_Metrics sample_patch)"
    by (auto simp: no_nan_def list_all_iff sample_patch_def set_map_keys_sorted fmlookup_of_list split: if_splits)
  then show ?thesis by (rule patch_retry_idempotent [OF sample_patched])
qed

section \<open>The comparison of parameters\<close>

lemma map_len_card: "map_len m = card {k. map_get m k \<noteq> None}"
proof (cases m)
  case (Some f)
  have "fset (fmdom f) = {k. fmlookup f k \<noteq> None}" by (auto simp: fmlookup_dom_iff)
  with Some show ?thesis by (simp add: map_len_def fcard.rep_eq)
qed (simp add: map_len_def)

lemma finite_map_keys: "finite {k. map_get m k \<noteq> None}"
  using finite_set [of "map_keys_sorted m"] by (simp add: set_map_keys_sorted)

lemma map_get_included:
  assumes val: "\<And>k v. map_get a k = Some v \<Longrightarrow> map_get b k = Some v" and len: "map_len a = map_len b"
  shows "map_get a = map_get b"
proof -
  have "{k. map_get a k \<noteq> None} = {k. map_get b k \<noteq> None}"
  proof (rule card_subset_eq)
    show "finite {k. map_get b k \<noteq> None}" by (rule finite_map_keys)
    show "{k. map_get a k \<noteq> None} \<subseteq> {k. map_get b k \<noteq> None}" using val by auto
    show "card {k. map_get a k \<noteq> None} = card {k. map_get b k \<noteq> None}" using len by (simp add: map_len_card)
  qed
  then have dom: "map_get a k = None \<longleftrightarrow> map_get b k = None" for k by blast
  show ?thesis
  proof
    fix k show "map_get a k = map_get b k" using val [of k] dom [of k] by (cases "map_get a k") auto
  qed
qed

lemma paramsEqual_keys:
  "paramsEqual a b \<longleftrightarrow> map_len a = map_len b \<and>
     {k. map_get a k \<noteq> None \<and> map_get b k \<noteq> map_get a k} \<subseteq> {k. map_get a k = Some [] \<and> map_get b k = None}"
proof -
  have "map_index b k = v \<longleftrightarrow> map_get b k = Some v \<or> v = [] \<and> map_get b k = None" for k v
    by (auto simp: map_index_def split: option.split)
  moreover have "list_all (\<lambda>k. map_index b k = map_index a k) (map_keys_sorted a) \<longleftrightarrow>
      (\<forall>k v. map_get a k = Some v \<longrightarrow> map_index b k = v)"
    by (auto simp: list_all_iff set_map_keys_sorted map_index_def [of a])
  ultimately have "list_all (\<lambda>k. map_index b k = map_index a k) (map_keys_sorted a) \<longleftrightarrow>
      (\<forall>k v. map_get a k = Some v \<longrightarrow> map_get b k = Some v \<or> v = [] \<and> map_get b k = None)" by simp
  moreover have "(map_get a k \<noteq> None \<and> map_get b k \<noteq> map_get a k \<longrightarrow> map_get a k = Some [] \<and> map_get b k = None) \<longleftrightarrow>
      (\<forall>v. map_get a k = Some v \<longrightarrow> map_get b k = Some v \<or> v = [] \<and> map_get b k = None)" for k
    by (cases "map_get a k") auto
  ultimately show ?thesis unfolding paramsEqual_def subset_iff mem_Collect_eq by simp
qed

text \<open>
  Property C34. What \<open>paramsEqual\<close> misses, exactly. It takes two different maps for equal exactly when they have
  as many keys, the first maps some key to the empty string that the second lacks, and wherever the first
  map's entry is not in the second it is such a key. And that is all that protects the parameters of
  a run: a patch that carries nothing but parameters passes the identity check exactly when it carries
  none or \<open>paramsEqual\<close> says so.
\<close>

theorem paramsEqual_exact:
  "(paramsEqual a b \<and> map_get a \<noteq> map_get b \<longleftrightarrow>
      map_len a = map_len b \<and> (\<exists>k. map_get a k = Some [] \<and> map_get b k = None)
      \<and> {k. map_get a k \<noteq> None \<and> map_get b k \<noteq> map_get a k} \<subseteq> {k. map_get a k = Some [] \<and> map_get b k = None})
   \<and> (checkIdentityUnchanged r (empty_patch\<lparr>p_Params := a\<rparr>) = None \<longleftrightarrow> a = None \<or> paramsEqual a (Params r))"
proof -
  let ?D = "{k. map_get a k \<noteq> None \<and> map_get b k \<noteq> map_get a k}" and ?E = "{k. map_get a k = Some [] \<and> map_get b k = None}"
  have "\<exists>k. map_get a k = Some [] \<and> map_get b k = None" if "map_len a = map_len b" "?D \<subseteq> ?E" "map_get a \<noteq> map_get b"
  proof (rule ccontr)
    assume "\<not> ?thesis"
    then have "?D = {}" using that(2) by blast
    then have "map_get a k = None \<or> map_get b k = map_get a k" for k by blast
    then have "map_get b k = Some v" if "map_get a k = Some v" for k v
      using that by (metis option.distinct(1))
    then show False using map_get_included [of a b] that(1,3) by blast
  qed
  moreover have "map_get a \<noteq> map_get b" if "map_get a k = Some []" "map_get b k = None" for k using that by auto
  ultimately have "paramsEqual a b \<and> map_get a \<noteq> map_get b \<longleftrightarrow>
      map_len a = map_len b \<and> (\<exists>k. map_get a k = Some [] \<and> map_get b k = None) \<and> ?D \<subseteq> ?E"
    unfolding paramsEqual_keys by blast
  moreover have "checkIdentityUnchanged r (empty_patch\<lparr>p_Params := a\<rparr>) = None \<longleftrightarrow> a = None \<or> paramsEqual a (Params r)"
    by (auto simp: checkIdentityUnchanged_def empty_patch_def differs_def)
  ultimately show ?thesis by blast
qed

end
