(* ===== verification/Memory_Rules.thy ===== *)
theory Memory_Rules
  imports Memory Patch_Rules
begin

text \<open>
  What a client sees of the in-process backend over any history of requests: the properties of
  the contract \<open>run_store\<close>, at its instance \<open>mem\<close>, written out.
\<close>

lemma mem_Get_Inr: "mem_Get i m = Inr r \<longleftrightarrow> fmlookup (runs m) i = Some r"
  by (simp add: mem_Get_def split: option.splits)

section \<open>Histories\<close>

text \<open>One request that may change the store; a refused one leaves it as it is.\<close>

inductive mem_step :: "memory \<Rightarrow> memory \<Rightarrow> bool" where
  record_run: "mem_Record r m = (e, m') \<Longrightarrow> mem_step m m'"
| update_run: "mem_Update now i p m = (res, m') \<Longrightarrow> mem_step m m'"

inductive_simps mem_step_iff: "mem_step m m'"

lemma mem_step_exec:
  assumes "mem_step m m'"
  obtains op' where "m' = mem.exec m op'"
proof -
  from assms consider (rec) r e where "mem_Record r m = (e, m')"
    | (upd) now i p res where "mem_Update now i p m = (res, m')" unfolding mem_step_iff by blast
  then show ?thesis
  proof cases
    case rec
    then show ?thesis using that [of "OpRecord r"] by (simp add: mem.exec_def)
  next
    case upd
    then show ?thesis using that [of "OpUpdate now i p"] by (simp add: mem.exec_def)
  qed
qed

lemma mem_step_inv: "mem_step m m' \<Longrightarrow> mem_inv m \<Longrightarrow> mem_inv m'"
  using mem.exec_step by (metis mem_step_exec)

lemma mem_step_evolves:
  "mem_step m m' \<Longrightarrow> mem_inv m \<Longrightarrow> fmlookup (runs m) i = Some r \<Longrightarrow>
     \<exists>u. fmlookup (runs m') i = Some u \<and> evolves r u"
  using mem.exec_step by (metis mem_step_exec)

lemma mem_steps_inv: "mem_step\<^sup>*\<^sup>* m m' \<Longrightarrow> mem_inv m \<Longrightarrow> mem_inv m'"
  by (induction rule: rtranclp_induct) (auto intro: mem_step_inv)

text \<open>
  In every state the store reaches from empty, each run is stored under its own id, is valid
  lineage, and has its capture declaration in canonical order.
\<close>

theorem memory_reachable_inv:
  assumes "mem_step\<^sup>*\<^sup>* NewMemory m"
  shows "mem_inv m"
  using mem_steps_inv [OF assms mem_inv_New] .

definition sample_store :: memory where
  "sample_store = \<lparr>runs = fmupd ''run_1'' sample_run fmempty\<rparr>"

lemma sample_recorded: "mem_Record sample_run NewMemory = (None, sample_store)"
  using Validate_sample_run
  by (simp add: mem_Record_def Let_def NormalizeCapture_def NewMemory_def sample_store_def)

lemma sample_store_reached: "mem_step\<^sup>*\<^sup>* NewMemory sample_store"
  by (rule r_into_rtranclp) (rule mem_step.record_run [OF sample_recorded])

lemma sample_store_inv: "mem_inv sample_store"
  by (rule mem_steps_inv [OF sample_store_reached mem_inv_New])

theorem memory_reachable_inv_witness: "mem_inv sample_store"
  by (rule memory_reachable_inv [OF sample_store_reached])

text \<open>
  Property C5. Whatever requests follow, a recorded run is never lost and only evolves: its id, identity,
  fingerprint, start and capture declaration stay, its status moves along legal transitions, and
  once terminal it does not change at all.
\<close>

theorem memory_history_evolves:
  assumes "mem_inv m" "mem_step\<^sup>*\<^sup>* m m'" "mem_Get i m = Inr r"
  shows "\<exists>u. mem_Get i m' = Inr u \<and> RunID u = RunID r \<and> identity_of u = identity_of r
    \<and> Fingerprint u = Fingerprint r \<and> Capture u = Capture r \<and> t_ns (StartedAt u) = t_ns (StartedAt r)
    \<and> legalTransitions\<^sup>*\<^sup>* (Status r) (Status u) \<and> (Terminal (Status r) \<longrightarrow> u = r)"
proof -
  have r: "fmlookup (runs m) i = Some r" using assms(3) by (auto simp: mem_Get_def split: option.splits)
  have "\<exists>u. fmlookup (runs m') i = Some u \<and> evolves r u"
    using assms(2)
  proof (induction rule: rtranclp_induct)
    case base
    with r show ?case by auto
  next
    case (step m1 m2)
    then show ?case using mem_step_evolves [OF step(2) mem_steps_inv [OF step(1) assms(1)]]
      by (meson evolves_trans)
  qed
  then show ?thesis by (auto simp: mem_Get_def evolves_by_def)
qed

theorem memory_history_evolves_witness:
  "\<exists>u. mem_Get ''run_1'' (snd (mem_Update sample_now ''run_1'' sample_patch sample_store)) = Inr u
     \<and> identity_of u = identity_of sample_run"
proof -
  have "mem_step\<^sup>*\<^sup>* sample_store (snd (mem_Update sample_now ''run_1'' sample_patch sample_store))"
    by (intro r_into_rtranclp mem_step.update_run [OF surjective_pairing])
  moreover have "mem_Get ''run_1'' sample_store = Inr sample_run" by (simp add: mem_Get_def sample_store_def)
  ultimately show ?thesis using memory_history_evolves [OF sample_store_inv] by blast
qed

section \<open>Recording\<close>

lemma no_nan_deep_metrics: "no_nan m \<Longrightarrow> deep_metrics m m"
  by (cases m) (auto simp: deep_metrics_def list_all_iff set_map_keys_sorted dest: no_nanD)

lemma no_nan_DeepEqual: "no_nan (Metrics r) \<Longrightarrow> DeepEqual r r"
  by (simp add: DeepEqual_def no_nan_deep_metrics)

lemma mem_Record_ok:
  assumes "mem_Record r m = (None, m')" "no_nan (Metrics r)"
  shows "Validate r = None"
    "\<exists>x. fmlookup (runs m') (RunID r) = Some x \<and> DeepEqual x (NormalizeCapture r)"
    "j \<noteq> RunID r \<Longrightarrow> fmlookup (runs m') j = fmlookup (runs m) j"
  using assms no_nan_DeepEqual [of "NormalizeCapture r"]
  by (auto simp: mem_Record_def Let_def split: option.splits if_splits)

text \<open>
  A run whose recording succeeded is what \<open>Get\<close> returns for its id, up to the canonical order of
  the capture declaration, and no other run is touched; a run whose recording failed changed
  nothing.
\<close>

theorem memory_record_get:
  assumes "no_nan (Metrics r)"
  shows "case mem_Record r m of
      (None, m') \<Rightarrow> (\<exists>x. mem_Get (RunID r) m' = Inr x \<and> DeepEqual x (NormalizeCapture r))
                    \<and> (\<forall>j. j \<noteq> RunID r \<longrightarrow> mem_Get j m' = mem_Get j m)
    | (Some e, m') \<Rightarrow> m' = m"
proof (cases "mem_Record r m")
  case (Pair e m')
  show ?thesis
  proof (cases e)
    case None
    with Pair mem_Record_ok [of r m m'] assms show ?thesis by (auto simp: mem_Get_def)
  next
    case (Some e')
    with Pair show ?thesis by (auto simp: mem_Record_def Let_def split: option.splits if_splits)
  qed
qed

lemma no_nan_None [simp]: "no_nan None"
  by (simp add: no_nan_def map_keys_sorted_def)

theorem memory_record_get_witness:
  "\<exists>x. mem_Get ''run_1'' sample_store = Inr x \<and> DeepEqual x (NormalizeCapture sample_run)"
  using memory_record_get [of sample_run NewMemory] by (simp add: sample_recorded)

text \<open>Two requests that differ only in the order of the attempted fields.\<close>

definition reordered :: "run \<Rightarrow> string list \<Rightarrow> run" where
  "reordered r xs = (case Capture r of None \<Rightarrow> r | Some c \<Rightarrow> r\<lparr>Capture := Some (c\<lparr>Attempted := Some xs\<rparr>)\<rparr>)"

lemma NormalizeCapture_reordered:
  assumes "Capture r = Some c" "Attempted c = Some ys" "mset xs = mset ys"
  shows "NormalizeCapture (reordered r xs) = NormalizeCapture r"
proof (cases "length ys < 2")
  case True
  then have "ys = [] \<or> (\<exists>y. ys = [y])" by (cases ys) auto
  with assms(3) have "xs = ys" by auto
  moreover have "c\<lparr>Attempted := Some ys\<rparr> = c" using assms(2) by (cases c) simp
  moreover have "r\<lparr>Capture := Some c\<rparr> = r" using assms(1) by (cases r) simp
  ultimately have "reordered r xs = r" using assms(1) by (simp only: reordered_def option.case)
  then show ?thesis by (simp only:)
next
  case False
  moreover have "length xs = length ys" "sort xs = sort ys"
    using assms(3) by (auto dest: mset_eq_length intro: properties_for_sort)
  ultimately show ?thesis using assms by (simp add: reordered_def NormalizeCapture_def)
qed

text \<open>
  Recording is idempotent: sending a recorded run again, even with the attempted capture fields
  in another order, succeeds and changes nothing.
\<close>

theorem memory_record_idempotent:
  assumes "mem_Record r m = (None, m')" "no_nan (Metrics r)"
    and "r' = r \<or> (\<exists>c ys xs. Capture r = Some c \<and> Attempted c = Some ys \<and> mset xs = mset ys \<and> r' = reordered r xs)"
  shows "mem_Record r' m' = (None, m')"
proof -
  have norm: "NormalizeCapture r' = NormalizeCapture r"
    using assms(3) NormalizeCapture_reordered by metis
  then have "Validate r' = None" "RunID r' = RunID r"
    using mem_Record_ok(1) [OF assms(1,2)] Validate_NormalizeCapture NormalizeCapture_frame(1) by metis+
  then show ?thesis using mem_Record_ok(2) [OF assms(1,2)] norm
    by (auto simp: mem_Record_def Let_def)
qed

theorem memory_record_idempotent_witness: "mem_Record sample_run sample_store = (None, sample_store)"
  using memory_record_idempotent [OF sample_recorded] by simp

section \<open>Listing\<close>

text \<open>
  The page \<open>List\<close> returns does not depend on the order in which Go visits the map: it is the first
  \<open>Limit\<close> of exactly the matching runs past the cursor, newest first with the run id breaking
  ties, with a cursor for the rest when there is one.
\<close>

theorem memory_list_deterministic:
  assumes "mem_inv m" "distinct ids" "set ids = fset (fmdom (runs m))"
  shows "mem_List q m = Inr (mem_List_ranged ids q m) \<and>
    (\<exists>xs. sorted_wrt list_less xs
       \<and> set xs = {r. (\<exists>i. mem_Get i m = Inr r) \<and> query_match q r \<and> after_ok q r}
       \<and> mem_List q m = Inr (paginate xs (q_Limit q)))"
proof -
  obtain xs where "is_listing q (fmlookup (runs m)) xs" "mem_List q m = Inr (paginate xs (q_Limit q))"
    using mem.list_law [OF assms(1) TrueI] by blast
  then show ?thesis by (auto simp: mem_List_any_order [OF assms] is_listing_def mem_Get_Inr)
qed

theorem memory_list_deterministic_witness:
  "mem_List empty_query sample_store = Inr (mem_List_ranged [''run_1''] empty_query sample_store)"
  using memory_list_deterministic [OF sample_store_inv, of "[''run_1'']" empty_query]
  by (simp add: sample_store_def)

lemma traverse_listing:
  assumes "mem_inv m" "0 < q_Limit q" "fcard (fmdom (runs m)) < n"
  shows "\<exists>pages. traverse (\<lambda>q. mem_List q m) n q = Some pages
    \<and> sorted_wrt list_less (concat pages) \<and> distinct (concat pages)
    \<and> set (concat pages) = {r. (\<exists>i. mem_Get i m = Inr r) \<and> query_match q r \<and> after_ok q r}
    \<and> (\<forall>pg \<in> set pages. int (length pg) \<le> q_Limit q)"
proof -
  obtain xs where xs: "is_listing q (fmlookup (runs m)) xs"
    using mem.list_law [OF assms(1) TrueI] by blast
  have "distinct xs" using xs listing_irrefl by (simp add: is_listing_def)
  then have "length xs = card (set xs)" by (simp add: distinct_card)
  also have "\<dots> \<le> card (RunID ` set xs)"
  proof -
    have "inj_on RunID (set xs)" using xs mem_invD(1) [OF assms(1)]
      by (auto simp: is_listing_def inj_on_def)
    then show ?thesis by (simp add: card_image)
  qed
  also have "\<dots> \<le> card (fset (fmdom (runs m)))"
    using xs mem_invD(1) [OF assms(1)] by (intro card_mono) (auto simp: is_listing_def fmlookup_dom_iff)
  finally have "length xs < n" using assms(3) by (simp add: fcard.rep_eq)
  from mem.traverse_complete [OF assms(1) TrueI assms(2) xs this] show ?thesis
    using xs listing_irrefl by (auto simp: is_listing_def mem_Get_Inr)
qed

text \<open>
  Following \<open>Next\<close> cursors ends, and the pages together are exactly the matching runs, each once
  and in order, no page longer than the limit.
\<close>

theorem memory_traverse_complete:
  assumes "mem_inv m" "0 < q_Limit q" "fcard (fmdom (runs m)) < n"
  shows "\<exists>pages. traverse (\<lambda>q. mem_List q m) n q = Some pages
    \<and> sorted_wrt list_less (concat pages) \<and> distinct (concat pages)
    \<and> set (concat pages) = {r. (\<exists>i. mem_Get i m = Inr r) \<and> query_match q r \<and> after_ok q r}
    \<and> (\<forall>pg \<in> set pages. int (length pg) \<le> q_Limit q)"
  by (rule traverse_listing [OF assms])

theorem memory_traverse_complete_witness:
  "\<exists>pages. traverse (\<lambda>q. mem_List q sample_store) 2 (empty_query\<lparr>q_Limit := 1\<rparr>) = Some pages
     \<and> set (concat pages) = {r. (\<exists>i. mem_Get i sample_store = Inr r)
         \<and> query_match (empty_query\<lparr>q_Limit := 1\<rparr>) r \<and> after_ok (empty_query\<lparr>q_Limit := 1\<rparr>) r}"
proof -
  have "fcard (fmdom (runs sample_store)) < 2" by (simp add: sample_store_def fcard.rep_eq)
  then show ?thesis using memory_traverse_complete [OF sample_store_inv, of "empty_query\<lparr>q_Limit := 1\<rparr>" 2] by auto
qed

section \<open>Error paths\<close>

text \<open>
  No request that fails changes the store, and every failure of \<open>Update\<close> is \<open>ErrNotFound\<close>, one of
  the two wrapped conflicts, an unknown status or invalid lineage.
\<close>

theorem memory_errors_leave_state:
  "(case mem_Update now i p m of (Inl e, m') \<Rightarrow> m' = m \<and>
       (e = ErrNotFound \<longleftrightarrow> mem_Get i m = Inl ErrNotFound) \<and>
       (e = ErrNotFound \<or> errors_Is e ErrConflict \<or> errors_Is e ErrUnknownStatus \<or> (\<exists>v. e = Invalid v))
     | (Inr u, m') \<Rightarrow> mem_Get i m' = Inr u)
   \<and> (case mem_Record r m of (Some e, m') \<Rightarrow> m' = m | (None, m') \<Rightarrow> Validate r = None)"
  by (auto simp: mem_Update_def mem_Get_def mem_Record_def Let_def applyPatch_def checkIdentityUnchanged_def
      errors_Is_def split: option.splits if_splits sum.splits)

end
