(* ===== verification/Server_Rules.thy ===== *)
theory Server_Rules
  imports Server Memory_Rules
begin

text \<open>
  Properties of the whole server: who may change the ledger, what every stored run carries, and
  that paging over HTTP visits everything once. The store is the in-process backend where the
  property depends on what the store does.
\<close>

section \<open>Access\<close>

lemma constantTimeEqual_eq [simp]: "constantTimeEqual a b \<longleftrightarrow> a = b"
  by (auto simp: constantTimeEqual_def list_all2_eq dest: list_all2_lengthD)

lemma bearerToken_header:
  assumes "bearerToken rq = (token, True)"
  shows "rq_Header rq ''Authorization'' = ''Bearer '' @ token" "token \<noteq> []"
proof -
  let ?h = "rq_Header rq ''Authorization''" and ?p = "''Bearer ''"
  have "HasPrefix ?h ?p \<and> token = TrimPrefix ?h ?p \<and> token \<noteq> []"
    using assms unfolding bearerToken_def Let_def by (cases "HasPrefix ?h ?p") auto
  moreover have "p @ TrimPrefix h p = h" if "HasPrefix h p" for h p
    using that append_take_drop_id [of "length p" h] by (simp add: HasPrefix_def TrimPrefix_def)
  ultimately show "?h = ?p @ token" "token \<noteq> []" by metis+
qed

text \<open>A guarded handler runs only for a token the server accepts; otherwise the answer is an error and nothing changes.\<close>

lemma requireAuth_cases:
  obtains (runs) "requireAuth wr nxt env ops rq srv = nxt env ops rq srv"
      "auth_enabled (srv_auth srv) \<longrightarrow> (\<exists>token. bearerToken rq = (token, True) \<and> allows (srv_auth srv) wr token)"
  | (refused) rs where "requireAuth wr nxt env ops rq srv = (Some rs, srv)" "rs_Status rs = 401 \<or> rs_Status rs = 403"
      "rs_Body rs = BErr ''unauthenticated'' MissingToken \<or> rs_Body rs = BErr ''forbidden'' ReadOnlyToken"
proof -
  obtain token ok where t: "bearerToken rq = (token, ok)" by fastforce
  consider "\<not> auth_enabled (srv_auth srv) \<or> (ok \<and> allows (srv_auth srv) wr token)"
    | "auth_enabled (srv_auth srv)" "\<not> (ok \<and> allows (srv_auth srv) wr token)" "ok \<and> wr \<and> allows (srv_auth srv) False token"
    | "auth_enabled (srv_auth srv)" "\<not> (ok \<and> allows (srv_auth srv) wr token)" "\<not> (ok \<and> wr \<and> allows (srv_auth srv) False token)"
    by blast
  then show ?thesis
  proof cases
    case 1
    then show ?thesis using t by (intro runs) (auto simp: requireAuth_def)
  next
    case 2
    then show ?thesis using t
      by (intro refused [of "writeErr 403 ''forbidden'' ReadOnlyToken"])
        (auto simp: requireAuth_def writeErr_def writeJSON_def)
  next
    case 3
    then have "requireAuth wr nxt env ops rq srv = (Some (set_header ''WWW-Authenticate'' ''Bearer realm=\"run-ledger\"''
        (writeErr 401 ''unauthenticated'' MissingToken)), srv)"
      unfolding requireAuth_def t by (simp only: prod.case if_True if_False not_True_eq_False)
    then show ?thesis by (rule refused) (simp_all add: set_header_def writeErr_def writeJSON_def)
  qed
qed

lemma routes_methods:
  "rt \<in> set routes \<Longrightarrow> rt_Endpoint rt = EpRecord \<Longrightarrow> rt_Method rt = ''POST''"
  "rt \<in> set routes \<Longrightarrow> rt_Endpoint rt = EpUpdate \<Longrightarrow> rt_Method rt = ''PATCH''"
  by (auto simp: routes_def)

lemma mux_Handler_Some: "mux_Handler meth path = Some rt \<Longrightarrow> rt \<in> set routes \<and> route_match meth path rt"
  by (auto simp: mux_Handler_def find_Some_iff)

text \<open>No request changes the tokens.\<close>

lemma serve_auth: "srv_auth (snd (serve env ops rq srv)) = srv_auth srv"
proof -
  have guard: "srv_auth (snd (requireAuth wr nxt env ops rq srv)) = srv_auth srv"
    if "srv_auth (snd (nxt env ops rq srv)) = srv_auth srv" for wr and nxt :: "'a handler"
    by (rule requireAuth_cases [of wr nxt env ops rq srv]) (simp_all add: that)
  have "srv_auth (snd (endpoint_handler ep v env ops rq srv)) = srv_auth srv" for ep v
    by (cases ep) (auto simp: endpoint_handler_def guard reads_keep_server writes_change_store(3,4))
  then show ?thesis unfolding serve_parts by (auto simp: mux_ServeHTTP_def reads_keep_server split: option.split)
qed

text \<open>How a request can reach the store at all.\<close>

lemma serve_changes:
  assumes "srv_store (snd (serve env ops rq srv)) \<noteq> srv_store srv"
  shows "(rq_Method rq = ''POST'' \<or> rq_Method rq = ''PATCH'') \<and>
    (auth_enabled (srv_auth srv) \<longrightarrow> (\<exists>token. bearerToken rq = (token, True) \<and> allows (srv_auth srv) True token)) \<and>
    ((\<exists>r0. srv_store (snd (serve env ops rq srv)) = snd (so_Record ops (stamp env r0) (srv_store srv))) \<or>
     (\<exists>i p. srv_store (snd (serve env ops rq srv)) = snd (so_Update ops (e_now env) i p (srv_store srv))))"
proof -
  have ne: "srv_store (snd (mux_ServeHTTP env ops rq srv)) \<noteq> srv_store srv" using assms by (simp add: serve_parts)
  then obtain rt where rt: "mux_Handler (rq_Method rq) (rq_Path rq) = Some rt"
    by (cases "mux_Handler (rq_Method rq) (rq_Path rq)") (auto simp: mux_ServeHTTP_def reads_keep_server)
  have meth: "rt \<in> set routes" "method_match (rt_Method rt) (rq_Method rq)"
    using mux_Handler_Some [OF rt] by (auto simp: route_match_def)
  let ?v = "last (rq_Path rq)"
  have eh: "mux_ServeHTTP env ops rq srv = endpoint_handler (rt_Endpoint rt) ?v env ops rq srv"
    by (simp add: mux_ServeHTTP_def rt)
  have guard: "srv_store (snd (requireAuth wr nxt env ops rq srv)) = srv_store srv"
    if "srv_store (snd (nxt env ops rq srv)) = srv_store srv" for wr and nxt :: "'a handler"
    by (rule requireAuth_cases [of wr nxt env ops rq srv]) (simp_all add: that)
  have ep: "rt_Endpoint rt = EpRecord \<or> rt_Endpoint rt = EpUpdate"
    using ne unfolding eh by (cases "rt_Endpoint rt") (auto simp: endpoint_handler_def guard reads_keep_server)
  then show ?thesis
  proof
    assume e: "rt_Endpoint rt = EpRecord"
    then have run: "mux_ServeHTTP env ops rq srv = requireAuth True api_record env ops rq srv"
      by (simp add: eh endpoint_handler_def)
    have "rq_Method rq = ''POST''" using routes_methods(1) [OF meth(1) e] meth(2) by (simp add: method_match_def)
    with run ne writes_change_store(1) [of env ops rq srv] show ?thesis
      by (cases rule: requireAuth_cases [of True api_record env ops rq srv]) (auto simp: serve_parts)
  next
    assume e: "rt_Endpoint rt = EpUpdate"
    then have run: "mux_ServeHTTP env ops rq srv = requireAuth True (api_update ?v) env ops rq srv"
      by (simp add: eh endpoint_handler_def)
    have "rq_Method rq = ''PATCH''" using routes_methods(2) [OF meth(1) e] meth(2) by (simp add: method_match_def)
    with run ne writes_change_store(2) [of ?v env ops rq srv] show ?thesis
      by (cases rule: requireAuth_cases [of True "api_update ?v" env ops rq srv]) (auto simp: serve_parts)
  qed
qed

text \<open>
  Property C12. Only an authorised write changes the ledger: if the request is not a POST or a PATCH, or
  authentication is on and the request does not carry exactly the configured, non-empty write
  token as its bearer token, the store is the same afterwards, whatever backend it is.
\<close>

theorem only_writers_change_store:
  assumes "(rq_Method rq \<noteq> ''POST'' \<and> rq_Method rq \<noteq> ''PATCH'') \<or>
    (auth_enabled (srv_auth srv) \<and>
      (WriteToken (srv_auth srv) = [] \<or> rq_Header rq ''Authorization'' \<noteq> ''Bearer '' @ WriteToken (srv_auth srv)))"
  shows "srv_store (snd (serve env ops rq srv)) = srv_store srv"
proof (rule ccontr)
  assume "srv_store (snd (serve env ops rq srv)) \<noteq> srv_store srv"
  note s = serve_changes [OF this]
  with assms obtain token where "bearerToken rq = (token, True)" "allows (srv_auth srv) True token"
    and d: "WriteToken (srv_auth srv) = [] \<or> rq_Header rq ''Authorization'' \<noteq> ''Bearer '' @ WriteToken (srv_auth srv)"
    by auto
  then have "rq_Header rq ''Authorization'' = ''Bearer '' @ token" "token = WriteToken (srv_auth srv)"
    "WriteToken (srv_auth srv) \<noteq> []"
    by (auto simp: allows_def bearerToken_header split: if_splits)
  with d show False by simp
qed

definition sample_env :: environment where
  "sample_env = \<lparr>e_now = sample_now, e_suffixBytes = Some ''abcde'', e_reqIDBytes = None, e_seconds = 0,
     e_ParseMediaType = (\<lambda>s. if s = ''application/json'' then Some s else None), e_ParseTime = (\<lambda>_. None)\<rparr>"

definition sample_request :: request where
  "sample_request = \<lparr>rq_Method = ''POST'', rq_Path = [''v1'', ''runs''],
     rq_Header = (\<lambda>h. if h = ''Content-Type'' then ''application/json'' else []), rq_Query = fmempty,
     rq_RunBody = Inr sample_run, rq_PatchBody = Inl []\<rparr>"

theorem only_writers_change_store_witness:
  "srv_store (snd (serve sample_env mem_ops sample_request
     (api_New sample_store \<lparr>WriteToken = ''s3cret'', ReadToken = []\<rparr>))) = sample_store"
  by (subst only_writers_change_store) (simp_all add: sample_request_def api_New_eq auth_enabled_def)

section \<open>The server over any store\<close>

inductive server_step :: "'st store_ops \<Rightarrow> 'st server \<Rightarrow> 'st server \<Rightarrow> bool" for ops where
  request: "server_step ops srv (snd (serve env ops rq srv))"

text \<open>What every run in a server's ledger satisfies.\<close>

definition stamped :: "run \<Rightarrow> bool" where
  "stamped r \<longleftrightarrow> Fingerprint r = Compute r \<and> FingerprintVersion r = CurrentFingerprintVersion
     \<and> RunID r \<noteq> [] \<and> ValidStatus (Status r)"

lemma stamp_identity: "identity_of (stamp env r) = identity_of r"
  by (simp add: stamp_def Let_def identity_of_def norm_params_def)

lemma stamp_fields:
  "Fingerprint (stamp env r) = Compute (stamp env r)" "FingerprintVersion (stamp env r) = CurrentFingerprintVersion"
  "RunID (stamp env r) \<noteq> []" "Status (stamp env r) \<noteq> []"
proof -
  have "Fingerprint (stamp env r) = Compute r"
    unfolding stamp_def Let_def
    by (auto intro!: identity_Compute simp: identity_of_def norm_params_def)
  also have "\<dots> = Compute (stamp env r)" by (rule identity_Compute [symmetric]) (rule stamp_identity)
  finally show "Fingerprint (stamp env r) = Compute (stamp env r)" .
qed (simp_all add: stamp_def Let_def status_defs)

lemma stamped_cong:
  assumes "stamped r" "identity_of u = identity_of r" "RunID u = RunID r" "Fingerprint u = Fingerprint r"
    "FingerprintVersion u = FingerprintVersion r" "legalTransitions\<^sup>*\<^sup>* (Status r) (Status u)"
  shows "stamped u"
proof -
  have "Compute u = Compute r" using assms(2) by (rule identity_Compute)
  moreover have "ValidStatus (Status u)" using assms(6,1)
    by (induction rule: rtranclp_induct) (auto simp: stamped_def legalTransitions_def)
  ultimately show ?thesis using assms by (simp add: stamped_def)
qed

lemma stamped_stamp: "Validate (stamp env r) = None \<Longrightarrow> stamped (stamp env r)"
  using stamp_fields [of env r] by (auto simp: stamped_def Validate_None_iff)

text \<open>
  A store whose canonical form leaves alone what the server stamps, and whose listings depend on a
  cursor only through its position.
\<close>

locale served_store = run_store +
  assumes canon_frame: "identity_of (canon r) = identity_of r \<and> RunID (canon r) = RunID r \<and> Status (canon r) = Status r
      \<and> Fingerprint (canon r) = Fingerprint r \<and> FingerprintVersion (canon r) = FingerprintVersion r"
    and listable_position: "listable (q\<lparr>q_After := Some c\<rparr>) \<Longrightarrow> t_ns (c_StartedAt d) = t_ns (c_StartedAt c) \<Longrightarrow>
      listable (q\<lparr>q_After := Some d\<rparr>)"
begin

abbreviation served where
  "served \<equiv> \<lparr>so_Record = Record, so_Update = Update, so_Get = Get, so_List = ListRuns\<rparr>"

lemma serve_exec:
  obtains (same) "srv_store (snd (serve env served rq srv)) = srv_store srv"
  | (recorded) r0 where "srv_store (snd (serve env served rq srv)) = exec (srv_store srv) (OpRecord (stamp env r0))"
  | (updated) i p where "srv_store (snd (serve env served rq srv)) = exec (srv_store srv) (OpUpdate (e_now env) i p)"
proof (cases "srv_store (snd (serve env served rq srv)) = srv_store srv")
  case False
  with serve_changes [OF this] recorded updated show ?thesis by (auto simp: exec_def)
qed (rule same)

definition ledger :: "'a \<Rightarrow> bool" where
  "ledger st \<longleftrightarrow> inv st \<and> (\<forall>i r. content st i = Some r \<longrightarrow> stamped r)"

lemma ledger_Record:
  assumes "ledger st"
  shows "ledger (exec st (OpRecord (stamp env r0)))"
proof -
  have "inv st" using assms by (simp add: ledger_def)
  moreover have "stamped (canon (stamp env r0))" if "Validate (stamp env r0) = None"
    using canon_frame by (intro stamped_cong [OF stamped_stamp [OF that]]) simp_all
  ultimately show ?thesis using store_record_effect [of st "stamp env r0"] assms
    by (auto simp: ledger_def exec_def split: if_splits)
qed

lemma ledger_Update:
  assumes "ledger st"
  shows "ledger (exec st (OpUpdate now i p))"
proof -
  have inv: "inv st" and old: "\<And>j r. content st j = Some r \<Longrightarrow> stamped r" using assms by (simp_all add: ledger_def)
  have new: "stamped x" if "stamped r" "evolves_by eqv r x" for r x
    using that by (intro stamped_cong [OF that(1)]) (simp_all add: evolves_by_def)
  obtain e st' where st': "Update now i p st = (e, st')" "inv st'" and c: "content st' = content st \<or>
      (\<exists>r x. content st i = Some r \<and> content st' = (content st)(i \<mapsto> x) \<and> evolves_by eqv r x)"
    using store_update_effect [OF inv] by blast
  have "stamped r" if "content st' j = Some r" for j r
    using c that old new by (cases "j = i") fastforce+
  with st' show ?thesis by (simp add: ledger_def exec_def)
qed

lemma ledger_serve: "ledger (srv_store srv) \<Longrightarrow> ledger (srv_store (snd (serve env served rq srv)))"
  by (cases rule: serve_exec [of env rq srv]) (simp_all add: ledger_Record ledger_Update)

lemma ledger_steps: "(server_step served)\<^sup>*\<^sup>* s1 s2 \<Longrightarrow> ledger (srv_store s1) \<Longrightarrow> ledger (srv_store s2)"
  by (induction rule: rtranclp_induct) (auto elim!: server_step.cases intro: ledger_serve)

lemma ledger_new: "inv st \<Longrightarrow> content st = Map.empty \<Longrightarrow> ledger (srv_store (api_New st a))"
  by (simp add: ledger_def api_New_eq)

text \<open>Every run that is there stays there, and only evolves.\<close>

lemma serve_evolves:
  assumes "inv (srv_store srv)"
  shows "inv (srv_store (snd (serve env served rq srv)))"
    and "content (srv_store srv) i = Some r \<Longrightarrow>
      \<exists>u. content (srv_store (snd (serve env served rq srv))) i = Some u \<and> evolves_by eqv r u"
  by (cases rule: serve_exec [of env rq srv]; use exec_step [OF assms] assms evolves_by_refl in auto)+

lemma steps_evolve:
  assumes "(server_step served)\<^sup>*\<^sup>* s1 s2" "inv (srv_store s1)"
  shows "inv (srv_store s2)"
    and "content (srv_store s1) i = Some r \<Longrightarrow> \<exists>u. content (srv_store s2) i = Some u \<and> evolves_by eqv r u"
proof -
  have "inv (srv_store s2) \<and>
    (content (srv_store s1) i = Some r \<longrightarrow> (\<exists>u. content (srv_store s2) i = Some u \<and> evolves_by eqv r u))"
    using assms(1)
  proof (induction rule: rtranclp_induct)
    case base
    show ?case using assms(2) evolves_by_refl by blast
  next
    case (step s t)
    from step(2) obtain env rq where t: "t = snd (serve env served rq s)" by cases
    show ?case using step.IH serve_evolves [of s] evolves_by_trans unfolding t by meson
  qed
  then show "inv (srv_store s2)"
    and "content (srv_store s1) i = Some r \<Longrightarrow> \<exists>u. content (srv_store s2) i = Some u \<and> evolves_by eqv r u" by blast+
qed

end

section \<open>Comparing under writes\<close>

text \<open>What the fingerprint is made of does not depend on when the runs are read.\<close>

lemma Runs_evolved:
  assumes "evolves_by eqv a a'" "evolves_by eqv b b'"
  shows "identity_fields (Runs a' b') = identity_fields (Runs a b)" "SameExperiment a' b' = SameExperiment a b"
proof -
  have f: "Project r' = Project r" "GitCommit r' = GitCommit r" "GitDirty r' = GitDirty r" "ConfigHash r' = ConfigHash r"
    "DatasetVersion r' = DatasetVersion r" "ModelVersion r' = ModelVersion r" "Seed r' = Seed r" "Params r' = Params r"
    "Fingerprint r' = Fingerprint r" "Compute r' = Compute r"
    if "evolves_by eqv r r'" for r r'
    using that identity_Compute [of r' r] by (simp_all add: evolves_by_def identity_of_def)
  show "identity_fields (Runs a' b') = identity_fields (Runs a b)" "SameExperiment a' b' = SameExperiment a b"
    unfolding identity_fields_Runs identity_candidates_def SameExperiment_def f [OF assms(1)] f [OF assms(2)] by simp_all
qed

context served_store
begin

lemma compare_under_writes:
  assumes "inv (srv_store srv)" "(server_step served)\<^sup>*\<^sup>* srv srv'"
    and "q_get (rq_Query rq) ''a'' = i" "q_get (rq_Query rq) ''b'' = j" "i \<noteq> []" "j \<noteq> []"
    and "Get i (srv_store srv) = Inr a" "Get j (srv_store srv) = Inr b"
  shows "\<exists>b'. api_compare_at (srv_store srv') env served rq srv = (Some (writeJSON 200 (BResult (Runs a b'))), srv)
    \<and> Get j (srv_store srv') = Inr b' \<and> evolves_by eqv b b' \<and> identity_fields (Runs a b') = identity_fields (Runs a b)
    \<and> res_SameExperiment (Runs a b') = res_SameExperiment (Runs a b)"
proof -
  have c: "content (srv_store srv) j = Some b" using assms(8) get_law [OF assms(1)] by (simp split: option.splits)
  obtain b' where b': "content (srv_store srv') j = Some b'" "evolves_by eqv b b'"
    using steps_evolve(2) [OF assms(2,1) c] by blast
  have get: "Get j (srv_store srv') = Inr b'" using get_law [OF steps_evolve(1) [OF assms(2,1)]] b'(1) by simp
  then have ans: "api_compare_at (srv_store srv') env served rq srv = (Some (writeJSON 200 (BResult (Runs a b'))), srv)"
    using assms(3-7) by (simp add: api_compare_at_def Let_def)
  show ?thesis
    by (intro exI [of _ b'] conjI ans get b'(2) Runs_evolved(1) [OF evolves_by_refl b'(2)])
      (simp add: Runs_parts Runs_evolved(2) [OF evolves_by_refl b'(2)])
qed

end

section \<open>Paging over HTTP\<close>

text \<open>A client that requests the list again with each \<open>next_cursor\<close> until there is none.\<close>

fun http_pages :: "nat \<Rightarrow> environment \<Rightarrow> 'st store_ops \<Rightarrow> request \<Rightarrow> 'st server \<Rightarrow> run list list option" where
  "http_pages 0 env ops rq srv = None"
| "http_pages (Suc n) env ops rq srv =
     (case serve env ops rq srv of (rs, srv') \<Rightarrow>
        (case rs_Body rs of
           BPage xs _ _ None \<Rightarrow> Some [xs]
         | BPage xs _ _ (Some c) \<Rightarrow>
             map_option ((#) xs) (http_pages n env ops (rq\<lparr>rq_Query := fmupd ''cursor'' [c] (rq_Query rq)\<rparr>) srv')
         | _ \<Rightarrow> None))"

text \<open>A request for the list that the server lets through.\<close>

definition list_request_ok :: "request \<Rightarrow> auth \<Rightarrow> bool" where
  "list_request_ok rq a \<longleftrightarrow> rq_Method rq = ''GET'' \<and> rq_Path rq = [''v1'', ''runs'']
     \<and> (auth_enabled a \<longrightarrow> (\<exists>token. bearerToken rq = (token, True) \<and> allows a False token))"

lemma list_request_ok_query [simp]: "list_request_ok (rq\<lparr>rq_Query := q\<rparr>) a = list_request_ok rq a"
  by (simp add: list_request_ok_def bearerToken_def)

lemma serve_list:
  assumes "list_request_ok rq (srv_auth srv)" "api_list env ops rq srv = (Some rs, srv)"
  shows "rs_Body (fst (serve env ops rq srv)) = rs_Body rs" "srv_store (snd (serve env ops rq srv)) = srv_store srv"
    "srv_auth (snd (serve env ops rq srv)) = srv_auth srv"
proof -
  have "mux_ServeHTTP env ops rq srv = requireAuth False api_list env ops rq srv"
    using assms(1) by (simp add: list_request_ok_def routing)
  also have "\<dots> = (Some rs, srv)" using assms by (auto simp: requireAuth_def list_request_ok_def)
  finally have m: "mux_ServeHTTP env ops rq srv = (Some rs, srv)" .
  show "rs_Body (fst (serve env ops rq srv)) = rs_Body rs" "srv_store (snd (serve env ops rq srv)) = srv_store srv"
    "srv_auth (snd (serve env ops rq srv)) = srv_auth srv"
    using serve_response [OF m] serve_parts(2) [of env ops rq srv] m by simp_all
qed

definition query_of :: "(string, string list) fmap \<Rightarrow> int \<Rightarrow> cursor option \<Rightarrow> time \<Rightarrow> time \<Rightarrow> query" where
  "query_of q limit after since untl =
     \<lparr>q_Project = q_get q ''project'', q_GitCommit = q_get q ''git_commit'',
      q_Fingerprint = q_get q ''fingerprint'', q_Status = q_get q ''status'',
      q_Device = q_get q ''device'', q_SubmitterClaim = q_get q ''submitter_claim'',
      q_JobID = q_get q ''job_id'', q_CaptureClient = q_get q ''capture_client'',
      q_Limit = limit, q_After = after, q_Since = since, q_Until = untl\<rparr>"

text \<open>An accepted query string, with its cursor left open.\<close>

definition list_query_ok :: "environment \<Rightarrow> (string, string list) fmap \<Rightarrow> int \<Rightarrow> time \<Rightarrow> time \<Rightarrow> bool" where
  "list_query_ok env q limit since untl \<longleftrightarrow>
     unknown_param listQueryParams q = None \<and> parseLimit (q_get q ''limit'') = Inr limit
     \<and> (q_get q ''status'' = [] \<or> ValidStatus (q_get q ''status''))
     \<and> parseTimeParam env ''since'' (q_get q ''since'') = Inr since
     \<and> parseTimeParam env ''until'' (q_get q ''until'') = Inr untl"

lemma list_query_Inr:
  assumes "list_query env q = Inr qry"
  obtains limit after since untl where "list_query_ok env q limit since untl" "qry = query_of q limit after since untl"
proof -
  from assms have u: "unknown_param listQueryParams q = None" by (cases "unknown_param listQueryParams q") (simp_all add: list_query_def)
  from assms obtain limit where l: "parseLimit (q_get q ''limit'') = Inr limit"
    by (cases "parseLimit (q_get q ''limit'')") (simp_all add: list_query_def u)
  let ?a = "if q_get q ''cursor'' = [] then Inr None
     else case decodeCursor (q_get q ''cursor'') of Inl e \<Rightarrow> Inl e | Inr c \<Rightarrow> Inr (Some c)"
  from assms obtain after where a: "?a = Inr after"
    by (cases ?a) (simp_all only: list_query_def u l option.case sum.case, blast+)
  from assms have s: "q_get q ''status'' = [] \<or> ValidStatus (q_get q ''status'')"
    unfolding list_query_def u l option.case sum.case a Let_def by (cases "q_get q ''status'' = [] \<or> ValidStatus (q_get q ''status'')") simp_all
  then have s': "\<not> (q_get q ''status'' \<noteq> [] \<and> \<not> ValidStatus (q_get q ''status''))" by blast
  from assms obtain since where t: "parseTimeParam env ''since'' (q_get q ''since'') = Inr since"
    unfolding list_query_def u l option.case sum.case a Let_def if_not_P [OF s']
    by (cases "parseTimeParam env ''since'' (q_get q ''since'')") simp_all
  from assms obtain untl where t': "parseTimeParam env ''until'' (q_get q ''until'') = Inr untl"
    unfolding list_query_def u l option.case sum.case a Let_def if_not_P [OF s'] t
    by (cases "parseTimeParam env ''until'' (q_get q ''until'')") simp_all
  have "qry = query_of q limit after since untl"
    using assms unfolding list_query_def u l option.case sum.case a Let_def if_not_P [OF s'] t t' by (simp add: query_of_def)
  with u l s t t' show ?thesis using that [of limit since untl after] by (simp add: list_query_ok_def)
qed

lemma list_query_build:
  assumes "list_query_ok env q limit since untl"
    and "(if q_get q ''cursor'' = [] then Inr None
          else case decodeCursor (q_get q ''cursor'') of Inl e \<Rightarrow> Inl e | Inr c \<Rightarrow> Inr (Some c)) = Inr after"
  shows "list_query env q = Inr (query_of q limit after since untl)"
proof -
  have s': "\<not> (q_get q ''status'' \<noteq> [] \<and> \<not> ValidStatus (q_get q ''status''))"
    and u: "unknown_param listQueryParams q = None" and l: "parseLimit (q_get q ''limit'') = Inr limit"
    and t: "parseTimeParam env ''since'' (q_get q ''since'') = Inr since"
      "parseTimeParam env ''until'' (q_get q ''until'') = Inr untl"
    using assms(1) by (auto simp: list_query_ok_def)
  show ?thesis unfolding list_query_def u l option.case sum.case assms(2) Let_def if_not_P [OF s'] t by (simp add: query_of_def)
qed

lemma list_query_cursor:
  assumes q: "list_query env q = Inr qry" and c: "c_RunID c \<noteq> []"
  shows "list_query env (fmupd ''cursor'' [encodeCursor c] q)
    = Inr (qry\<lparr>q_After := Some \<lparr>c_StartedAt = unix_utc (UnixNano (c_StartedAt c)), c_RunID = c_RunID c\<rparr>\<rparr>)"
proof -
  let ?q = "fmupd ''cursor'' [encodeCursor c] q"
  obtain limit after since untl where ok: "list_query_ok env q limit since untl" and qry: "qry = query_of q limit after since untl"
    by (rule list_query_Inr [OF q])
  have "decodeCursor [] = Inl UnsupportedCursor" by (simp add: decodeCursor_def DecodeString_def Cut_def)
  then have ne: "encodeCursor c \<noteq> []" using decode_encode [OF c] by auto
  have g: "q_get ?q ''cursor'' = encodeCursor c" "\<And>k. k \<noteq> ''cursor'' \<Longrightarrow> q_get ?q k = q_get q k"
    by (simp_all add: q_get_def)
  have names: "''limit'' \<noteq> ''cursor''" "''status'' \<noteq> ''cursor''" "''since'' \<noteq> ''cursor''" "''until'' \<noteq> ''cursor''"
    "''project'' \<noteq> ''cursor''" "''git_commit'' \<noteq> ''cursor''" "''fingerprint'' \<noteq> ''cursor''" "''device'' \<noteq> ''cursor''"
    "''submitter_claim'' \<noteq> ''cursor''" "''job_id'' \<noteq> ''cursor''" "''capture_client'' \<noteq> ''cursor''" by simp_all
  note g' = names [THEN g(2)]
  have "unknown_param listQueryParams q = None" using ok unfolding list_query_ok_def by blast
  moreover have "''cursor'' \<in> set listQueryParams" by (simp add: listQueryParams_def)
  ultimately have "unknown_param listQueryParams ?q = None"
    unfolding unknown_param_def find_None_iff by auto
  then have "list_query_ok env ?q limit since untl" using ok unfolding list_query_ok_def g' by blast
  moreover have "(if q_get ?q ''cursor'' = [] then Inr None
      else case decodeCursor (q_get ?q ''cursor'') of Inl e \<Rightarrow> Inl e | Inr c \<Rightarrow> Inr (Some c))
      = Inr (Some \<lparr>c_StartedAt = unix_utc (UnixNano (c_StartedAt c)), c_RunID = c_RunID c\<rparr>)"
    unfolding g(1) decode_encode [OF c] using ne by simp
  ultimately have "list_query env ?q =
      Inr (query_of ?q limit (Some \<lparr>c_StartedAt = unix_utc (UnixNano (c_StartedAt c)), c_RunID = c_RunID c\<rparr>) since untl)"
    by (rule list_query_build)
  moreover have "query_of ?q limit d since untl = qry\<lparr>q_After := d\<rparr>" for d
    unfolding query_of_def g' qry by simp
  ultimately show ?thesis by simp
qed

lemma traverse_cong:
  assumes "L q = L q'" "\<And>c. q\<lparr>q_After := Some c\<rparr> = q'\<lparr>q_After := Some c\<rparr>"
  shows "traverse L n q = traverse L n q'"
  by (cases n) (simp_all only: traverse.simps assms)

lemma api_list_page:
  assumes "list_query env (rq_Query rq) = Inr qry" "so_List ops qry (srv_store srv) = Inr pg"
  shows "api_list env ops rq srv =
    (Some (writeJSON 200 (BPage (pg_Runs pg) (int (length (pg_Runs pg))) (q_Limit qry) (map_option encodeCursor (pg_Next pg)))), srv)"
  by (simp add: api_list_def assms)

lemma rs_Body_writeJSON [simp]: "rs_Body (writeJSON code b) = b" "rs_Status (writeJSON code b) = code"
  by (simp_all add: writeJSON_def)

lemma list_query_limit:
  assumes "list_query env q = Inr qry"
  shows "1 \<le> q_Limit qry" "q_Limit qry \<le> MaxListLimit"
proof -
  have "parseLimit s = Inr n \<Longrightarrow> 1 \<le> n \<and> n \<le> MaxListLimit" for s n
    by (auto simp: parseLimit_def DefaultListLimit_def MaxListLimit_def split: option.splits if_splits)
  then show "1 \<le> q_Limit qry" "q_Limit qry \<le> MaxListLimit"
    by (rule_tac list_query_Inr [OF assms]; auto simp: list_query_ok_def query_of_def)+
qed

context served_store
begin

lemma list_position:
  assumes "inv st" "listable (q\<lparr>q_After := Some c\<rparr>)" "t_ns (c_StartedAt d) = t_ns (c_StartedAt c)" "c_RunID d = c_RunID c"
  shows "ListRuns (q\<lparr>q_After := Some d\<rparr>) st = ListRuns (q\<lparr>q_After := Some c\<rparr>) st"
proof -
  have "after_ok (q\<lparr>q_After := Some d\<rparr>) = after_ok (q\<lparr>q_After := Some c\<rparr>)"
    using assms(3,4) by (intro ext) (simp add: after_ok_def isAfterCursor_key cursor_key_def)
  then have same: "is_listing (q\<lparr>q_After := Some d\<rparr>) = is_listing (q\<lparr>q_After := Some c\<rparr>)"
    by (intro ext) (simp add: is_listing_def)
  from list_law [OF assms(1) listable_position [OF assms(2,3)]] list_law [OF assms(1,2)] show ?thesis
    unfolding same using listing_unique by fastforce
qed

text \<open>The cursor of a page is the position of one of the stored runs.\<close>

lemma page_position:
  assumes "inv st" "listable q" "ListRuns q st = Inr pg" "pg_Next pg = Some c"
  obtains i r where "content st i = Some r" "c = \<lparr>c_StartedAt = StartedAt r, c_RunID = RunID r\<rparr>"
proof -
  obtain xs where xs: "is_listing q (content st) xs" "pg = paginate xs (q_Limit q)"
    using list_law [OF assms(1,2)] assms(3) by auto
  let ?l = "last (take (nat (q_Limit q)) xs)"
  have c: "c = \<lparr>c_StartedAt = StartedAt ?l, c_RunID = RunID ?l\<rparr>" "take (nat (q_Limit q)) xs \<noteq> []"
    using assms(4) xs(2) by (auto simp: paginate_def Let_def split: if_splits)
  then have "?l \<in> set xs" by (meson last_in_set in_set_takeD)
  then show ?thesis using that c(1) xs(1) by (auto simp: is_listing_def)
qed

text \<open>Every stored run has a faithful cursor.\<close>

definition cursors_safe :: "'a \<Rightarrow> bool" where
  "cursors_safe st \<longleftrightarrow> inv st \<and> (\<forall>i r. content st i = Some r \<longrightarrow> i \<noteq> [] \<and> in_int64 (StartedAt r))"

lemma http_pages_traverse:
  assumes safe: "cursors_safe st" and "list_query env (rq_Query rq) = Inr qry" "listable qry"
    and "srv_store srv = st" "list_request_ok rq (srv_auth srv)"
  shows "http_pages n env served rq srv = traverse (\<lambda>q. ListRuns q st) n qry"
  using assms(2-)
proof (induction n arbitrary: rq qry srv)
  case (Suc n)
  let ?st = st
  have inv: "inv ?st" using safe by (simp add: cursors_safe_def)
  obtain pg where pg: "ListRuns qry ?st = Inr pg" using list_law [OF inv Suc.prems(2)] by blast
  have page: "api_list env served rq srv = (Some (writeJSON 200 (BPage (pg_Runs pg) (int (length (pg_Runs pg))) (q_Limit qry)
      (map_option encodeCursor (pg_Next pg)))), srv)"
    by (rule api_list_page [OF Suc.prems(1)]) (simp add: pg Suc.prems(3))
  note got = serve_list [OF Suc.prems(4) page]
  obtain rs srv' where rs: "serve env served rq srv = (rs, srv')" by fastforce
  with got Suc.prems(3) have srv': "srv_store srv' = st" "srv_auth srv' = srv_auth srv" by simp_all
  have body: "rs_Body rs = BPage (pg_Runs pg) (int (length (pg_Runs pg))) (q_Limit qry) (map_option encodeCursor (pg_Next pg))"
    using got(1) by (simp add: rs)
  show ?case
  proof (cases "pg_Next pg")
    case None
    then show ?thesis by (simp add: rs body pg)
  next
    case (Some c)
    obtain i r where r: "content ?st i = Some r" "c = \<lparr>c_StartedAt = StartedAt r, c_RunID = RunID r\<rparr>"
      by (rule page_position [OF inv Suc.prems(2) pg Some])
    then have c: "c_RunID c \<noteq> []" "in_int64 (c_StartedAt c)"
      using safe stored [OF inv r(1)] by (auto simp: cursors_safe_def)
    have next_ok: "listable (qry\<lparr>q_After := Some c\<rparr>)" using listable_next [OF inv Suc.prems(2) r(1)] r(2) by simp
    let ?d = "\<lparr>c_StartedAt = unix_utc (UnixNano (c_StartedAt c)), c_RunID = c_RunID c\<rparr>"
    have d: "t_ns (c_StartedAt ?d) = t_ns (c_StartedAt c)" by (simp add: unix_utc_UnixNano [OF c(2)])
    let ?rq = "rq\<lparr>rq_Query := fmupd ''cursor'' [encodeCursor c] (rq_Query rq)\<rparr>"
    have "list_query env (rq_Query ?rq) = Inr (qry\<lparr>q_After := Some ?d\<rparr>)"
      using list_query_cursor [OF Suc.prems(1) c(1)] by simp
    then have "http_pages n env served ?rq srv' = traverse (\<lambda>q. ListRuns q ?st) n (qry\<lparr>q_After := Some ?d\<rparr>)"
      by (rule Suc.IH) (use listable_position [OF next_ok d] srv' Suc.prems(4) in simp_all)
    also have "\<dots> = traverse (\<lambda>q. ListRuns q ?st) n (qry\<lparr>q_After := Some c\<rparr>)"
    proof (rule traverse_cong)
      show "ListRuns (qry\<lparr>q_After := Some ?d\<rparr>) ?st = ListRuns (qry\<lparr>q_After := Some c\<rparr>) ?st"
        by (rule list_position [OF inv next_ok d]) simp
    qed simp
    finally show ?thesis by (simp add: rs body pg Some)
  qed
qed simp

lemma http_paging:
  assumes safe: "cursors_safe (srv_store srv)" and q: "list_query env (rq_Query rq) = Inr qry" "listable qry"
    and ok: "list_request_ok rq (srv_auth srv)"
    and n: "finite (dom (content (srv_store srv)))" "card (dom (content (srv_store srv))) < n"
  shows "\<exists>pages. http_pages n env served rq srv = Some pages
    \<and> sorted_wrt list_less (concat pages) \<and> distinct (concat pages)
    \<and> set (concat pages) = {r. (\<exists>i. content (srv_store srv) i = Some r) \<and> query_match qry r \<and> after_ok qry r}
    \<and> (\<forall>pg \<in> set pages. int (length pg) \<le> MaxListLimit)"
proof -
  let ?A = "content (srv_store srv)"
  have inv: "inv (srv_store srv)" using safe by (simp add: cursors_safe_def)
  obtain xs where xs: "is_listing qry ?A xs" using list_law [OF inv q(2)] by blast
  have "set xs \<subseteq> (\<lambda>i. the (?A i)) ` dom ?A" using xs by (force simp: is_listing_def)
  then have "card (set xs) \<le> card (dom ?A)" using card_image_le [OF n(1)] card_mono [OF finite_imageI [OF n(1)]] le_trans by blast
  moreover have d: "distinct xs" using xs listing_irrefl by (auto simp: is_listing_def)
  ultimately have len: "length xs < n" using n(2) distinct_card [OF d] by simp
  have pos: "0 < q_Limit qry" using list_query_limit(1) [OF q(1)] by linarith
  obtain pages where pages: "traverse (\<lambda>q. ListRuns q (srv_store srv)) n qry = Some pages" "concat pages = xs"
    "\<forall>pg \<in> set pages. int (length pg) \<le> q_Limit qry"
    using traverse_complete [OF inv q(2) pos xs len] by blast
  have lim: "\<forall>pg \<in> set pages. int (length pg) \<le> MaxListLimit"
    using pages(3) list_query_limit(2) [OF q(1)] by force
  show ?thesis
  proof (intro exI [of _ pages] conjI)
    show "http_pages n env served rq srv = Some pages" using http_pages_traverse [OF safe q refl ok] pages(1) by simp
    show "sorted_wrt list_less (concat pages)" "distinct (concat pages)"
      "set (concat pages) = {r. (\<exists>i. ?A i = Some r) \<and> query_match qry r \<and> after_ok qry r}"
      using xs d by (simp_all add: pages(2) is_listing_def)
  qed (rule lim)
qed

end

section \<open>The server on the in-process store\<close>

text \<open>The in-process store is one.\<close>

interpretation served_mem: served_store mem_Record mem_Update mem_Get mem_List "\<lambda>m. fmlookup (runs m)" mem_inv
  NormalizeCapture "\<lambda>x r. DeepEqual x (NormalizeCapture r)" "\<lambda>_. True" "(=)" "\<lambda>_. True"
  by unfold_locales simp_all

lemma new_ledger_mem: "served_mem.ledger (srv_store (api_New NewMemory a))"
  by (rule served_mem.ledger_new [OF mem_inv_New]) (auto simp: NewMemory_def)

text \<open>
  Property C13. Whatever requests a server started on an empty ledger has served, every run in the ledger carries
  the fingerprint computed from its own content (never one a client supplied), the current
  fingerprint version, a non-empty id and a known status, and is valid lineage.
\<close>

theorem server_ledger_inv:
  assumes "(server_step mem_ops)\<^sup>*\<^sup>* (api_New NewMemory a) srv" "mem_Get i (srv_store srv) = Inr r"
  shows "Fingerprint r = Compute r \<and> FingerprintVersion r = CurrentFingerprintVersion \<and> RunID r = i \<and> i \<noteq> []
    \<and> ValidStatus (Status r) \<and> Validate r = None"
proof -
  have "served_mem.ledger (srv_store srv)"
    using served_mem.ledger_steps [OF assms(1) [unfolded mem_ops_def] new_ledger_mem] .
  with assms(2) show ?thesis by (auto simp: served_mem.ledger_def mem_Get_Inr stamped_def dest: mem_invD)
qed

lemma Validate_stamp_sample: "Validate (stamp sample_env sample_run) = None"
  using Validate_sample_run by (auto simp: Validate_None_iff stamp_def Let_def)

lemma sample_recorded_over:
  assumes "so_Record ops (stamp sample_env sample_run) st = (None, st')"
  shows "srv_store (snd (serve sample_env ops sample_request (api_New st \<lparr>WriteToken = [], ReadToken = []\<rparr>))) = st'"
proof -
  have rq: "rq_Method sample_request = ''POST''" "rq_Path sample_request = [''v1'', ''runs'']" "rq_RunBody sample_request = Inr sample_run"
    by (simp_all add: sample_request_def)
  have "requireJSON sample_env sample_request = None"
    by (simp add: requireJSON_def sample_request_def sample_env_def)
  then show ?thesis unfolding serve_parts post_runs_route [OF rq(1,2)]
    by (simp add: requireAuth_def auth_enabled_def api_New_eq api_record_def rq(3) Let_def assms)
qed

lemma sample_served:
  "mem_Get ''run_1'' (srv_store (snd (serve sample_env mem_ops sample_request (api_New NewMemory \<lparr>WriteToken = [], ReadToken = []\<rparr>))))
     = Inr (stamp sample_env sample_run)"
proof -
  let ?r = "stamp sample_env sample_run"
  have f: "RunID ?r = ''run_1''" "Capture ?r = None"
    by (simp_all add: stamp_def Let_def)
  then have "mem_Record ?r NewMemory = (None, \<lparr>runs = fmupd ''run_1'' ?r fmempty\<rparr>)"
    by (simp add: mem_Record_def NewMemory_def NormalizeCapture_def Validate_stamp_sample)
  then have "so_Record mem_ops ?r NewMemory = (None, \<lparr>runs = fmupd ''run_1'' ?r fmempty\<rparr>)" by simp
  from sample_recorded_over [OF this] show ?thesis by (simp add: mem_Get_def)
qed

theorem server_ledger_inv_witness:
  "Fingerprint (stamp sample_env sample_run) = Compute (stamp sample_env sample_run)"
proof -
  have "(server_step mem_ops)\<^sup>*\<^sup>* (api_New NewMemory \<lparr>WriteToken = [], ReadToken = []\<rparr>)
      (snd (serve sample_env mem_ops sample_request (api_New NewMemory \<lparr>WriteToken = [], ReadToken = []\<rparr>)))"
    by (rule r_into_rtranclp) (rule server_step.request)
  from server_ledger_inv [OF this sample_served] show ?thesis by blast
qed

end
