(* ===== verification/Http_Rules.thy ===== *)
theory Http_Rules
  imports Server_Rules
begin

text \<open>
  Properties of the read endpoints: paging through \<open>GET /v1/runs\<close> and \<open>GET /v1/fingerprints\<close>,
  limits, error codes, and the answers to requests no route takes.
\<close>

section \<open>Paging through the runs\<close>

text \<open>
  A client that follows \<open>next_cursor\<close> from any accepted first request gets, in finitely many pages,
  exactly the matching runs of the ledger, each once, newest first, provided the start times are
  in the range of a cursor.
\<close>

lemma http_paging_complete:
  assumes "(server_step mem_ops)\<^sup>*\<^sup>* (api_New NewMemory a) srv"
    and "\<And>i r. mem_Get i (srv_store srv) = Inr r \<Longrightarrow> in_int64 (StartedAt r)"
    and "list_request_ok rq (srv_auth srv)" "list_query env (rq_Query rq) = Inr qry"
    and "fcard (fmdom (runs (srv_store srv))) < n"
  shows "\<exists>pages. http_pages n env mem_ops rq srv = Some pages
    \<and> sorted_wrt list_less (concat pages) \<and> distinct (concat pages)
    \<and> set (concat pages) = {r. (\<exists>i. mem_Get i (srv_store srv) = Inr r) \<and> query_match qry r \<and> after_ok qry r}
    \<and> (\<forall>pg \<in> set pages. int (length pg) \<le> MaxListLimit)"
proof -
  note ledger = served_mem.ledger_steps [OF assms(1) [unfolded mem_ops_def] new_ledger_mem]
  then have inv: "mem_inv (srv_store srv)" by (simp add: served_mem.ledger_def)
  have "i \<noteq> [] \<and> in_int64 (StartedAt r)" if "fmlookup (runs (srv_store srv)) i = Some r" for i r
    using that ledger mem_invD(1) [OF inv that] assms(2) [of i r]
    by (auto simp: served_mem.ledger_def stamped_def mem_Get_Inr)
  then have "served_mem.cursors_safe (srv_store srv)" using inv by (simp add: served_mem.cursors_safe_def)
  from served_mem.http_paging [OF this assms(4) TrueI assms(3), of n] assms(5) show ?thesis
    by (simp add: mem_ops_def mem_Get_Inr fcard.rep_eq fmdom.rep_eq)
qed

definition list_request :: request where
  "list_request = \<lparr>rq_Method = ''GET'', rq_Path = [''v1'', ''runs''], rq_Header = (\<lambda>h. []), rq_Query = fmempty,
     rq_RunBody = Inl [], rq_PatchBody = Inl []\<rparr>"

lemma empty_list_query: "list_query env fmempty = Inr (empty_query\<lparr>q_Limit := 50\<rparr>)"
proof -
  have q: "q_get fmempty k = []" for k by (simp add: q_get_def)
  have "list_query_ok env fmempty 50 zero_time zero_time"
    by (simp add: list_query_ok_def unknown_param_def sorted_list_of_fset.rep_eq q parseLimit_def parseTimeParam_def
        DefaultListLimit_def)
  then have "list_query env fmempty = Inr (query_of fmempty 50 None zero_time zero_time)"
    by (rule list_query_build) (simp add: q)
  then show ?thesis by (simp add: query_of_def q empty_query_def)
qed

section \<open>Paging through the groups\<close>

text \<open>A client of the group listing; the groups are recomputed for each request and the same as long as the ledger is.\<close>

fun group_pages :: "nat \<Rightarrow> group list \<Rightarrow> string \<Rightarrow> int \<Rightarrow> group list list option" where
  "group_pages 0 gs after limit = None"
| "group_pages (Suc n) gs after limit =
     (case spread_page gs after limit of
        None \<Rightarrow> None
      | Some (pg, None) \<Rightarrow> Some [pg]
      | Some (pg, Some c) \<Rightarrow>
          (case decodeSpreadCursor c of
             Inl _ \<Rightarrow> None
           | Inr fp \<Rightarrow> map_option ((#) pg) (group_pages n gs fp limit)))"

lemma index_of_distinct:
  assumes "distinct (map f xs)" "i < length xs"
  shows "index_of (\<lambda>x. f x = f (xs ! i)) xs = Some i"
  using assms
proof (induction xs arbitrary: i)
  case (Cons x xs)
  show ?case
  proof (cases i)
    case (Suc j)
    then have "f (xs ! j) \<in> f ` set xs" using Cons.prems by simp
    then have "f x \<noteq> f (xs ! j)" using Cons.prems by auto
    with Suc Cons show ?thesis by simp
  qed simp
qed simp

lemma group_pages_from:
  assumes gs: "distinct (map g_Fingerprint gs)" "\<And>g. g \<in> set gs \<Longrightarrow> g_Fingerprint g \<noteq> []" and l: "0 < limit"
    and start: "(after = [] \<and> k = 0) \<or> (0 < k \<and> k \<le> length gs \<and> after = g_Fingerprint (gs ! (k - 1)))"
    and n: "length gs < n + k"
  shows "\<exists>pages. group_pages n gs after limit = Some pages \<and> concat pages = drop k gs
    \<and> (\<forall>pg \<in> set pages. int (length pg) \<le> limit)"
  using start n
proof (induction n arbitrary: after k)
  case (Suc n)
  have st: "(if after = [] then Some 0 else map_option Suc (index_of (\<lambda>g. g_Fingerprint g = after) gs)) = Some k"
    using Suc.prems(1) index_of_distinct [OF gs(1), of "k - 1"] gs(2) nth_mem [of "k - 1" gs] by auto
  show ?case
  proof (cases "int k + limit < int (length gs)")
    case True
    let ?fin = "k + nat limit" let ?pg = "take (nat limit) (drop k gs)"
    have fin: "?fin < length gs" "0 < ?fin" using True l by linarith+
    have "?pg \<noteq> []" using l fin by simp
    then have lst: "last ?pg = gs ! (?fin - 1)" using l fin by (simp add: last_conv_nth)
    have fp: "g_Fingerprint (gs ! (?fin - 1)) \<noteq> []" using gs(2) fin by simp
    have page: "spread_page gs after limit = Some (?pg, Some (encodeSpreadCursor (g_Fingerprint (gs ! (?fin - 1)))))"
      unfolding spread_page_def st using True fin l lst by (simp add: Let_def)
    have "\<exists>pages. group_pages n gs (g_Fingerprint (gs ! (?fin - 1))) limit = Some pages \<and> concat pages = drop ?fin gs
        \<and> (\<forall>pg \<in> set pages. int (length pg) \<le> limit)"
      by (rule Suc.IH) (use fin Suc.prems(2) l in auto)
    moreover have "?pg @ drop ?fin gs = drop k gs" by (metis append_take_drop_id drop_drop add.commute)
    moreover have "int (length ?pg) \<le> limit" using l by simp
    ultimately show ?thesis using decodeSpread_encode [OF fp] by (auto simp: page)
  next
    case False
    have k: "k \<le> length gs" using Suc.prems(1) by auto
    have "spread_page gs after limit = Some (drop k gs, None)"
      unfolding spread_page_def st using False l k by (auto simp: Let_def)
    moreover have "int (length (drop k gs)) \<le> limit" using False k by simp
    ultimately show ?thesis by simp
  qed
qed auto

section \<open>The order of the groups\<close>

lemma Widest_not_nan: "\<not> is_nan (Widest g)"
  using widest_steps [of minus_one64 "g_Metrics g" "map_keys_sorted (g_Metrics g)"] minus_one64_props(1)
  by (auto simp: Let_def Widest_def Widest_ranged_def)

definition group_key :: "group \<Rightarrow> int \<times> string" where
  "group_key g = (- f64_ord (Widest g), g_Fingerprint g)"

lemma group_less_key: "group_less g h \<longleftrightarrow> group_key g < group_key h"
  using Widest_not_nan [of g] Widest_not_nan [of h]
  by (auto simp: group_less_def group_key_def Let_def f64_eq_def f64_less_def)

interpretation ranking: strict_order_on group_less "{g. G (g_Fingerprint g) = Some g}"
proof unfold_locales
  fix x y
  assume "x \<in> {g. G (g_Fingerprint g) = Some g}" "y \<in> {g. G (g_Fingerprint g) = Some g}" "x \<noteq> y"
  then have "group_key x \<noteq> group_key y" by (auto simp: group_key_def)
  then show "group_less x y \<or> group_less y x" by (simp add: group_less_key neq_iff)
qed (auto simp: group_less_key)

text \<open>The collection a group listing pages through.\<close>

lemma spread_groups_props:
  assumes "spread_groups minRuns rs = Some gs"
  shows "distinct (map g_Fingerprint gs)" "sorted_wrt group_less gs"
    "set gs = {g. \<exists>fp \<in> Fingerprint ` set rs. One fp (filter (\<lambda>r. Fingerprint r = fp) rs) = Some g \<and> minRuns \<le> g_Count g}"
proof -
  define One' where "One' fp = One fp (filter (\<lambda>r. Fingerprint r = fp) rs)" for fp
  obtain all where all: "spread_Compute rs = Some all" "distinct (map g_Fingerprint all)"
    "set (map g_Fingerprint all) = Fingerprint ` set rs" "list_all (\<lambda>g. One' (g_Fingerprint g) = Some g) all"
    using spread_groups_of [of rs] unfolding One'_def by blast
  let ?f = "filter (\<lambda>g. minRuns \<le> g_Count g) all"
  have gs: "gs = sort_slice group_less ?f" using assms all(1) by (simp add: spread_groups_def)
  have One: "One' (g_Fingerprint g) = Some g" if "g \<in> set all" for g using all(4) that by (simp add: list_all_iff)
  have df: "distinct ?f" "distinct (map g_Fingerprint ?f)"
    using all(2) by (auto simp: distinct_map intro: inj_on_subset)
  show "sorted_wrt group_less gs" unfolding gs
    by (rule ranking.sorted_sort_slice [OF df(1), of One']) (use One in auto)
  have "mset (map g_Fingerprint gs) = mset (map g_Fingerprint ?f)" unfolding gs by simp
  then show "distinct (map g_Fingerprint gs)" using df(2) mset_eq_imp_distinct_iff by blast
  have "g \<in> set all \<longleftrightarrow> (\<exists>fp \<in> Fingerprint ` set rs. One' fp = Some g)" for g
  proof
    assume "g \<in> set all"
    then show "\<exists>fp \<in> Fingerprint ` set rs. One' fp = Some g" using One all(3) by (metis imageI list.set_map)
  next
    assume "\<exists>fp \<in> Fingerprint ` set rs. One' fp = Some g"
    then obtain fp where fp: "fp \<in> set (map g_Fingerprint all)" "One' fp = Some g" using all(3) by auto
    then obtain h where "h \<in> set all" "g_Fingerprint h = fp" by auto
    with One [of h] fp(2) show "g \<in> set all" by simp
  qed
  then show "set gs = {g. \<exists>fp \<in> Fingerprint ` set rs. One fp (filter (\<lambda>r. Fingerprint r = fp) rs) = Some g \<and> minRuns \<le> g_Count g}"
    unfolding gs One'_def by auto
qed

text \<open>
  Property C37. Paging through the fingerprint groups of an unchanged ledger ends and gives exactly the groups
  with at least \<open>min_runs\<close> finished runs, each once, the widest relative spread first and the
  fingerprint as the tiebreak, in pages no longer than the limit.
\<close>

theorem group_paging_complete:
  assumes "list_all (\<lambda>r. Fingerprint r \<noteq> []) rs" "0 < limit" "length rs < n"
  shows "\<exists>gs pages. spread_groups minRuns rs = Some gs \<and> group_pages n gs [] limit = Some pages \<and> concat pages = gs
    \<and> sorted_wrt group_less gs \<and> distinct (map g_Fingerprint gs)
    \<and> set gs = {g. \<exists>fp \<in> Fingerprint ` set rs. One fp (filter (\<lambda>r. Fingerprint r = fp) rs) = Some g \<and> minRuns \<le> g_Count g}
    \<and> list_all (\<lambda>pg. int (length pg) \<le> limit) pages"
proof -
  obtain gs where gs: "spread_groups minRuns rs = Some gs"
    using spread_groups_of [of rs] by (auto simp: spread_groups_def)
  note p = spread_groups_props [OF gs]
  have fps: "g_Fingerprint ` set gs \<subseteq> Fingerprint ` set rs" using p(3) One_parts(1) by fastforce
  then have "length gs \<le> length rs"
    using card_mono [OF _ fps] card_image_le [of "set rs" Fingerprint] card_length [of rs] distinct_card [OF p(1)] by simp
  moreover have "g_Fingerprint g \<noteq> []" if "g \<in> set gs" for g using fps that assms(1) by (auto simp: list_all_iff)
  ultimately show ?thesis
    using group_pages_from [OF p(1) _ assms(2), of "[]" 0 n] assms(3) gs p by (auto simp: list_all_iff)
qed

theorem group_paging_complete_witness:
  "\<exists>gs pages. spread_groups 0 [sample_run\<lparr>Fingerprint := ''f''\<rparr>] = Some gs \<and> group_pages 2 gs [] 1 = Some pages \<and> concat pages = gs"
  using group_paging_complete [of "[sample_run\<lparr>Fingerprint := ''f''\<rparr>]" 1 2 0] by auto

section \<open>Comparing while others write\<close>

text \<open>
  Property C17. \<open>GET /v1/comparisons\<close> reads its two runs one after the other without a lock. Whatever other requests
  are served in between, the answer is the diff of the first run with a later version of the second:
  the verdict whether they are the same experiment and every difference in identity are as if both had
  been read at once, and if the second run had finished the whole answer is.
\<close>

theorem compare_interleaved:
  assumes "mem_inv (srv_store srv)" "(server_step mem_ops)\<^sup>*\<^sup>* srv srv'"
    and "q_get (rq_Query rq) ''a'' = i" "q_get (rq_Query rq) ''b'' = j" "i \<noteq> []" "j \<noteq> []"
    and "mem_Get i (srv_store srv) = Inr a" "mem_Get j (srv_store srv) = Inr b"
  shows "\<exists>b'. api_compare_at (srv_store srv') env mem_ops rq srv = (Some (writeJSON 200 (BResult (Runs a b'))), srv)
    \<and> mem_Get j (srv_store srv') = Inr b'
    \<and> identity_fields (Runs a b') = identity_fields (Runs a b)
    \<and> res_SameExperiment (Runs a b') = res_SameExperiment (Runs a b)
    \<and> (Terminal (Status b) \<longrightarrow> Runs a b' = Runs a b)"
proof -
  obtain b' where b': "api_compare_at (srv_store srv') env mem_ops rq srv = (Some (writeJSON 200 (BResult (Runs a b'))), srv)"
    "mem_Get j (srv_store srv') = Inr b'" "evolves b b'" "identity_fields (Runs a b') = identity_fields (Runs a b)"
    "res_SameExperiment (Runs a b') = res_SameExperiment (Runs a b)"
    using served_mem.compare_under_writes [OF assms(1) assms(2) [unfolded mem_ops_def] assms(3-8)] unfolding mem_ops_def by blast
  then show ?thesis by (auto simp: evolves_by_def)
qed

definition self_comparison :: request where
  "self_comparison = list_request\<lparr>rq_Path := [''v1'', ''comparisons''],
     rq_Query := fmap_of_list [(''a'', [''run_1'']), (''b'', [''run_1''])]\<rparr>"

theorem compare_interleaved_witness:
  "let srv = api_New sample_store \<lparr>WriteToken = [], ReadToken = []\<rparr> in
   \<exists>b'. api_compare_at (srv_store (snd (serve sample_env mem_ops sample_request srv))) sample_env mem_ops self_comparison srv
       = (Some (writeJSON 200 (BResult (Runs sample_run b'))), srv)
     \<and> identity_fields (Runs sample_run b') = identity_fields (Runs sample_run sample_run)"
proof -
  let ?srv = "api_New sample_store \<lparr>WriteToken = [], ReadToken = []\<rparr>"
  have st: "mem_inv (srv_store ?srv)" "mem_Get ''run_1'' (srv_store ?srv) = Inr sample_run"
    by (simp_all add: api_New_eq sample_store_inv) (simp add: sample_store_def mem_Get_def)
  have q: "q_get (rq_Query self_comparison) ''a'' = ''run_1''" "q_get (rq_Query self_comparison) ''b'' = ''run_1''"
    by (simp_all add: q_get_def self_comparison_def fmlookup_of_list)
  have "(server_step mem_ops)\<^sup>*\<^sup>* ?srv (snd (serve sample_env mem_ops sample_request ?srv))"
    by (intro r_into_rtranclp server_step.request)
  from compare_interleaved [OF st(1) this q _ _ st(2) st(2)] show ?thesis by (auto simp: Let_def)
qed

section \<open>Limits\<close>

text \<open>No answer to \<open>GET /v1/runs\<close> holds more than \<open>MaxListLimit\<close> runs, whatever the request asks for.\<close>

lemma list_page_bounded:
  assumes "mem_inv (srv_store srv)" "fst (api_list env mem_ops rq srv) = Some rs" "rs_Body rs = BPage xs num limit nxt"
  shows "int (length xs) \<le> MaxListLimit \<and> num = int (length xs)"
proof -
  obtain qry where q: "list_query env (rq_Query rq) = Inr qry"
    using assms(2,3) by (cases "list_query env (rq_Query rq)") (auto simp: api_list_def writeErr_def)
  obtain ys where ys: "mem_List qry (srv_store srv) = Inr (paginate ys (q_Limit qry))"
    using mem.list_law [OF assms(1) TrueI] by blast
  note list_query_limit [OF q]
  moreover have "int (length (pg_Runs (paginate ys l))) \<le> l" if "1 \<le> l" for l
    using that by (auto simp: paginate_def Let_def)
  moreover have "xs = pg_Runs (paginate ys (q_Limit qry))" "num = int (length xs)"
    using assms(2,3) api_list_page [OF q, of mem_ops srv] ys by auto
  ultimately show ?thesis by force
qed

section \<open>Requests no route takes\<close>

lemma allowed_methods:
  "set (foldl (unmatched_step path) [] routes) = {m. \<exists>rt \<in> set routes. rt_Method rt = m \<and> mux_Handler m path \<noteq> None
     \<and> pattern (the (mux_Handler m path)) = pattern rt}"
proof -
  have "set (foldl (unmatched_step path) acc rts) = set acc \<union> {m. \<exists>rt \<in> set rts. rt_Method rt = m \<and> mux_Handler m path \<noteq> None
     \<and> pattern (the (mux_Handler m path)) = pattern rt}" for acc rts
    by (induction rts arbitrary: acc) (auto simp: unmatched_step_def split: option.splits)
  from this [of "[]" routes] show ?thesis by simp
qed

text \<open>A request no route takes is answered 405 exactly when its path exists under some other method.\<close>

lemma unmatched_status:
  assumes "mux_Handler (rq_Method rq) (rq_Path rq) = None"
  shows "\<exists>rs. fst (unmatched env ops rq srv) = Some rs \<and>
    rs_Status rs = (if \<exists>rt \<in> set routes. segs_match (rt_Segs rt) (rq_Path rq) then 405 else 404)"
proof -
  let ?allowed = "foldl (unmatched_step (rq_Path rq)) [] routes"
  have "?allowed = [] \<longleftrightarrow> \<not> (\<exists>rt \<in> set routes. segs_match (rt_Segs rt) (rq_Path rq))"
  proof -
    have "rt_Method rt \<in> set ?allowed" if rt: "rt \<in> set routes" "segs_match (rt_Segs rt) (rq_Path rq)" for rt
    proof -
      have "route_match (rt_Method rt) (rq_Path rq) rt" using rt(2) by (simp add: route_match_def method_match_def)
      then obtain rt' where rt': "mux_Handler (rt_Method rt) (rq_Path rq) = Some rt'"
        using rt(1) unfolding mux_Handler_def by (cases "List.find (route_match (rt_Method rt) (rq_Path rq)) routes") (auto simp: find_None_iff)
      have "rt' \<in> set routes" "method_match (rt_Method rt') (rt_Method rt)" using mux_Handler_Some [OF rt'] by (auto simp: route_match_def)
      moreover have "rt_Method rt \<noteq> ''HEAD''" using rt(1) by (auto simp: routes_def)
      ultimately have "rt_Method rt' = rt_Method rt" by (simp add: method_match_def)
      with rt' \<open>rt' \<in> set routes\<close> show ?thesis unfolding allowed_methods by force
    qed
    moreover have "\<exists>rt \<in> set routes. segs_match (rt_Segs rt) (rq_Path rq)" if "m \<in> set ?allowed" for m
      using that unfolding allowed_methods by (auto dest!: mux_Handler_Some simp: route_match_def)
    ultimately show ?thesis by (metis empty_iff list.set(1) neq_Nil_conv list.set_intros(1))
  qed
  then show ?thesis by (auto simp: unmatched_def Let_def writeErr_def set_header_def)
qed

section \<open>Answers that surprise\<close>

text \<open>
  \<open>WithAuth\<close> is documented to protect everything but \<open>/healthz\<close>; the metrics, which name every project,
  and the readiness probe are open as well.
\<close>

lemma metrics_without_token:
  assumes "rq_Method rq = ''GET''" "rq_Path rq = [''metrics'']"
  shows "rs_Status (fst (serve env ops rq srv)) = 200
    \<and> rs_Body (fst (serve env ops rq srv)) = BMetrics (srv_metrics srv) (runsGauge ops (srv_store srv))"
  using assms by (simp add: serve_def routing api_serveMetrics_def Let_def set_header_def)

text \<open>
  A failure of the storage engine while recording is answered like invalid input, with 400, although
  reads answer 500 for it.
\<close>

lemma record_backend_failure:
  assumes "requireJSON env rq = None" "rq_RunBody rq = Inr r0" "so_Record ops (stamp env r0) (srv_store srv) = (Some (Backend m), st)"
  shows "\<exists>rs. fst (api_record env ops rq srv) = Some rs \<and> rs_Status rs = 400 \<and> rs_Body rs = BErr ''bad_request'' (StoreFailed (Backend m))"
  using assms by (simp add: api_record_def Let_def errors_Is_def writeErr_def)

end
