(* ===== verification/Sql.thy ===== *)
theory Sql
  imports Store "HOL-Library.Product_Lexorder"
begin

text \<open>
  The interface of \<open>internal/store/duckdb.go\<close> to its database. The engine (go-duckdb) is not part
  of the repository: it is a parameter, the record \<open>engine\<close> of the calls the program makes. The
  locale \<open>sql_engine\<close> states what the program relies on: transactions are atomic, and each of
  the statements the program sends has its SQL meaning, written out on relational tables. The
  tables themselves, with those meanings as an executable engine, are an instance.
\<close>

section \<open>Rows and statements\<close>

record run_row =
  row_run_id :: string
  row_project :: string
  row_git_commit :: string
  row_git_dirty :: bool
  row_config_hash :: string
  row_dataset_version :: string
  row_model_version :: string
  row_seed :: "64 word"
  row_fingerprint :: string
  row_fingerprint_version :: int
  row_host :: string
  row_device :: string
  row_framework_version :: string
  row_submitter_claim :: string
  row_job_id :: string
  row_capture_declared :: bool
  row_capture_client :: string
  row_status :: string
  row_started_at_ns :: "64 word"
  row_ended_at_ns :: "64 word option"
  row_checkpoint_uri :: string

text \<open>The writing statements, with their bound arguments.\<close>

datatype statement =
    InsertRun run_row
  | InsertParam string string string
  | InsertMetric string string float64
  | InsertAttempted string string
  | UpdateRun string status "64 word option" string string string string string string
  | UpsertMetric string string float64

text \<open>The conditions of a \<open>WHERE\<close> clause on \<open>runs\<close>; timestamps are \<open>BIGINT\<close>, that is signed.\<close>

datatype column = ColProject | ColGitCommit | ColFingerprint | ColStatus | ColDevice | ColSubmitterClaim
  | ColJobID | ColCaptureClient

datatype condition =
    ColEq column string
  | StartedGe "64 word"
  | StartedLt "64 word"
  | AfterKey "64 word" "64 word" string

fun col_value :: "column \<Rightarrow> run_row \<Rightarrow> string" where
  "col_value ColProject row = row_project row"
| "col_value ColGitCommit row = row_git_commit row"
| "col_value ColFingerprint row = row_fingerprint row"
| "col_value ColStatus row = row_status row"
| "col_value ColDevice row = row_device row"
| "col_value ColSubmitterClaim row = row_submitter_claim row"
| "col_value ColJobID row = row_job_id row"
| "col_value ColCaptureClient row = row_capture_client row"

fun holds :: "condition \<Rightarrow> run_row \<Rightarrow> bool" where
  "holds (ColEq c v) row = (col_value c row = v)"
| "holds (StartedGe w) row = (sint (row_started_at_ns row) \<ge> sint w)"
| "holds (StartedLt w) row = (sint (row_started_at_ns row) < sint w)"
| "holds (AfterKey w w' i) row =
     (sint (row_started_at_ns row) < sint w \<or> (row_started_at_ns row = w' \<and> row_run_id row > i))"

section \<open>Relational tables\<close>

text \<open>A primary key makes a table a finite map from its key columns.\<close>

record tables =
  t_runs :: "(string, run_row) fmap"
  t_params :: "(string \<times> string, string) fmap"
  t_metrics :: "(string \<times> string, float64) fmap"
  t_attempted :: "(string \<times> string) fset"

definition empty_tables :: tables where
  "empty_tables = \<lparr>t_runs = fmempty, t_params = fmempty, t_metrics = fmempty, t_attempted = {||}\<rparr>"

definition int32 :: "int \<Rightarrow> bool" where
  "int32 v \<longleftrightarrow> - (2 ^ 31) \<le> v \<and> v < 2 ^ 31"

text \<open>
  The effect of a statement; \<^term>\<open>None\<close> is a violated constraint: a duplicate primary key, a missing
  referenced run, or a value that does not fit its \<open>INTEGER\<close> column.
\<close>

fun tab_exec :: "statement \<Rightarrow> tables \<Rightarrow> tables option" where
  "tab_exec (InsertRun row) T =
     (if row_run_id row |\<in>| fmdom (t_runs T) \<or> \<not> int32 (row_fingerprint_version row) then None
      else Some (T\<lparr>t_runs := fmupd (row_run_id row) row (t_runs T)\<rparr>))"
| "tab_exec (InsertParam i k v) T =
     (if i |\<notin>| fmdom (t_runs T) \<or> (i, k) |\<in>| fmdom (t_params T) then None
      else Some (T\<lparr>t_params := fmupd (i, k) v (t_params T)\<rparr>))"
| "tab_exec (InsertMetric i k v) T =
     (if i |\<notin>| fmdom (t_runs T) \<or> (i, k) |\<in>| fmdom (t_metrics T) then None
      else Some (T\<lparr>t_metrics := fmupd (i, k) v (t_metrics T)\<rparr>))"
| "tab_exec (InsertAttempted i f) T =
     (if i |\<notin>| fmdom (t_runs T) \<or> (i, f) |\<in>| t_attempted T then None
      else Some (T\<lparr>t_attempted := finsert (i, f) (t_attempted T)\<rparr>))"
| "tab_exec (UpdateRun i st ended uri host device fw claim job) T =
     (case fmlookup (t_runs T) i of
        None \<Rightarrow> Some T
      | Some row \<Rightarrow> Some (T\<lparr>t_runs := fmupd i (row\<lparr>row_status := st, row_ended_at_ns := ended,
          row_checkpoint_uri := uri, row_host := host, row_device := device, row_framework_version := fw,
          row_submitter_claim := claim, row_job_id := job\<rparr>) (t_runs T)\<rparr>))"
| "tab_exec (UpsertMetric i k v) T =
     (if i |\<notin>| fmdom (t_runs T) then None
      else Some (T\<lparr>t_metrics := fmupd (i, k) v (t_metrics T)\<rparr>))"

text \<open>The second key components of the rows of one run, in order.\<close>

definition keys_of :: "(string \<times> string) fset \<Rightarrow> string \<Rightarrow> string list" where
  "keys_of A i = map snd (filter (\<lambda>p. fst p = i) (sorted_list_of_fset A))"

definition row_key :: "run_row \<Rightarrow> int \<times> string" where
  "row_key row = (- sint (row_started_at_ns row), row_run_id row)"

section \<open>The engine\<close>

record ('db, 'tx) engine =
  eng_begin :: "'db \<Rightarrow> string + 'tx"
  eng_exec :: "statement \<Rightarrow> 'tx \<Rightarrow> string + 'tx"
  eng_commit :: "'tx \<Rightarrow> string + 'db"
  eng_select_run :: "string \<Rightarrow> 'db \<Rightarrow> string + run_row option"
  eng_select_params :: "string \<Rightarrow> 'db \<Rightarrow> string + (string \<times> string) list"
  eng_select_metrics :: "string \<Rightarrow> 'db \<Rightarrow> string + (string \<times> float64) list"
  eng_select_attempted :: "string \<Rightarrow> 'db \<Rightarrow> string + string list"
  eng_select_runs :: "condition list \<Rightarrow> int option \<Rightarrow> 'db \<Rightarrow> string + run_row list"
  eng_params_in :: "string list \<Rightarrow> 'db \<Rightarrow> string + (string \<times> string \<times> string) list"
  eng_metrics_in :: "string list \<Rightarrow> 'db \<Rightarrow> string + (string \<times> string \<times> float64) list"
  eng_attempted_in :: "string list \<Rightarrow> 'db \<Rightarrow> string + (string \<times> string) list"

text \<open>\<open>rel\<close> and \<open>relx\<close> read a database and the uncommitted state of a transaction as tables.\<close>

locale sql_engine =
  fixes eng :: "('db, 'tx) engine"
    and rel :: "'db \<Rightarrow> tables"
    and relx :: "'tx \<Rightarrow> tables"
  assumes begin_law: "\<exists>tx. eng_begin eng db = Inr tx \<and> relx tx = rel db"
    and exec_ok: "tab_exec s (relx tx) = Some T \<Longrightarrow> \<exists>tx'. eng_exec eng s tx = Inr tx' \<and> relx tx' = T"
    and exec_violation: "tab_exec s (relx tx) = None \<Longrightarrow> \<exists>m. eng_exec eng s tx = Inl m"
    and commit_law: "\<exists>db. eng_commit eng tx = Inr db \<and> rel db = relx tx"
    and select_run_law: "eng_select_run eng i db = Inr (fmlookup (t_runs (rel db)) i)"
    and select_params_law: "\<exists>rows. eng_select_params eng i db = Inr rows \<and> distinct rows \<and>
      set rows = {(k, v). fmlookup (t_params (rel db)) (i, k) = Some v}"
    and select_metrics_law: "\<exists>rows. eng_select_metrics eng i db = Inr rows \<and> distinct rows \<and>
      set rows = {(k, v). fmlookup (t_metrics (rel db)) (i, k) = Some v}"
    and select_attempted_law: "eng_select_attempted eng i db = Inr (keys_of (t_attempted (rel db)) i)"
    and select_runs_law: "(\<And>n. lmt = Some n \<Longrightarrow> 0 \<le> n) \<Longrightarrow> \<exists>rows. eng_select_runs eng conds lmt db =
        Inr (case lmt of None \<Rightarrow> rows | Some n \<Rightarrow> take (nat n) rows) \<and>
      sorted_wrt (\<lambda>a b. row_key a < row_key b) rows \<and>
      set rows = {row. fmlookup (t_runs (rel db)) (row_run_id row) = Some row \<and> list_all (\<lambda>c. holds c row) conds}"
    and params_in_law: "\<exists>rows. eng_params_in eng ids db = Inr rows \<and> distinct rows \<and>
      set rows = {(i, k, v). i \<in> set ids \<and> fmlookup (t_params (rel db)) (i, k) = Some v}"
    and metrics_in_law: "\<exists>rows. eng_metrics_in eng ids db = Inr rows \<and> distinct rows \<and>
      set rows = {(i, k, v). i \<in> set ids \<and> fmlookup (t_metrics (rel db)) (i, k) = Some v}"
    and attempted_in_law: "\<exists>rows. eng_attempted_in eng ids db = Inr rows \<and> distinct rows \<and> sorted (map snd rows) \<and>
      set rows = {(i, f). i \<in> set ids \<and> (i, f) |\<in>| t_attempted (rel db)}"

section \<open>The tables as an engine\<close>

text \<open>Every key in the map of runs is the id of its row; statements keep it so.\<close>

definition rows_of :: "(string \<times> string, 'v) fmap \<Rightarrow> string \<Rightarrow> (string \<times> 'v) list" where
  "rows_of t i = map (\<lambda>k. (k, the (fmlookup t (i, k)))) (keys_of (fmdom t) i)"

definition rows_in :: "(string \<times> string, 'v) fmap \<Rightarrow> string list \<Rightarrow> (string \<times> string \<times> 'v) list" where
  "rows_in t ids = map (\<lambda>(i, k). (i, k, the (fmlookup t (i, k)))) (filter (\<lambda>p. fst p \<in> set ids) (sorted_list_of_fset (fmdom t)))"

definition attempted_rows :: "(string \<times> string) fset \<Rightarrow> string list \<Rightarrow> (string \<times> string) list" where
  "attempted_rows A ids =
     map (\<lambda>(f, i). (i, f)) (sort (map (\<lambda>(i, f). (f, i)) (filter (\<lambda>p. fst p \<in> set ids) (sorted_list_of_fset A))))"

definition run_rows :: "condition list \<Rightarrow> (string, run_row) fmap \<Rightarrow> run_row list" where
  "run_rows conds t =
     filter (\<lambda>row. list_all (\<lambda>c. holds c row) conds)
       (sort_key row_key (map (\<lambda>i. the (fmlookup t i))
          (filter (\<lambda>i. row_run_id (the (fmlookup t i)) = i) (sorted_list_of_fset (fmdom t)))))"

definition tab_engine :: "(tables, tables) engine" where
  "tab_engine =
     \<lparr>eng_begin = (\<lambda>T. Inr T),
      eng_exec = (\<lambda>s T. case tab_exec s T of None \<Rightarrow> Inl ''constraint violated'' | Some T' \<Rightarrow> Inr T'),
      eng_commit = (\<lambda>T. Inr T),
      eng_select_run = (\<lambda>i T. Inr (fmlookup (t_runs T) i)),
      eng_select_params = (\<lambda>i T. Inr (rows_of (t_params T) i)),
      eng_select_metrics = (\<lambda>i T. Inr (rows_of (t_metrics T) i)),
      eng_select_attempted = (\<lambda>i T. Inr (keys_of (t_attempted T) i)),
      eng_select_runs = (\<lambda>conds lmt T. Inr (let rows = run_rows conds (t_runs T) in case lmt of None \<Rightarrow> rows | Some n \<Rightarrow> take (nat n) rows)),
      eng_params_in = (\<lambda>ids T. Inr (rows_in (t_params T) ids)),
      eng_metrics_in = (\<lambda>ids T. Inr (rows_in (t_metrics T) ids)),
      eng_attempted_in = (\<lambda>ids T. Inr (attempted_rows (t_attempted T) ids))\<rparr>"

lemma set_keys_of: "k \<in> set (keys_of A i) \<longleftrightarrow> (i, k) |\<in>| A"
  by (force simp: keys_of_def)

lemma distinct_keys_of: "distinct (keys_of A i)"
  unfolding keys_of_def distinct_map by (auto simp: inj_on_def)

lemma sorted_keys_of: "sorted (keys_of A i)"
proof -
  have "sorted_wrt (\<le>) (filter (\<lambda>p. fst p = i) (sorted_list_of_fset A))" by (simp add: sorted_wrt_filter)
  then have "sorted_wrt (\<lambda>p q. snd p \<le> snd q) (filter (\<lambda>p. fst p = i) (sorted_list_of_fset A))"
    by (rule sorted_wrt_mono_rel [rotated]) auto
  then show ?thesis by (simp add: keys_of_def sorted_map)
qed

lemma rows_of_props: "distinct (rows_of t i)" "set (rows_of t i) = {(k, v). fmlookup t (i, k) = Some v}"
  unfolding rows_of_def using distinct_keys_of [of "fmdom t" i]
  by (auto simp: distinct_map inj_on_def set_keys_of fmlookup_dom_iff image_iff)

lemma rows_in_props: "distinct (rows_in t ids)" "set (rows_in t ids) = {(i, k, v). i \<in> set ids \<and> fmlookup t (i, k) = Some v}"
  unfolding rows_in_def by (auto simp: distinct_map inj_on_def fmlookup_dom_iff image_iff)

lemma attempted_rows_props:
  "distinct (attempted_rows A ids)" "sorted (map snd (attempted_rows A ids))"
  "set (attempted_rows A ids) = {(i, f). i \<in> set ids \<and> (i, f) |\<in>| A}"
proof -
  let ?xs = "sort (map (\<lambda>(i, f). (f, i)) (filter (\<lambda>p. fst p \<in> set ids) (sorted_list_of_fset A)))"
  have "distinct ?xs" by (auto simp: distinct_map inj_on_def)
  then show "distinct (attempted_rows A ids)" by (auto simp: attempted_rows_def distinct_map inj_on_def)
  have "sorted_wrt (\<lambda>p q. fst p \<le> fst q) ?xs"
    by (rule sorted_wrt_mono_rel [of _ "(\<le>)"]) auto
  then show "sorted (map snd (attempted_rows A ids))"
    by (simp add: attempted_rows_def sorted_map case_prod_beta)
  show "set (attempted_rows A ids) = {(i, f). i \<in> set ids \<and> (i, f) |\<in>| A}"
    by (force simp: attempted_rows_def)
qed

lemma run_rows_props:
  "sorted_wrt (\<lambda>a b. row_key a < row_key b) (run_rows conds t)"
  "set (run_rows conds t) = {row. fmlookup t (row_run_id row) = Some row \<and> list_all (\<lambda>c. holds c row) conds}"
proof -
  let ?ids = "filter (\<lambda>i. row_run_id (the (fmlookup t i)) = i) (sorted_list_of_fset (fmdom t))"
  let ?raw = "map (\<lambda>i. the (fmlookup t i)) ?ids"
  have set: "set ?raw = {row. fmlookup t (row_run_id row) = Some row}"
    by (auto simp: fmlookup_dom_iff image_iff intro!: exI [of _ "row_run_id _"])
  have "map row_run_id ?raw = ?ids" unfolding map_map by (rule map_idI) auto
  then have "distinct (map row_run_id ?raw)" by simp
  then have "distinct (map row_key (sort_key row_key ?raw))"
    unfolding distinct_map set_sort distinct_sort by (auto simp: inj_on_def row_key_def)
  then have "sorted_wrt (<) (map row_key (sort_key row_key ?raw))"
    unfolding strict_sorted_iff by (simp only: sorted_sort_key)
  then have "sorted_wrt (\<lambda>a b. row_key a < row_key b) (sort_key row_key ?raw)" by (simp add: sorted_wrt_map)
  then show "sorted_wrt (\<lambda>a b. row_key a < row_key b) (run_rows conds t)"
    unfolding run_rows_def by (rule sorted_wrt_filter)
  show "set (run_rows conds t) = {row. fmlookup t (row_run_id row) = Some row \<and> list_all (\<lambda>c. holds c row) conds}"
    unfolding run_rows_def using set by auto
qed

interpretation tab: sql_engine tab_engine "\<lambda>T. T" "\<lambda>T. T"
  by unfold_locales
    (auto simp: tab_engine_def Let_def rows_of_props rows_in_props attempted_rows_props run_rows_props
      intro!: exI [of _ "run_rows _ _"])

end
