(* ===== verification/Duckdb.thy ===== *)
theory Duckdb
  imports Sql Memory
begin

text \<open>
  The durable backend, \<open>internal/store/duckdb.go\<close>, over any engine. \<open>Record\<close> and \<open>Update\<close> hold the
  mutex, so each is one step; a deferred \<open>Rollback\<close> means that on every early return the database
  is the one from before the transaction. An error of the engine is \<open>Backend\<close>.
\<close>

section \<open>Conversions\<close>

definition nsToTime :: "64 word \<Rightarrow> time" where
  "nsToTime ns = unix_utc ns"

definition endedAtEqual :: "time option \<Rightarrow> time option \<Rightarrow> bool" where
  "endedAtEqual a b = (if a = None \<or> b = None then a = None \<and> b = None else Equal (the a) (the b))"

definition runsEqual :: "run \<Rightarrow> run \<Rightarrow> bool" where
  "runsEqual a b =
     (if \<not> Equal (StartedAt a) (StartedAt b) \<or> \<not> endedAtEqual (EndedAt a) (EndedAt b) then False
      else DeepEqual (a\<lparr>StartedAt := zero_time, EndedAt := None\<rparr>) (b\<lparr>StartedAt := zero_time, EndedAt := None\<rparr>))"

definition captureColumns :: "capture_declaration option \<Rightarrow> bool \<times> string" where
  "captureColumns c = (case c of None \<Rightarrow> (False, []) | Some d \<Rightarrow> (True, Client d))"

text \<open>The bound arguments of the \<open>INSERT INTO runs\<close>.\<close>

definition run_values :: "run \<Rightarrow> run_row" where
  "run_values r =
     (case captureColumns (Capture r) of (captureDeclared, captureClient) \<Rightarrow>
        \<lparr>row_run_id = RunID r, row_project = Project r, row_git_commit = GitCommit r, row_git_dirty = GitDirty r,
         row_config_hash = ConfigHash r, row_dataset_version = DatasetVersion r, row_model_version = ModelVersion r,
         row_seed = Seed r, row_fingerprint = Fingerprint r, row_fingerprint_version = FingerprintVersion r,
         row_host = Host r, row_device = Device r, row_framework_version = FrameworkVersion r,
         row_submitter_claim = SubmitterClaim r, row_job_id = JobID r, row_capture_declared = captureDeclared,
         row_capture_client = captureClient, row_status = Status r, row_started_at_ns = UnixNano (StartedAt r),
         row_ended_at_ns = map_option UnixNano (EndedAt r), row_checkpoint_uri = CheckpointURI r\<rparr>)"

text \<open>The columns a row fills in, parameters, metrics and attempted fields left out.\<close>

definition scan_row :: "run_row \<Rightarrow> run" where
  "scan_row row =
     \<lparr>Project = row_project row, GitCommit = row_git_commit row, GitDirty = row_git_dirty row,
      ConfigHash = row_config_hash row, DatasetVersion = row_dataset_version row, ModelVersion = row_model_version row,
      Seed = row_seed row, Params = None, RunID = row_run_id row, Fingerprint = row_fingerprint row,
      FingerprintVersion = row_fingerprint_version row, Host = row_host row, Device = row_device row,
      FrameworkVersion = row_framework_version row, SubmitterClaim = row_submitter_claim row, JobID = row_job_id row,
      Status = row_status row, StartedAt = nsToTime (row_started_at_ns row),
      EndedAt = map_option nsToTime (row_ended_at_ns row), CheckpointURI = row_checkpoint_uri row,
      Metrics = None, Capture = None\<rparr>"

section \<open>Reading one run\<close>

definition scanRun :: "run_row option \<Rightarrow> store_error + run \<times> bool \<times> string" where
  "scanRun row =
     (case row of
        None \<Rightarrow> Inl ErrNotFound
      | Some w \<Rightarrow> Inr (scan_row w, row_capture_declared w, row_capture_client w))"

text \<open>The map stays nil until the first row.\<close>

definition put_kv :: "'v gomap \<Rightarrow> string \<times> 'v \<Rightarrow> 'v gomap" where
  "put_kv out kv = (case kv of (k, v) \<Rightarrow> Some (fmupd k v (fm out)))"

definition loadKV :: "(string + (string \<times> string) list) \<Rightarrow> store_error + string gomap" where
  "loadKV res = (case res of Inl m \<Rightarrow> Inl (Backend m) | Inr rows \<Rightarrow> Inr (foldl put_kv None rows))"

definition loadKVFloat :: "(string + (string \<times> float64) list) \<Rightarrow> store_error + float64 gomap" where
  "loadKVFloat res = (case res of Inl m \<Rightarrow> Inl (Backend m) | Inr rows \<Rightarrow> Inr (foldl put_kv None rows))"

text \<open>\<open>append\<close> to a nil slice; without rows it stays nil.\<close>

definition loadCaptureAttempted :: "(string + string list) \<Rightarrow> store_error + string list option" where
  "loadCaptureAttempted res =
     (case res of Inl m \<Rightarrow> Inl (Backend m) | Inr rows \<Rightarrow> Inr (if rows = [] then None else Some rows))"

text \<open>
  A read is several statements. Inside \<open>Record\<close> and \<open>Update\<close> the mutex keeps writers out between them;
  \<open>Get\<close> and \<open>List\<close> take no lock, so each of their statements may see a later database: the row is read
  from \<open>db\<close>, the parameters from \<open>dbp\<close>, the metrics from \<open>dbm\<close>, the attempted fields from \<open>dba\<close>.
\<close>

definition duck_get_at :: "('db, 'tx) engine \<Rightarrow> string \<Rightarrow> 'db \<Rightarrow> 'db \<Rightarrow> 'db \<Rightarrow> 'db \<Rightarrow> store_error + run" where
  "duck_get_at eng i db dbp dbm dba =
     (case eng_select_run eng i db of
        Inl m \<Rightarrow> Inl (Backend m)
      | Inr w \<Rightarrow>
        (case scanRun w of
           Inl e \<Rightarrow> Inl e
         | Inr (r, captureDeclared, captureClient) \<Rightarrow>
           (case loadKV (eng_select_params eng i dbp) of
              Inl e \<Rightarrow> Inl e
            | Inr params \<Rightarrow>
              (case loadKVFloat (eng_select_metrics eng i dbm) of
                 Inl e \<Rightarrow> Inl e
               | Inr metrics \<Rightarrow>
                 (let r' = r\<lparr>Params := params, Metrics := metrics\<rparr>
                  in if captureDeclared
                     then case loadCaptureAttempted (eng_select_attempted eng i dba) of
                            Inl e \<Rightarrow> Inl e
                          | Inr attempted \<Rightarrow>
                              Inr (r'\<lparr>Capture := Some \<lparr>Client = captureClient, Attempted = attempted\<rparr>\<rparr>)
                     else Inr r')))))"

definition duck_get :: "('db, 'tx) engine \<Rightarrow> string \<Rightarrow> 'db \<Rightarrow> store_error + run" where
  "duck_get eng i db = duck_get_at eng i db db db db"

definition duck_Get :: "('db, 'tx) engine \<Rightarrow> string \<Rightarrow> 'db \<Rightarrow> store_error + run" where
  "duck_Get eng i db = duck_get eng i db"

section \<open>Writing\<close>

fun exec_all :: "('db, 'tx) engine \<Rightarrow> statement list \<Rightarrow> 'tx \<Rightarrow> string + 'tx" where
  "exec_all eng [] tx = Inr tx"
| "exec_all eng (s # ss) tx = (case eng_exec eng s tx of Inl m \<Rightarrow> Inl m | Inr tx' \<Rightarrow> exec_all eng ss tx')"

text \<open>One transaction: the statements in order, then the commit.\<close>

definition in_tx :: "('db, 'tx) engine \<Rightarrow> statement list \<Rightarrow> 'db \<Rightarrow> string + 'db" where
  "in_tx eng ss db =
     (case eng_begin eng db of
        Inl m \<Rightarrow> Inl m
      | Inr tx \<Rightarrow> (case exec_all eng ss tx of Inl m \<Rightarrow> Inl m | Inr tx' \<Rightarrow> eng_commit eng tx'))"

text \<open>
  The statements of \<open>Record\<close>. The rows of a map are inserted in the order Go visits it; the model
  takes the sorted one, and the tables do not depend on it.
\<close>

definition record_statements :: "run \<Rightarrow> statement list" where
  "record_statements r =
     InsertRun (run_values r)
     # map (\<lambda>k. InsertParam (RunID r) k (map_index (Params r) k)) (map_keys_sorted (Params r))
     @ map (\<lambda>k. InsertMetric (RunID r) k (the (map_get (Metrics r) k))) (map_keys_sorted (Metrics r))
     @ (case Capture r of None \<Rightarrow> [] | Some c \<Rightarrow> map (InsertAttempted (RunID r)) (slice (Attempted c)))"

definition duck_Record :: "('db, 'tx) engine \<Rightarrow> run \<Rightarrow> 'db \<Rightarrow> store_error option \<times> 'db" where
  "duck_Record eng r0 db =
     (case Validate r0 of
        Some e \<Rightarrow> (Some (Invalid e), db)
      | None \<Rightarrow>
        (let r = NormalizeCapture r0
         in case duck_get eng (RunID r) db of
              Inr existing \<Rightarrow> (if runsEqual existing r then None else Some ErrConflict, db)
            | Inl e \<Rightarrow>
                if \<not> errors_Is e ErrNotFound then (Some e, db)
                else case in_tx eng (record_statements r) db of
                       Inl m \<Rightarrow> (Some (Backend m), db)
                     | Inr db' \<Rightarrow> (None, db')))"

definition update_statements :: "string \<Rightarrow> run \<Rightarrow> patch \<Rightarrow> statement list" where
  "update_statements i u p =
     UpdateRun i (Status u) (map_option UnixNano (EndedAt u)) (CheckpointURI u) (Host u) (Device u)
       (FrameworkVersion u) (SubmitterClaim u) (JobID u)
     # map (\<lambda>k. UpsertMetric i k (the (map_get (p_Metrics p) k))) (map_keys_sorted (p_Metrics p))"

definition duck_Update :: "('db, 'tx) engine \<Rightarrow> time \<Rightarrow> string \<Rightarrow> patch \<Rightarrow> 'db \<Rightarrow> (store_error + run) \<times> 'db" where
  "duck_Update eng now i p db =
     (case duck_get eng i db of
        Inl e \<Rightarrow> (Inl e, db)
      | Inr existing \<Rightarrow>
        (case applyPatch now existing p of
           Inl e \<Rightarrow> (Inl e, db)
         | Inr updated \<Rightarrow>
             (case in_tx eng (update_statements i updated p) db of
                Inl m \<Rightarrow> (Inl (Backend m), db)
              | Inr db' \<Rightarrow> (Inr updated, db'))))"

section \<open>Listing\<close>

definition where_eq :: "column \<Rightarrow> string \<Rightarrow> condition list" where
  "where_eq col val = (if val \<noteq> [] then [ColEq col val] else [])"

definition conditions :: "query \<Rightarrow> condition list" where
  "conditions q =
     where_eq ColProject (q_Project q) @ where_eq ColGitCommit (q_GitCommit q)
     @ where_eq ColFingerprint (q_Fingerprint q) @ where_eq ColStatus (q_Status q)
     @ where_eq ColDevice (q_Device q) @ where_eq ColSubmitterClaim (q_SubmitterClaim q)
     @ where_eq ColJobID (q_JobID q) @ where_eq ColCaptureClient (q_CaptureClient q)
     @ (if \<not> IsZero (q_Since q) then [StartedGe (UnixNano (q_Since q))] else [])
     @ (if \<not> IsZero (q_Until q) then [StartedLt (UnixNano (q_Until q))] else [])
     @ (case q_After q of
          None \<Rightarrow> []
        | Some c \<Rightarrow> [AfterKey (UnixNano (c_StartedAt c)) (UnixNano (c_StartedAt c)) (c_RunID c)])"

text \<open>The loop over the rows: the attempted fields come later.\<close>

definition list_row :: "run_row \<Rightarrow> run" where
  "list_row row =
     (let r = scan_row row
      in if row_capture_declared row
         then r\<lparr>Capture := Some \<lparr>Client = row_capture_client row, Attempted = None\<rparr>\<rparr> else r)"

text \<open>\<open>byID[id]\<close>, the last position of a run id in the page; a missing key reads 0.\<close>

definition by_id :: "run list \<Rightarrow> string \<Rightarrow> nat" where
  "by_id rs i = (case List.find (\<lambda>j. RunID (rs ! j) = i) (rev [0 ..< length rs]) of None \<Rightarrow> 0 | Some j \<Rightarrow> j)"

definition put_param :: "(string \<Rightarrow> nat) \<Rightarrow> run list \<Rightarrow> string \<times> string \<times> string \<Rightarrow> run list" where
  "put_param byID rs row =
     (case row of (i, k, v) \<Rightarrow>
        (let r = rs ! byID i in rs[byID i := r\<lparr>Params := put_kv (Params r) (k, v)\<rparr>]))"

definition put_metric :: "(string \<Rightarrow> nat) \<Rightarrow> run list \<Rightarrow> string \<times> string \<times> float64 \<Rightarrow> run list" where
  "put_metric byID rs row =
     (case row of (i, k, v) \<Rightarrow>
        (let r = rs ! byID i in rs[byID i := r\<lparr>Metrics := put_kv (Metrics r) (k, v)\<rparr>]))"

definition put_attempted :: "(string \<Rightarrow> nat) \<Rightarrow> run list \<Rightarrow> string \<times> string \<Rightarrow> run list" where
  "put_attempted byID rs row =
     (case row of (i, f) \<Rightarrow>
        (let r = rs ! byID i
         in case Capture r of
              None \<Rightarrow> rs
            | Some c \<Rightarrow> rs[byID i := r\<lparr>Capture := Some (c\<lparr>Attempted := Some (slice (Attempted c) @ [f])\<rparr>)\<rparr>]))"

definition hydrate :: "('db, 'tx) engine \<Rightarrow> run list \<Rightarrow> 'db \<Rightarrow> 'db \<Rightarrow> string + run list" where
  "hydrate eng rs dbp dbm =
     (if rs = [] then Inr rs
      else case eng_params_in eng (map RunID rs) dbp of
        Inl m \<Rightarrow> Inl m
      | Inr prows \<Rightarrow>
          (let rs1 = foldl (put_param (by_id rs)) rs prows
           in case eng_metrics_in eng (map RunID rs) dbm of
                Inl m \<Rightarrow> Inl m
              | Inr mrows \<Rightarrow> Inr (foldl (put_metric (by_id rs)) rs1 mrows)))"

definition hydrateCaptureAttempted :: "('db, 'tx) engine \<Rightarrow> run list \<Rightarrow> 'db \<Rightarrow> string + run list" where
  "hydrateCaptureAttempted eng rs db =
     (if rs = [] then Inr rs
      else case eng_attempted_in eng (map RunID rs) db of
        Inl m \<Rightarrow> Inl m
      | Inr rows \<Rightarrow> Inr (foldl (put_attempted (by_id rs)) rs rows))"

text \<open>The extra row, when there is one, becomes the cursor of the next page.\<close>

definition trim_page :: "run list \<Rightarrow> int \<Rightarrow> run list \<times> cursor option" where
  "trim_page rs limit =
     (if 0 < limit \<and> int (length rs) > limit
      then let pg = take (nat limit) rs; l = last pg in (pg, Some \<lparr>c_StartedAt = StartedAt l, c_RunID = RunID l\<rparr>)
      else (rs, None))"

text \<open>\<open>query.Limit+1\<close>, on an \<open>int\<close> of 64 bits: past the largest one it wraps.\<close>

definition limit_plus_one :: "int \<Rightarrow> int" where
  "limit_plus_one n = sint (word_of_int (n + 1) :: 64 word)"

definition duck_List_at :: "('db, 'tx) engine \<Rightarrow> query \<Rightarrow> 'db \<Rightarrow> 'db \<Rightarrow> 'db \<Rightarrow> 'db \<Rightarrow> store_error + page" where
  "duck_List_at eng q db dbp dbm dba =
     (case eng_select_runs eng (conditions q) (if 0 < q_Limit q then Some (limit_plus_one (q_Limit q)) else None) db of
        Inl m \<Rightarrow> Inl (Backend m)
      | Inr rows \<Rightarrow>
        (case trim_page (map list_row rows) (q_Limit q) of (pg, nxt) \<Rightarrow>
            case hydrate eng pg dbp dbm of
              Inl m \<Rightarrow> Inl (Backend m)
            | Inr pg1 \<Rightarrow>
              (case hydrateCaptureAttempted eng pg1 dba of
                 Inl m \<Rightarrow> Inl (Backend m)
               | Inr pg2 \<Rightarrow> Inr \<lparr>pg_Runs = pg2, pg_Next = nxt\<rparr>)))"

text \<open>When nobody writes in between:\<close>

definition duck_List :: "('db, 'tx) engine \<Rightarrow> query \<Rightarrow> 'db \<Rightarrow> store_error + page" where
  "duck_List eng q db = duck_List_at eng q db db db db"

text \<open>The backend as a \<open>Store\<close>.\<close>

definition duck_ops :: "('db, 'tx) engine \<Rightarrow> 'db store_ops" where
  "duck_ops eng = \<lparr>so_Record = duck_Record eng, so_Update = duck_Update eng, so_Get = duck_Get eng, so_List = duck_List eng\<rparr>"

end
