(* ===== verification/Duckdb_Tables.thy ===== *)
theory Duckdb_Tables
  imports Duckdb
begin

text \<open>
  What the tables of the DuckDB backend mean: the run each row of \<open>runs\<close> stands for, the
  invariant that ties the four tables together, and the effect of the statement groups
  that \<open>Record\<close> and \<open>Update\<close> send.
\<close>

section \<open>Maps read from rows\<close>

lemma gomap_ext:
  assumes "m \<noteq> Some fmempty" "n \<noteq> Some fmempty" "\<And>k. map_get m k = map_get n k"
  shows "m = n"
proof -
  have "fm m = fm n" by (rule fmap_ext) (simp add: assms(3) flip: map_get_fm)
  with assms(1,2) show ?thesis by (cases m; cases n) auto
qed

lemma map_of_graph:
  assumes "set rows = {(k, v). f k = Some v}"
  shows "map_of rows = f"
proof
  fix k
  show "map_of rows k = f k"
  proof (cases "map_of rows k")
    case None
    then have "k \<notin> fst ` set rows" by (simp add: map_of_eq_None_iff)
    with assms None show ?thesis by (cases "f k") force+
  next
    case (Some v)
    with assms show ?thesis by (auto dest: map_of_SomeD)
  qed
qed

lemma put_kv_get:
  "map_get (foldl put_kv m rows) k = (case map_of (rev rows) k of None \<Rightarrow> map_get m k | Some v \<Rightarrow> Some v)"
proof (induction rows rule: rev_induct)
  case (snoc kv rows)
  then show ?case by (cases kv) (auto simp: put_kv_def map_get_fm)
qed simp

lemma put_kv_not_empty: "m \<noteq> Some fmempty \<Longrightarrow> foldl put_kv m rows \<noteq> Some fmempty"
proof (induction rows rule: rev_induct)
  case (snoc kv rows)
  have "fmupd k v (fm x) \<noteq> fmempty" for k v and x :: "'a gomap"
    by (metis fmempty_lookup fmupd_lookup option.distinct(1))
  then show ?case by (cases kv) (simp add: put_kv_def)
qed simp

text \<open>The key/value pairs of one run.\<close>

definition kv_of :: "(string \<times> string, 'v) fmap \<Rightarrow> string \<Rightarrow> 'v gomap" where
  "kv_of t i = foldl put_kv None (rows_of t i)"

lemma kv_rows:
  assumes "set rows = {(k, v). fmlookup t (i, k) = Some v}"
  shows "map_get (foldl put_kv None rows) k = fmlookup t (i, k)"
proof -
  have "map_of (rev rows) = (\<lambda>k. fmlookup t (i, k))" by (rule map_of_graph) (simp add: assms)
  then show ?thesis by (simp add: put_kv_get split: option.splits)
qed

lemma kv_of_get [simp]: "map_get (kv_of t i) k = fmlookup t (i, k)"
  unfolding kv_of_def by (rule kv_rows) (rule rows_of_props)

lemma kv_of_not_empty [simp]: "kv_of t i \<noteq> Some fmempty"
  unfolding kv_of_def by (rule put_kv_not_empty) simp

lemma kv_of_eqI: "m \<noteq> Some fmempty \<Longrightarrow> (\<And>k. map_get m k = fmlookup t (i, k)) \<Longrightarrow> kv_of t i = m"
  by (rule gomap_ext) simp_all

lemma kv_rows_eq:
  "set rows = {(k, v). fmlookup t (i, k) = Some v} \<Longrightarrow> foldl put_kv None rows = kv_of t i"
  by (rule kv_of_eqI [symmetric]) (simp_all add: put_kv_not_empty kv_rows)

section \<open>The run behind a row\<close>

definition nilled :: "'a list \<Rightarrow> 'a list option" where
  "nilled xs = (if xs = [] then None else Some xs)"

definition row_run :: "tables \<Rightarrow> run_row \<Rightarrow> run" where
  "row_run T row =
     (scan_row row)\<lparr>Params := kv_of (t_params T) (row_run_id row), Metrics := kv_of (t_metrics T) (row_run_id row),
       Capture := (if row_capture_declared row
         then Some \<lparr>Client = row_capture_client row, Attempted = nilled (keys_of (t_attempted T) (row_run_id row))\<rparr>
         else None)\<rparr>"

definition tab_content :: "tables \<Rightarrow> string \<Rightarrow> run option" where
  "tab_content T i = map_option (row_run T) (fmlookup (t_runs T) i)"

text \<open>Rows are keyed by their run id, side tables refer to existing runs, and only declared runs have attempted fields.\<close>

definition row_ok :: "string \<Rightarrow> run_row \<Rightarrow> bool" where
  "row_ok i row \<longleftrightarrow> row_run_id row = i \<and> int32 (row_fingerprint_version row) \<and>
     (\<not> row_capture_declared row \<longrightarrow> row_capture_client row = [])"

definition tab_inv :: "tables \<Rightarrow> bool" where
  "tab_inv T \<longleftrightarrow>
     (\<forall>i row. fmlookup (t_runs T) i = Some row \<longrightarrow> row_ok i row) \<and>
     (\<forall>i k. (i, k) |\<in>| fmdom (t_params T) \<longrightarrow> i |\<in>| fmdom (t_runs T)) \<and>
     (\<forall>i k. (i, k) |\<in>| fmdom (t_metrics T) \<longrightarrow> i |\<in>| fmdom (t_runs T)) \<and>
     (\<forall>i f. (i, f) |\<in>| t_attempted T \<longrightarrow>
        (\<exists>row. fmlookup (t_runs T) i = Some row \<and> row_capture_declared row))"

lemma tab_inv_rowD:
  assumes "tab_inv T" "fmlookup (t_runs T) i = Some row"
  shows "row_run_id row = i" "int32 (row_fingerprint_version row)"
    "\<not> row_capture_declared row \<Longrightarrow> row_capture_client row = []"
  using assms unfolding tab_inv_def row_ok_def by blast+

lemma tab_inv_fresh:
  assumes "tab_inv T" "fmlookup (t_runs T) i = None"
  shows "(i, k) |\<notin>| fmdom (t_params T)" "(i, k) |\<notin>| fmdom (t_metrics T)" "(i, k) |\<notin>| t_attempted T"
  using assms unfolding tab_inv_def by (metis fmdom_notD fmlookup_dom_iff option.distinct(1))+

lemma empty_tables_inv: "tab_inv empty_tables"
  by (simp add: tab_inv_def empty_tables_def)

section \<open>Groups of statements\<close>

fun tab_all :: "statement list \<Rightarrow> tables \<Rightarrow> tables option" where
  "tab_all [] T = Some T"
| "tab_all (s # ss) T = (case tab_exec s T of None \<Rightarrow> None | Some T' \<Rightarrow> tab_all ss T')"

lemma tab_all_append:
  "tab_all (ss @ ss') T = (case tab_all ss T of None \<Rightarrow> None | Some T' \<Rightarrow> tab_all ss' T')"
  by (induction ss arbitrary: T) (auto split: option.splits)

definition put_all :: "string \<Rightarrow> (string \<Rightarrow> 'v) \<Rightarrow> string list \<Rightarrow> (string \<times> string, 'v) fmap \<Rightarrow> (string \<times> string, 'v) fmap" where
  "put_all i f ks t = foldl (\<lambda>t k. fmupd (i, k) (f k) t) t ks"

lemma put_all_simps [simp]:
  "put_all i f [] t = t" "put_all i f (k # ks) t = put_all i f ks (fmupd (i, k) (f k) t)"
  by (simp_all add: put_all_def)

lemma put_all_lookup:
  "fmlookup (put_all i f ks t) (j, k) = (if j = i \<and> k \<in> set ks then Some (f k) else fmlookup t (j, k))"
  by (induction ks arbitrary: t) auto

lemma insert_params:
  assumes "i |\<in>| fmdom (t_runs T)"
  shows "tab_all (map (\<lambda>k. InsertParam i k (f k)) ks) T =
    (if distinct ks \<and> (\<forall>k \<in> set ks. (i, k) |\<notin>| fmdom (t_params T))
     then Some (T\<lparr>t_params := put_all i f ks (t_params T)\<rparr>) else None)"
  using assms by (induction ks arbitrary: T) auto

lemma insert_metrics:
  assumes "i |\<in>| fmdom (t_runs T)"
  shows "tab_all (map (\<lambda>k. InsertMetric i k (f k)) ks) T =
    (if distinct ks \<and> (\<forall>k \<in> set ks. (i, k) |\<notin>| fmdom (t_metrics T))
     then Some (T\<lparr>t_metrics := put_all i f ks (t_metrics T)\<rparr>) else None)"
  using assms by (induction ks arbitrary: T) auto

lemma upsert_metrics:
  assumes "i |\<in>| fmdom (t_runs T)"
  shows "tab_all (map (\<lambda>k. UpsertMetric i k (f k)) ks) T = Some (T\<lparr>t_metrics := put_all i f ks (t_metrics T)\<rparr>)"
  using assms by (induction ks arbitrary: T) auto

lemma insert_attempted:
  assumes "i |\<in>| fmdom (t_runs T)"
  shows "tab_all (map (InsertAttempted i) fs) T =
    (if distinct fs \<and> (\<forall>f \<in> set fs. (i, f) |\<notin>| t_attempted T)
     then Some (T\<lparr>t_attempted := t_attempted T |\<union>| Pair i |`| fset_of_list fs\<rparr>) else None)"
  using assms
proof (induction fs arbitrary: T)
  case (Cons f fs)
  then show ?case by (auto simp: Cons.IH)
qed simp

section \<open>The form a run comes back in\<close>

definition unempty :: "'v gomap \<Rightarrow> 'v gomap" where
  "unempty m = (if m = Some fmempty then None else m)"

lemma unempty_props [simp]: "unempty m \<noteq> Some fmempty" "map_get (unempty m) k = map_get m k"
  "unempty (unempty m) = unempty m" "unempty (kv_of t i) = kv_of t i"
  by (simp_all add: unempty_def)

lemma kv_of_unempty: "(\<And>k. map_get m k = fmlookup t (i, k)) \<Longrightarrow> kv_of t i = unempty m"
  by (rule kv_of_eqI) simp_all

definition duck_time :: "time \<Rightarrow> time" where
  "duck_time t = nsToTime (UnixNano t)"

definition duck_canon :: "run \<Rightarrow> run" where
  "duck_canon r =
     r\<lparr>StartedAt := duck_time (StartedAt r), EndedAt := map_option duck_time (EndedAt r),
       Params := unempty (Params r), Metrics := unempty (Metrics r),
       Capture := map_option (\<lambda>c. c\<lparr>Attempted := nilled (sort (slice (Attempted c)))\<rparr>) (Capture r)\<rparr>"

definition duck_storable :: "run \<Rightarrow> bool" where
  "duck_storable r \<longleftrightarrow> int32 (FingerprintVersion r) \<and>
     (case Capture r of None \<Rightarrow> True | Some c \<Rightarrow> distinct (slice (Attempted c)))"

lemma duck_time_ns [simp]: "duck_time (nsToTime w) = nsToTime w" "UnixNano (nsToTime w) = w"
  by (simp_all add: duck_time_def nsToTime_def)

lemma attempted_update: "c\<lparr>Attempted := xs\<rparr> = \<lparr>Client = Client c, Attempted = xs\<rparr>"
  by (cases c) simp

lemma slice_nilled [simp]: "slice (nilled xs) = xs"
  by (simp add: nilled_def)

lemma duck_canon_Normalize: "duck_canon (NormalizeCapture r) = duck_canon r"
  by (cases "Capture r") (auto simp: duck_canon_def NormalizeCapture_def sorted_sort_id)

lemma duck_storable_Normalize: "duck_storable (NormalizeCapture r) = duck_storable r"
  by (cases "Capture r") (auto simp: duck_storable_def NormalizeCapture_def)

section \<open>Rows that a statement does not touch\<close>

lemma keys_of_eqI: "sorted xs \<Longrightarrow> distinct xs \<Longrightarrow> (\<And>k. k \<in> set xs \<longleftrightarrow> (i, k) |\<in>| A) \<Longrightarrow> keys_of A i = xs"
  by (rule sorted_distinct_set_unique [OF sorted_keys_of distinct_keys_of]) (simp_all add: set_eq_iff set_keys_of)

lemma row_run_cong:
  assumes "i = row_run_id row"
    "\<And>k. fmlookup (t_params T') (i, k) = fmlookup (t_params T) (i, k)"
    "\<And>k. fmlookup (t_metrics T') (i, k) = fmlookup (t_metrics T) (i, k)"
    "\<And>k. (i, k) |\<in>| t_attempted T' \<longleftrightarrow> (i, k) |\<in>| t_attempted T"
  shows "row_run T' row = row_run T row"
proof -
  have "kv_of (t_params T') i = kv_of (t_params T) i" "kv_of (t_metrics T') i = kv_of (t_metrics T) i"
    by (rule kv_of_eqI; simp add: assms(2,3))+
  moreover have "keys_of (t_attempted T') i = keys_of (t_attempted T) i"
    by (rule keys_of_eqI) (simp_all add: sorted_keys_of distinct_keys_of set_keys_of assms(4))
  ultimately show ?thesis by (simp add: row_run_def assms(1))
qed

section \<open>Recording\<close>

definition recorded :: "run \<Rightarrow> tables \<Rightarrow> tables" where
  "recorded r T =
     \<lparr>t_runs = fmupd (RunID r) (run_values r) (t_runs T),
      t_params = put_all (RunID r) (map_index (Params r)) (map_keys_sorted (Params r)) (t_params T),
      t_metrics = put_all (RunID r) (\<lambda>k. the (map_get (Metrics r) k)) (map_keys_sorted (Metrics r)) (t_metrics T),
      t_attempted = t_attempted T |\<union>|
        (case Capture r of None \<Rightarrow> {||} | Some c \<Rightarrow> Pair (RunID r) |`| fset_of_list (slice (Attempted c)))\<rparr>"

lemma run_values_simps [simp]:
  "row_run_id (run_values r) = RunID r" "row_fingerprint_version (run_values r) = FingerprintVersion r"
  "row_capture_declared (run_values r) = (Capture r \<noteq> None)"
  by (simp_all add: run_values_def captureColumns_def split: option.split)

lemma record_effect:
  assumes inv: "tab_inv T" and fresh: "fmlookup (t_runs T) (RunID r) = None"
  shows "tab_all (record_statements r) T = (if duck_storable r then Some (recorded r T) else None)"
proof -
  have "RunID r |\<notin>| fmdom (t_runs T)" using fresh by (rule fmdom_notI)
  then show ?thesis using tab_inv_fresh [OF inv fresh]
    by (cases "Capture r")
      (simp_all add: record_statements_def recorded_def duck_storable_def tab_all_append insert_params
        insert_metrics insert_attempted)
qed

lemma recorded_lookup:
  "fmlookup (t_params (recorded r T)) (j, k) =
     (if j = RunID r \<and> map_get (Params r) k \<noteq> None then map_get (Params r) k else fmlookup (t_params T) (j, k))"
  "fmlookup (t_metrics (recorded r T)) (j, k) =
     (if j = RunID r \<and> map_get (Metrics r) k \<noteq> None then map_get (Metrics r) k else fmlookup (t_metrics T) (j, k))"
  by (auto simp: recorded_def put_all_lookup set_map_keys_sorted map_index_def split: option.splits)

lemma recorded_attempted:
  "(j, f) |\<in>| t_attempted (recorded r T) \<longleftrightarrow>
     (j, f) |\<in>| t_attempted T \<or> (j = RunID r \<and> (\<exists>c. Capture r = Some c \<and> f \<in> set (slice (Attempted c))))"
  by (cases "Capture r") (auto simp: recorded_def fset_of_list_elem)

lemma recorded_row:
  assumes inv: "tab_inv T" and fresh: "fmlookup (t_runs T) (RunID r) = None" and ok: "duck_storable r"
  shows "row_run (recorded r T) (run_values r) = duck_canon r"
proof -
  note f = tab_inv_fresh(1,2) [OF inv fresh, THEN fmdom_notD] tab_inv_fresh(3) [OF inv fresh]
  have p: "kv_of (t_params (recorded r T)) (RunID r) = unempty (Params r)"
    by (rule kv_of_unempty) (auto simp: recorded_lookup f)
  have m: "kv_of (t_metrics (recorded r T)) (RunID r) = unempty (Metrics r)"
    by (rule kv_of_unempty) (auto simp: recorded_lookup f)
  have a: "keys_of (t_attempted (recorded r T)) (RunID r) = sort (slice (Attempted c))" if "Capture r = Some c" for c
    by (rule keys_of_eqI) (use ok that in \<open>auto simp: recorded_attempted f duck_storable_def\<close>)
  show ?thesis
    by (rule run.equality)
      (simp_all add: row_run_def p m a duck_canon_def scan_row_def run_values_def captureColumns_def
        option.map_comp comp_def duck_time_def [abs_def] attempted_update split: option.split)
qed

lemma recorded_content:
  assumes "tab_inv T" "fmlookup (t_runs T) (RunID r) = None" "duck_storable r"
  shows "tab_content (recorded r T) = (tab_content T)(RunID r \<mapsto> duck_canon r)"
proof
  fix j
  show "tab_content (recorded r T) j = ((tab_content T)(RunID r \<mapsto> duck_canon r)) j"
  proof (cases "j = RunID r")
    case True
    have "fmlookup (t_runs (recorded r T)) j = Some (run_values r)" by (simp add: True recorded_def)
    then show ?thesis by (simp add: True tab_content_def recorded_row assms)
  next
    case False
    have "row_run (recorded r T) row = row_run T row" if "fmlookup (t_runs T) j = Some row" for row
      using tab_inv_rowD(1) [OF assms(1) that] False
      by (intro row_run_cong [of j]) (auto simp: recorded_lookup recorded_attempted)
    moreover have "fmlookup (t_runs (recorded r T)) j = fmlookup (t_runs T) j" using False by (simp add: recorded_def)
    ultimately show ?thesis using False by (cases "fmlookup (t_runs T) j") (simp_all add: tab_content_def)
  qed
qed

lemma recorded_inv:
  assumes "tab_inv T" "fmlookup (t_runs T) (RunID r) = None" "duck_storable r"
  shows "tab_inv (recorded r T)"
proof -
  have runs: "fmlookup (t_runs (recorded r T)) j =
      (if j = RunID r then Some (run_values r) else fmlookup (t_runs T) j)" for j
    by (simp add: recorded_def)
  have "row_ok (RunID r) (run_values r)"
    using assms(3) by (auto simp: row_ok_def duck_storable_def run_values_def captureColumns_def split: option.splits)
  then show ?thesis
    using assms(1) tab_inv_fresh(3) [OF assms(1,2)] unfolding tab_inv_def fmlookup_dom_iff
    by (auto simp: runs recorded_lookup recorded_attempted split: if_splits)
qed

section \<open>Updating\<close>

definition update_row :: "run \<Rightarrow> run_row \<Rightarrow> run_row" where
  "update_row u row = row\<lparr>row_status := Status u, row_ended_at_ns := map_option UnixNano (EndedAt u),
     row_checkpoint_uri := CheckpointURI u, row_host := Host u, row_device := Device u,
     row_framework_version := FrameworkVersion u, row_submitter_claim := SubmitterClaim u, row_job_id := JobID u\<rparr>"

definition updated :: "string \<Rightarrow> run \<Rightarrow> patch \<Rightarrow> run_row \<Rightarrow> tables \<Rightarrow> tables" where
  "updated i u p row T =
     T\<lparr>t_runs := fmupd i (update_row u row) (t_runs T),
       t_metrics := put_all i (\<lambda>k. the (map_get (p_Metrics p) k)) (map_keys_sorted (p_Metrics p)) (t_metrics T)\<rparr>"

lemma update_effect:
  assumes "fmlookup (t_runs T) i = Some row"
  shows "tab_all (update_statements i u p) T = Some (updated i u p row T)"
  using assms by (simp add: update_statements_def upsert_metrics updated_def update_row_def)

lemma updated_simps [simp]:
  "fmlookup (t_runs (updated i u p row T)) j = (if j = i then Some (update_row u row) else fmlookup (t_runs T) j)"
  "t_params (updated i u p row T) = t_params T" "t_attempted (updated i u p row T) = t_attempted T"
  by (simp_all add: updated_def)

lemma updated_metrics:
  "fmlookup (t_metrics (updated i u p row T)) (j, k) =
     (if j = i \<and> map_get (p_Metrics p) k \<noteq> None then map_get (p_Metrics p) k else fmlookup (t_metrics T) (j, k))"
  by (auto simp: updated_def put_all_lookup set_map_keys_sorted)

lemma updated_inv:
  assumes "tab_inv T" "fmlookup (t_runs T) i = Some row"
  shows "tab_inv (updated i u p row T)"
proof -
  have "row_ok i (update_row u row)" "row_capture_declared (update_row u row) = row_capture_declared row"
    using tab_inv_rowD [OF assms] by (auto simp: row_ok_def update_row_def)
  then show ?thesis using assms unfolding tab_inv_def fmlookup_dom_iff
    by (auto simp: updated_metrics split: if_splits)
qed

text \<open>
  Two runs that differ at most in the sign of a zero metric: what a finished run may become,
  because a no-op patch still upserts its metrics.
\<close>

definition duck_eqv :: "run \<Rightarrow> run \<Rightarrow> bool" where
  "duck_eqv r s \<longleftrightarrow> s\<lparr>Metrics := None\<rparr> = r\<lparr>Metrics := None\<rparr> \<and>
     (\<forall>k. rel_option same_value (map_get (Metrics r) k) (map_get (Metrics s) k))"

lemma duck_eqv_refl: "duck_eqv r r"
  by (simp add: duck_eqv_def option.rel_refl same_value_def)

lemma duck_eqv_trans: "duck_eqv r s \<Longrightarrow> duck_eqv s u \<Longrightarrow> duck_eqv r u"
  unfolding duck_eqv_def by (auto intro: option.rel_transp [unfolded transp_def, rule_format] same_value_trans)

lemma updated_row_frame:
  assumes inv: "tab_inv T" and row: "fmlookup (t_runs T) i = Some row"
    and patch: "applyPatch now (row_run T row) p = Inr u"
  shows "(row_run (updated i u p row T) (update_row u row))\<lparr>Metrics := None\<rparr> = (duck_canon u)\<lparr>Metrics := None\<rparr>"
proof -
  note f = applyPatch_frame [OF patch]
  have ident: "Project u = row_project row" "GitCommit u = row_git_commit row" "GitDirty u = row_git_dirty row"
    "ConfigHash u = row_config_hash row" "DatasetVersion u = row_dataset_version row"
    "ModelVersion u = row_model_version row" "Seed u = row_seed row"
    using f(3) by (simp_all add: identity_of_def row_run_def scan_row_def)
  show ?thesis
    by (rule run.equality)
      (simp_all add: f ident row_run_def update_row_def scan_row_def duck_canon_def attempted_update
        sorted_sort_id sorted_keys_of option.map_comp comp_def duck_time_def [abs_def])
qed

lemma updated_row_metrics:
  assumes row: "row_run_id row = i" and patch: "applyPatch now (row_run T row) p = Inr u"
  shows "rel_option same_value (map_get (Metrics (duck_canon u)) k)
    (map_get (Metrics (row_run (updated i u p row T) (update_row u row))) k)"
proof -
  let ?m = "map_get (p_Metrics p) k"
  have lhs: "map_get (Metrics (duck_canon u)) k = map_get (Metrics u) k" by (simp add: duck_canon_def)
  have rhs: "map_get (Metrics (row_run (updated i u p row T) (update_row u row))) k =
      (if ?m \<noteq> None then ?m else map_get (Metrics (row_run T row)) k)"
    using row by (simp add: row_run_def update_row_def updated_metrics)
  show ?thesis using patch
  proof (cases rule: applyPatch_cases)
    case noop
    then have "case map_get (Metrics (row_run T row)) k of Some w \<Rightarrow> f64_eq w v | None \<Rightarrow> False" if "?m = Some v" for v
      using that by (auto simp: isNoopPatch_def list_all_iff set_map_keys_sorted split: if_splits option.splits)
    then show ?thesis unfolding lhs rhs unfolding noop(3)
      by (cases ?m) (auto simp: option.rel_refl same_value_def split: option.splits)
  next
    case changed
    have "map_get (Metrics u) k = (if ?m \<noteq> None then ?m else map_get (Metrics (row_run T row)) k)"
      unfolding changed(2) patch_fields_def Let_def
      by (cases "p_Metrics p") (auto simp: map_get_fm fmlookup_dom_iff)
    then show ?thesis unfolding lhs rhs by (simp add: option.rel_refl same_value_def)
  qed
qed

lemma updated_content:
  assumes inv: "tab_inv T" and row: "fmlookup (t_runs T) i = Some row"
    and patch: "applyPatch now (row_run T row) p = Inr u"
  shows "\<exists>x. tab_content (updated i u p row T) = (tab_content T)(i \<mapsto> x) \<and> duck_eqv (duck_canon u) x \<and>
    (\<forall>k. map_get (Metrics x) k =
      (if map_get (p_Metrics p) k \<noteq> None then map_get (p_Metrics p) k else map_get (Metrics (row_run T row)) k))"
proof (intro exI conjI)
  let ?T = "updated i u p row T"
  show "duck_eqv (duck_canon u) (row_run ?T (update_row u row))"
    unfolding duck_eqv_def using updated_row_frame [OF assms] updated_row_metrics [OF tab_inv_rowD(1) [OF inv row] patch]
    by simp
  show "\<forall>k. map_get (Metrics (row_run ?T (update_row u row))) k =
      (if map_get (p_Metrics p) k \<noteq> None then map_get (p_Metrics p) k else map_get (Metrics (row_run T row)) k)"
    using tab_inv_rowD(1) [OF inv row] by (simp add: row_run_def update_row_def updated_metrics)
  show "tab_content ?T = (tab_content T)(i \<mapsto> row_run ?T (update_row u row))"
  proof
    fix j
    have "row_run ?T row' = row_run T row'" if "fmlookup (t_runs T) j = Some row'" "j \<noteq> i" for row'
      using tab_inv_rowD(1) [OF inv that(1)] that(2)
      by (intro row_run_cong [of j]) (auto simp: updated_metrics)
    then show "tab_content ?T j = ((tab_content T)(i \<mapsto> row_run ?T (update_row u row))) j"
      by (cases "fmlookup (t_runs T) j") (simp_all add: tab_content_def)
  qed
qed

end
