(* ===== verification/Duckdb_Listing.thy ===== *)
theory Duckdb_Listing
  imports Duckdb_Tables
begin

text \<open>
  The listing of the DuckDB backend: its \<open>WHERE\<close> clause selects what the query asks for, and the
  batched hydration of a page gives every run its own parameters, metrics and attempted fields.
\<close>

section \<open>Hydration\<close>

text \<open>One row of a batched query, put into the run of the page that it belongs to.\<close>

definition at_id :: "(string \<Rightarrow> nat) \<Rightarrow> ('x \<Rightarrow> run \<Rightarrow> run) \<Rightarrow> run list \<Rightarrow> string \<times> 'x \<Rightarrow> run list" where
  "at_id byID g rs row = rs[byID (fst row) := g (snd row) (rs ! byID (fst row))]"

definition add_attempted :: "string \<Rightarrow> run \<Rightarrow> run" where
  "add_attempted f r =
     (case Capture r of None \<Rightarrow> r | Some c \<Rightarrow> r\<lparr>Capture := Some (c\<lparr>Attempted := Some (slice (Attempted c) @ [f])\<rparr>)\<rparr>)"

lemma put_at_id:
  "put_param byID = at_id byID (\<lambda>kv r. r\<lparr>Params := put_kv (Params r) kv\<rparr>)"
  "put_metric byID = at_id byID (\<lambda>kv r. r\<lparr>Metrics := put_kv (Metrics r) kv\<rparr>)"
  "put_attempted byID = at_id byID add_attempted"
  by (intro ext; auto simp: put_param_def put_metric_def put_attempted_def at_id_def add_attempted_def Let_def
      split: option.splits prod.splits)+

lemma by_id_nth:
  assumes "distinct (map RunID rs)" "j < length rs"
  shows "by_id rs (RunID (rs ! j)) = j"
proof -
  have uniq: "RunID (rs ! k) = RunID (rs ! j) \<longleftrightarrow> k = j" if "k < length rs" for k
    using assms that nth_eq_iff_index_eq [of "map RunID rs" k j] by simp
  have "List.find (\<lambda>k. RunID (rs ! k) = RunID (rs ! j)) (rev [0 ..< length rs]) = Some j"
    unfolding find_Some_iff using assms(2) uniq by (intro exI [of _ "length rs - 1 - j"]) (auto simp: rev_nth)
  then show ?thesis by (simp add: by_id_def)
qed

lemma at_id_fold:
  assumes "length ids = length rs" "distinct ids"
    and "\<And>j. j < length ids \<Longrightarrow> byID (ids ! j) = j" and "fst ` set rows \<subseteq> set ids"
  shows "foldl (at_id byID g) rs rows =
    map (\<lambda>(i, r). foldl (\<lambda>r x. g x r) r (map snd (filter (\<lambda>row. fst row = i) rows))) (zip ids rs)"
  using assms(4)
proof (induction rows rule: rev_induct)
  case Nil
  then show ?case using assms(1) by (simp add: map_snd_zip case_prod_unfold flip: snd_def)
next
  case (snoc row rows)
  obtain i x where row: "row = (i, x)" by (cases row)
  then have "i \<in> set ids" using snoc.prems by simp
  then obtain j where j: "j < length ids" "ids ! j = i" by (metis in_set_conv_nth)
  have other: "ids ! k = i \<longleftrightarrow> k = j" if "k < length ids" for k
    using assms(2) that j nth_eq_iff_index_eq by blast
  have byID: "byID i = j" using assms(3) [OF j(1)] j(2) by simp
  have IH: "foldl (at_id byID g) rs rows =
      map (\<lambda>(i, r). foldl (\<lambda>r x. g x r) r (map snd (filter (\<lambda>row. fst row = i) rows))) (zip ids rs)"
    using snoc by simp
  show ?case
  proof (rule nth_equalityI)
    fix k assume "k < length (foldl (at_id byID g) rs (rows @ [row]))"
    then have k: "k < length ids" using assms(1) by (simp add: IH) (simp add: at_id_def)
    show "foldl (at_id byID g) rs (rows @ [row]) ! k = map (\<lambda>(i, r). foldl (\<lambda>r x. g x r) r
        (map snd (filter (\<lambda>row. fst row = i) (rows @ [row])))) (zip ids rs) ! k"
      using k j(1) assms(1) other [OF k] by (cases "k = j") (auto simp: IH row at_id_def byID nth_list_update)
  qed (use assms(1) in \<open>simp add: IH, simp add: at_id_def\<close>)
qed

lemma foldl_params: "foldl (\<lambda>r x. r\<lparr>Params := put_kv (Params r) x\<rparr>) r xs = r\<lparr>Params := foldl put_kv (Params r) xs\<rparr>"
  by (induction xs arbitrary: r) simp_all

lemma foldl_metrics: "foldl (\<lambda>r x. r\<lparr>Metrics := put_kv (Metrics r) x\<rparr>) r xs = r\<lparr>Metrics := foldl put_kv (Metrics r) xs\<rparr>"
  by (induction xs arbitrary: r) simp_all

lemma foldl_attempted:
  "foldl (\<lambda>r x. add_attempted x r) r xs =
     (case Capture r of None \<Rightarrow> r
      | Some c \<Rightarrow> if xs = [] then r else r\<lparr>Capture := Some (c\<lparr>Attempted := Some (slice (Attempted c) @ xs)\<rparr>)\<rparr>)"
proof (induction xs rule: rev_induct)
  case (snoc x xs)
  then show ?case by (cases "Capture r") (auto simp: add_attempted_def)
qed (simp split: option.split)

lemma set_rows_of_id:
  "set rows = {(i, k, v). i \<in> set ids \<and> P i k v} \<Longrightarrow> i \<in> set ids \<Longrightarrow>
     set (map snd (filter (\<lambda>row. fst row = i) rows)) = {(k, v). P i k v}"
  by force

text \<open>A page of listed rows, hydrated with all the rows of the side tables that belong to it.\<close>

lemma hydrated_page:
  assumes byID: "\<And>j. j < length rows \<Longrightarrow> byID (row_run_id (rows ! j)) = j"
      "\<And>j. j < length rows \<Longrightarrow> byID' (row_run_id (rows ! j)) = j"
    and dist: "distinct (map row_run_id rows)"
    and p: "set prows = {(i, k, v). i \<in> set (map row_run_id rows) \<and> fmlookup (t_params T) (i, k) = Some v}"
    and m: "set mrows = {(i, k, v). i \<in> set (map row_run_id rows) \<and> fmlookup (t_metrics T) (i, k) = Some v}"
    and a: "distinct arows" "sorted (map snd arows)"
      "set arows = {(i, f). i \<in> set (map row_run_id rows) \<and> (i, f) |\<in>| t_attempted T}"
  shows "foldl (put_attempted byID') (foldl (put_metric byID) (foldl (put_param byID) (map list_row rows) prows) mrows) arows
    = map (row_run T) rows"
proof -
  let ?ids = "map row_run_id rows"
  have fold: "foldl (at_id idx g) (map h rows) xs =
      map (\<lambda>row. foldl (\<lambda>r x. g x r) (h row) (map snd (filter (\<lambda>x. fst x = row_run_id row) xs))) rows"
    if "\<And>j. j < length rows \<Longrightarrow> idx (row_run_id (rows ! j)) = j" "fst ` set xs \<subseteq> set ?ids" for idx and g :: "'x \<Rightarrow> run \<Rightarrow> run" and h xs
    using at_id_fold [of ?ids "map h rows" idx xs g] dist that
    by (simp add: zip_map_map zip_same_conv_map comp_def)
  have kp: "foldl put_kv None (map snd (filter (\<lambda>x. fst x = row_run_id row) prows)) = kv_of (t_params T) (row_run_id row)"
    if "row \<in> set rows" for row by (rule kv_rows_eq, rule set_rows_of_id [OF p]) (use that in simp)
  have km: "foldl put_kv None (map snd (filter (\<lambda>x. fst x = row_run_id row) mrows)) = kv_of (t_metrics T) (row_run_id row)"
    if "row \<in> set rows" for row by (rule kv_rows_eq, rule set_rows_of_id [OF m]) (use that in simp)
  have ka: "map snd (filter (\<lambda>x. fst x = row_run_id row) arows) = keys_of (t_attempted T) (row_run_id row)"
    if "row \<in> set rows" for row
  proof (rule keys_of_eqI [symmetric])
    have "sorted_wrt (\<lambda>x y. snd x \<le> snd y) arows" using a(2) by (simp add: sorted_map)
    then show "sorted (map snd (filter (\<lambda>x. fst x = row_run_id row) arows))"
      by (simp add: sorted_map sorted_wrt_filter)
    show "distinct (map snd (filter (\<lambda>x. fst x = row_run_id row) arows))"
      using a(1) by (auto simp: distinct_map inj_on_def)
  qed (use a(3) that in force)
  have "fst ` set prows \<subseteq> set ?ids" "fst ` set mrows \<subseteq> set ?ids" "fst ` set arows \<subseteq> set ?ids"
    using p m a(3) by auto
  then show ?thesis
    by (simp add: put_at_id fold [OF byID(1)] fold [OF byID(2)] foldl_params foldl_metrics foldl_attempted kp km ka list_row_def scan_row_def
        row_run_def nilled_def Let_def split: option.split)
qed

text \<open>Hydration does not touch ids, so the second pass finds the same positions.\<close>

lemma at_id_ids:
  assumes "\<And>x r. RunID (g x r) = RunID r"
  shows "map RunID (foldl (at_id byID g) rs rows) = map RunID rs"
proof (induction rows arbitrary: rs)
  case (Cons row rows)
  have "map RunID (at_id byID g rs row) = map RunID rs"
    unfolding at_id_def map_update assms by (metis length_map linorder_not_less list_update_beyond list_update_id nth_map)
  with Cons show ?case by simp
qed simp

lemma hydrated_ids:
  "map RunID (foldl (put_metric byID) (foldl (put_param byID) rs prows) mrows) = map RunID rs"
  by (simp add: put_at_id at_id_ids)

lemma by_id_rows:
  assumes "map RunID rs = map row_run_id rows" "distinct (map row_run_id rows)" "j < length rows"
  shows "by_id rs (row_run_id (rows ! j)) = j"
proof -
  have "length rs = length rows" using assms(1) by (metis length_map)
  moreover then have "RunID (rs ! j) = row_run_id (rows ! j)" using assms by (metis nth_map)
  ultimately show ?thesis using by_id_nth [of rs j] assms by simp
qed

lemma list_row_simps [simp]:
  "RunID (list_row row) = row_run_id row" "StartedAt (list_row row) = nsToTime (row_started_at_ns row)"
  by (simp_all add: list_row_def scan_row_def Let_def)

section \<open>One page\<close>

lemma trim_page_rows:
  assumes f: "\<And>row. StartedAt (f row) = StartedAt (list_row row)" "\<And>row. RunID (f row) = RunID (list_row row)"
  obtains n nxt where
    "trim_page (map list_row (if 0 < limit then take (nat (limit + 1)) rows else rows)) limit = (map list_row (take n rows), nxt)"
    "paginate (map f rows) limit = \<lparr>pg_Runs = map f (take n rows), pg_Next = nxt\<rparr>"
proof (cases "0 < limit \<and> int (length rows) > limit")
  case True
  let ?pg = "take (nat limit) rows"
  have ne: "?pg \<noteq> []" using True by auto
  have tk: "take (nat limit) (take (nat (limit + 1)) rows) = ?pg" by (simp add: min_absorb1)
  have len: "int (length (take (nat (limit + 1)) rows)) > limit" using True by (simp add: min_def)
  show ?thesis
  proof (rule that [of "nat limit" "Some \<lparr>c_StartedAt = StartedAt (f (last ?pg)), c_RunID = RunID (f (last ?pg))\<rparr>"])
    show "trim_page (map list_row (if 0 < limit then take (nat (limit + 1)) rows else rows)) limit =
        (map list_row ?pg, Some \<lparr>c_StartedAt = StartedAt (f (last ?pg)), c_RunID = RunID (f (last ?pg))\<rparr>)"
      unfolding trim_page_def length_map using True len by (simp add: take_map tk last_map [OF ne] f Let_def del: length_take)
    show "paginate (map f rows) limit =
        \<lparr>pg_Runs = map f ?pg, pg_Next = Some \<lparr>c_StartedAt = StartedAt (f (last ?pg)), c_RunID = RunID (f (last ?pg))\<rparr>\<rparr>"
      using True by (simp add: paginate_def take_map last_map [OF ne] Let_def)
  qed
next
  case False
  then show ?thesis using that [of "length rows" None] by (auto simp: trim_page_def paginate_def)
qed

lemma sorted_row_ids:
  assumes "sorted_wrt (\<lambda>a b. row_key a < row_key b) rows" "\<And>row. row \<in> set rows \<Longrightarrow> fmlookup t (row_run_id row) = Some row"
  shows "distinct (map row_run_id rows)"
proof -
  have "distinct rows" using assms(1) by (induction rows) auto
  moreover have "inj_on row_run_id (set rows)" using assms(2) by (intro inj_onI) (metis option.inject)
  ultimately show ?thesis by (simp add: distinct_map)
qed

section \<open>The selection\<close>

text \<open>The bounds that the 64-bit arguments of the statement put on a query; the limit must leave room for the extra row.\<close>

definition duck_listable :: "query \<Rightarrow> bool" where
  "duck_listable q \<longleftrightarrow> (IsZero (q_Since q) \<or> in_int64 (q_Since q)) \<and> (IsZero (q_Until q) \<or> in_int64 (q_Until q)) \<and>
     (case q_After q of None \<Rightarrow> True | Some c \<Rightarrow> in_int64 (c_StartedAt c)) \<and> q_Limit q < 2 ^ 63 - 1"

lemma limit_plus_one_exact: "0 < n \<Longrightarrow> n < 2 ^ 63 - 1 \<Longrightarrow> limit_plus_one n = n + 1"
  unfolding limit_plus_one_def sint_sbintrunc' by (simp add: signed_take_bit_int_eq_self_iff)

lemma where_eq_holds: "list_all (\<lambda>c. holds c row) (where_eq col v) \<longleftrightarrow> v = [] \<or> col_value col row = v"
  by (simp add: where_eq_def)

lemma row_run_simps [simp]:
  "RunID (row_run T row) = row_run_id row" "Project (row_run T row) = row_project row"
  "GitCommit (row_run T row) = row_git_commit row" "Fingerprint (row_run T row) = row_fingerprint row"
  "Status (row_run T row) = row_status row" "Device (row_run T row) = row_device row"
  "SubmitterClaim (row_run T row) = row_submitter_claim row" "JobID (row_run T row) = row_job_id row"
  "StartedAt (row_run T row) = nsToTime (row_started_at_ns row)"
  by (simp_all add: row_run_def scan_row_def)

lemma t_ns_nsToTime [simp]: "t_ns (nsToTime w) = sint w"
  by (simp add: nsToTime_def unix_utc_def)

lemma conditions_select:
  assumes q: "duck_listable q" and ok: "\<not> row_capture_declared row \<Longrightarrow> row_capture_client row = []"
  shows "list_all (\<lambda>c. holds c row) (conditions q) \<longleftrightarrow> query_match q (row_run T row) \<and> after_ok q (row_run T row)"
proof -
  have cap: "(q_CaptureClient q = [] \<or> row_capture_client row = q_CaptureClient q) \<longleftrightarrow>
      \<not> (q_CaptureClient q \<noteq> [] \<and> (case Capture (row_run T row) of None \<Rightarrow> True | Some c \<Rightarrow> Client c \<noteq> q_CaptureClient q))"
    using ok by (auto simp: row_run_def)
  have after: "list_all (\<lambda>c. holds c row) (case q_After q of None \<Rightarrow> []
      | Some c \<Rightarrow> [AfterKey (UnixNano (c_StartedAt c)) (UnixNano (c_StartedAt c)) (c_RunID c)]) \<longleftrightarrow> after_ok q (row_run T row)"
  proof (cases "q_After q")
    case (Some c)
    have "sint (UnixNano (c_StartedAt c)) = t_ns (c_StartedAt c)" using q Some by (simp add: duck_listable_def sint_UnixNano)
    moreover have "row_started_at_ns row = UnixNano (c_StartedAt c) \<longleftrightarrow> sint (row_started_at_ns row) = sint (UnixNano (c_StartedAt c))"
      by (metis signed_word_eqI)
    ultimately show ?thesis using Some by (auto simp: after_ok_def isAfterCursor_def time_defs)
  qed (simp add: after_ok_def)
  have since: "list_all (\<lambda>c. holds c row) (if \<not> IsZero (q_Since q) then [StartedGe (UnixNano (q_Since q))] else []) \<longleftrightarrow>
      \<not> (\<not> IsZero (q_Since q) \<and> Before (StartedAt (row_run T row)) (q_Since q))"
    using q by (auto simp: duck_listable_def sint_UnixNano Before_def)
  have "until": "list_all (\<lambda>c. holds c row) (if \<not> IsZero (q_Until q) then [StartedLt (UnixNano (q_Until q))] else []) \<longleftrightarrow>
      \<not> (\<not> IsZero (q_Until q) \<and> \<not> Before (StartedAt (row_run T row)) (q_Until q))"
    using q by (auto simp: duck_listable_def sint_UnixNano Before_def)
  show ?thesis
    unfolding conditions_def list_all_append where_eq_holds col_value.simps query_match_def cap [symmetric]
      after since "until" row_run_simps by blast
qed

end
