(* ===== verification/Duckdb_Store.thy ===== *)
theory Duckdb_Store
  imports Duckdb_Listing
begin

text \<open>
  The DuckDB backend implements the contract \<open>run_store\<close> over every engine that satisfies
  \<open>sql_engine\<close>. What it keeps of a run is \<open>duck_canon\<close>: instants as UTC nanoseconds, no empty
  maps or slices, attempted fields sorted.
\<close>

section \<open>The form a run comes back in is stable\<close>

lemma duck_stored:
  assumes "tab_inv T" "tab_content T i = Some r"
  shows "RunID r = i" "duck_canon r = r" "duck_storable r"
proof -
  obtain row where row: "fmlookup (t_runs T) i = Some row" "r = row_run T row"
    using assms(2) by (auto simp: tab_content_def)
  note f = tab_inv_rowD [OF assms(1) row(1)]
  show "RunID r = i" using f row by simp
  show "duck_storable r"
    using f by (simp add: row duck_storable_def) (simp add: row_run_def scan_row_def distinct_keys_of)
  show "duck_canon r = r"
    by (rule run.equality)
      (simp_all add: row duck_canon_def, simp_all add: row_run_def scan_row_def attempted_update sorted_sort_id
        sorted_keys_of option.map_comp comp_def)
qed

lemma duck_time_unix: "duck_time t = unix_utc (UnixNano t)"
  by (simp add: duck_time_def nsToTime_def)

lemma duck_canon_evolves:
  assumes r: "duck_canon r = r" and ev: "evolves r u"
  shows "evolves_by duck_eqv r (duck_canon u)"
proof -
  have "t_ns (StartedAt (duck_canon u)) = t_ns (StartedAt r)"
  proof -
    have "StartedAt r = duck_time (StartedAt r)" using arg_cong [OF r, of StartedAt] by (simp add: duck_canon_def)
    moreover have "duck_time (StartedAt u) = duck_time (StartedAt r)"
      using ev by (simp add: evolves_by_def duck_time_unix UnixNano_def)
    ultimately show ?thesis by (simp add: duck_canon_def)
  qed
  moreover have "Capture (duck_canon u) = Capture r"
    using arg_cong [OF r, of Capture] ev by (simp add: duck_canon_def evolves_by_def)
  moreover have "Params (duck_canon u) = Params r"
    using arg_cong [OF r, of Params] ev by (simp add: duck_canon_def evolves_by_def)
  moreover have "norm_params (duck_canon u) = norm_params u"
    by (rule fmap_ext) (simp add: norm_params_lookup, simp add: duck_canon_def)
  then have "identity_of (duck_canon u) = identity_of u" by (simp add: identity_of_def) (simp add: duck_canon_def)
  moreover have "RunID (duck_canon u) = RunID u" "Fingerprint (duck_canon u) = Fingerprint u"
    "FingerprintVersion (duck_canon u) = FingerprintVersion u" "Status (duck_canon u) = Status u"
    by (simp_all add: duck_canon_def)
  ultimately show ?thesis using ev r duck_eqv_refl unfolding evolves_by_def by metis
qed

text \<open>The tables a page is put together from, when its statements see three databases.\<close>

definition seen :: "tables \<Rightarrow> tables \<Rightarrow> tables \<Rightarrow> tables" where
  "seen Tp Tm Ta = Tp\<lparr>t_metrics := t_metrics Tm, t_attempted := t_attempted Ta\<rparr>"

lemma seen_same [simp]: "seen T T T = T"
  by (simp add: seen_def)

section \<open>Over any engine\<close>

context sql_engine
begin

lemma exec_all_effect:
  "case tab_all ss (relx tx) of
     None \<Rightarrow> \<exists>m. exec_all eng ss tx = Inl m
   | Some T \<Rightarrow> \<exists>tx'. exec_all eng ss tx = Inr tx' \<and> relx tx' = T"
proof (induction ss arbitrary: tx)
  case (Cons s ss)
  show ?case
  proof (cases "tab_exec s (relx tx)")
    case None
    with exec_violation [OF this] show ?thesis by auto
  next
    case (Some T)
    obtain tx' where "eng_exec eng s tx = Inr tx'" "relx tx' = T" using exec_ok [OF Some] by blast
    with Some Cons [of tx'] show ?thesis by (auto split: option.splits)
  qed
qed simp

lemma in_tx_ok:
  assumes "tab_all ss (rel db) = Some T"
  shows "\<exists>db'. in_tx eng ss db = Inr db' \<and> rel db' = T"
proof -
  obtain tx where tx: "eng_begin eng db = Inr tx" "relx tx = rel db" using begin_law by blast
  then obtain tx' where tx': "exec_all eng ss tx = Inr tx'" "relx tx' = T"
    using exec_all_effect [of ss tx] assms by auto
  with tx commit_law [of tx'] show ?thesis by (auto simp: in_tx_def)
qed

lemma in_tx_violation:
  assumes "tab_all ss (rel db) = None"
  shows "\<exists>m. in_tx eng ss db = Inl m"
proof -
  obtain tx where tx: "eng_begin eng db = Inr tx" "relx tx = rel db" using begin_law by blast
  with exec_all_effect [of ss tx] assms show ?thesis by (auto simp: in_tx_def)
qed

lemma duck_get_content:
  assumes "tab_inv (rel db)"
  shows "duck_get eng i db = (case tab_content (rel db) i of None \<Rightarrow> Inl ErrNotFound | Some r \<Rightarrow> Inr r)"
proof (cases "fmlookup (t_runs (rel db)) i")
  case None
  then show ?thesis by (simp add: duck_get_def duck_get_at_def select_run_law scanRun_def tab_content_def)
next
  case (Some row)
  have "loadKV (eng_select_params eng i db) = Inr (kv_of (t_params (rel db)) i)"
    using select_params_law [of i db] by (auto simp: loadKV_def intro: kv_rows_eq)
  moreover have "loadKVFloat (eng_select_metrics eng i db) = Inr (kv_of (t_metrics (rel db)) i)"
    using select_metrics_law [of i db] by (auto simp: loadKVFloat_def intro: kv_rows_eq)
  moreover have "loadCaptureAttempted (eng_select_attempted eng i db) = Inr (nilled (keys_of (t_attempted (rel db)) i))"
    by (simp add: loadCaptureAttempted_def select_attempted_law nilled_def)
  moreover have "Capture (scan_row row) = None" by (simp add: scan_row_def)
  ultimately show ?thesis using Some tab_inv_rowD(1) [OF assms Some]
    by (simp add: duck_get_def duck_get_at_def select_run_law scanRun_def tab_content_def row_run_def Let_def)
qed

lemma duck_record_fresh:
  assumes inv: "tab_inv (rel db)" and valid: "Validate r = None" and fresh: "tab_content (rel db) (RunID r) = None"
  shows "duck_storable r \<Longrightarrow> \<exists>db'. duck_Record eng r db = (None, db') \<and> tab_inv (rel db') \<and>
      tab_content (rel db') = (tab_content (rel db))(RunID r \<mapsto> duck_canon r)"
    and "\<not> duck_storable r \<Longrightarrow> \<exists>m. duck_Record eng r db = (Some (Backend m), db)"
proof -
  let ?r = "NormalizeCapture r"
  have none: "fmlookup (t_runs (rel db)) (RunID ?r) = None" using fresh by (simp add: tab_content_def)
  have rec: "duck_Record eng r db =
      (case in_tx eng (record_statements ?r) db of Inl m \<Rightarrow> (Some (Backend m), db) | Inr db' \<Rightarrow> (None, db'))"
    using valid fresh by (simp add: duck_Record_def duck_get_content [OF inv] Let_def errors_Is_def)
  note eff = record_effect [OF inv none]
  show "\<exists>db'. duck_Record eng r db = (None, db') \<and> tab_inv (rel db') \<and>
      tab_content (rel db') = (tab_content (rel db))(RunID r \<mapsto> duck_canon r)" if ok: "duck_storable r"
  proof -
    have ok': "duck_storable ?r" using ok by (simp add: duck_storable_Normalize)
    obtain db' where "in_tx eng (record_statements ?r) db = Inr db'" "rel db' = recorded ?r (rel db)"
      using in_tx_ok eff ok' by metis
    then show ?thesis
      using recorded_inv [OF inv none ok'] recorded_content [OF inv none ok'] by (simp add: rec duck_canon_Normalize)
  qed
  show "\<exists>m. duck_Record eng r db = (Some (Backend m), db)" if "\<not> duck_storable r"
    using in_tx_violation [of "record_statements ?r" db] eff that by (auto simp: rec duck_storable_Normalize)
qed

lemma duck_update_ok:
  assumes inv: "tab_inv (rel db)" and r: "tab_content (rel db) i = Some r" and u: "applyPatch now r p = Inr u"
  shows "\<exists>db' x. duck_Update eng now i p db = (Inr u, db') \<and> tab_inv (rel db') \<and>
    tab_content (rel db') = (tab_content (rel db))(i \<mapsto> x) \<and> duck_eqv (duck_canon u) x \<and>
    (\<forall>k. map_get (Metrics x) k = (if map_get (p_Metrics p) k \<noteq> None then map_get (p_Metrics p) k else map_get (Metrics r) k))"
proof -
  obtain row where row: "fmlookup (t_runs (rel db)) i = Some row" "r = row_run (rel db) row"
    using r by (auto simp: tab_content_def)
  obtain db' where "in_tx eng (update_statements i u p) db = Inr db'" "rel db' = updated i u p row (rel db)"
    using in_tx_ok [OF update_effect [OF row(1)]] by metis
  then show ?thesis
    using updated_inv [OF inv row(1)] updated_content [OF inv row(1) u [unfolded row(2)]] r u
    by (auto simp: duck_Update_def duck_get_content [OF inv] row(2))
qed

lemma hydrate_rows:
  assumes dist: "distinct (map row_run_id rows)"
  shows "\<exists>rs. hydrate eng (map list_row rows) dbp dbm = Inr rs \<and>
    hydrateCaptureAttempted eng rs dba = Inr (map (row_run (seen (rel dbp) (rel dbm) (rel dba))) rows)"
proof (cases "rows = []")
  case True
  then show ?thesis by (simp add: hydrate_def hydrateCaptureAttempted_def)
next
  case False
  let ?ids = "map row_run_id rows" and ?rs = "map list_row rows" and ?T = "seen (rel dbp) (rel dbm) (rel dba)"
  have ids: "map RunID ?rs = ?ids" by simp
  obtain prows where p: "eng_params_in eng ?ids dbp = Inr prows"
      "set prows = {(i, k, v). i \<in> set ?ids \<and> fmlookup (t_params ?T) (i, k) = Some v}"
    unfolding seen_def using params_in_law [of ?ids dbp] by auto
  obtain mrows where m: "eng_metrics_in eng ?ids dbm = Inr mrows"
      "set mrows = {(i, k, v). i \<in> set ?ids \<and> fmlookup (t_metrics ?T) (i, k) = Some v}"
    unfolding seen_def using metrics_in_law [of ?ids dbm] by auto
  obtain arows where a: "eng_attempted_in eng ?ids dba = Inr arows" "distinct arows" "sorted (map snd arows)"
      "set arows = {(i, f). i \<in> set ?ids \<and> (i, f) |\<in>| t_attempted ?T}"
    unfolding seen_def using attempted_in_law [of ?ids dba] by auto
  let ?hs = "foldl (put_metric (by_id ?rs)) (foldl (put_param (by_id ?rs)) ?rs prows) mrows"
  have hs: "map RunID ?hs = ?ids" by (simp only: hydrated_ids ids)
  then have "?hs \<noteq> []" using False by auto
  moreover have "hydrate eng ?rs dbp dbm = Inr ?hs"
    unfolding hydrate_def ids using False p(1) m(1) by (simp add: Let_def)
  moreover have "foldl (put_attempted (by_id ?hs)) ?hs arows = map (row_run ?T) rows"
    by (rule hydrated_page [OF by_id_rows [OF ids dist] by_id_rows [OF hs dist] dist p(2) m(2) a(2,3,4)])
  ultimately show ?thesis using a(1) hs by (simp add: hydrateCaptureAttempted_def)
qed

text \<open>
  What \<open>List\<close> returns, whichever databases its later statements see: which runs and the cursor are
  decided by the first one.
\<close>

lemma duck_list_at:
  assumes inv: "tab_inv (rel db)" and q: "duck_listable q"
  shows "\<exists>rows n nxt. is_listing q (tab_content (rel db)) (map (row_run (rel db)) rows)
    \<and> (\<forall>row \<in> set rows. fmlookup (t_runs (rel db)) (row_run_id row) = Some row)
    \<and> paginate (map (row_run (rel db)) rows) (q_Limit q) = \<lparr>pg_Runs = map (row_run (rel db)) (take n rows), pg_Next = nxt\<rparr>
    \<and> (\<forall>dbp dbm dba. duck_List_at eng q db dbp dbm dba =
         Inr \<lparr>pg_Runs = map (row_run (seen (rel dbp) (rel dbm) (rel dba))) (take n rows), pg_Next = nxt\<rparr>)"
proof -
  let ?T = "rel db" and ?lmt = "if 0 < q_Limit q then Some (q_Limit q + 1) else None"
  have lmt: "0 \<le> n" if "?lmt = Some n" for n using that by (simp split: if_splits)
  obtain rows where sel: "eng_select_runs eng (conditions q) ?lmt db =
        Inr (case ?lmt of None \<Rightarrow> rows | Some n \<Rightarrow> take (nat n) rows)"
    and sorted: "sorted_wrt (\<lambda>a b. row_key a < row_key b) rows"
    and set: "set rows = {row. fmlookup (t_runs ?T) (row_run_id row) = Some row \<and> list_all (\<lambda>c. holds c row) (conditions q)}"
    using select_runs_law [of ?lmt "conditions q" db, OF lmt] by blast
  have key: "list_less (row_run ?T a) (row_run ?T b) \<longleftrightarrow> row_key a < row_key b" for a b
    by (simp add: list_less_key list_key_def row_key_def)
  have cond: "list_all (\<lambda>c. holds c row) (conditions q) \<longleftrightarrow> query_match q (row_run ?T row) \<and> after_ok q (row_run ?T row)"
    if "fmlookup (t_runs ?T) i = Some row" for i row
    using conditions_select [OF q tab_inv_rowD(3) [OF inv that]] .
  have "is_listing q (tab_content ?T) (map (row_run ?T) rows)"
  proof -
    have "set (map (row_run ?T) rows) = {r. (\<exists>i. tab_content ?T i = Some r) \<and> query_match q r \<and> after_ok q r}"
      using cond tab_inv_rowD(1) [OF inv] by (auto simp: set tab_content_def image_iff)
    then show ?thesis using sorted by (simp add: is_listing_def sorted_wrt_map key)
  qed
  moreover obtain n nxt where pg: "trim_page (map list_row (if 0 < q_Limit q then take (nat (q_Limit q + 1)) rows else rows))
        (q_Limit q) = (map list_row (take n rows), nxt)"
      "paginate (map (row_run ?T) rows) (q_Limit q) = \<lparr>pg_Runs = map (row_run ?T) (take n rows), pg_Next = nxt\<rparr>"
    by (rule trim_page_rows [of "row_run ?T" "q_Limit q" rows]) simp_all
  moreover have "duck_List_at eng q db dbp dbm dba =
      Inr \<lparr>pg_Runs = map (row_run (seen (rel dbp) (rel dbm) (rel dba))) (take n rows), pg_Next = nxt\<rparr>" for dbp dbm dba
  proof -
    let ?pg = "take n rows"
    have "distinct (map row_run_id rows)" by (rule sorted_row_ids [OF sorted, of "t_runs ?T"]) (simp add: set)
    then have "distinct (map row_run_id ?pg)" by (simp add: take_map [symmetric] distinct_take)
    then obtain hs where "hydrate eng (map list_row ?pg) dbp dbm = Inr hs"
        "hydrateCaptureAttempted eng hs dba = Inr (map (row_run (seen (rel dbp) (rel dbm) (rel dba))) ?pg)"
      using hydrate_rows by blast
    moreover have "(case ?lmt of None \<Rightarrow> rows | Some n \<Rightarrow> take (nat n) rows) =
        (if 0 < q_Limit q then take (nat (q_Limit q + 1)) rows else rows)" by simp
    moreover have "(if 0 < q_Limit q then Some (limit_plus_one (q_Limit q)) else None) = ?lmt"
      using q limit_plus_one_exact by (simp add: duck_listable_def)
    ultimately show ?thesis using pg(1) by (simp only: duck_List_at_def sel sum.case prod.case)
  qed
  ultimately show ?thesis using set by blast
qed

lemma duck_list_law:
  assumes "tab_inv (rel db)" "duck_listable q"
  shows "\<exists>xs. is_listing q (tab_content (rel db)) xs \<and> duck_List eng q db = Inr (paginate xs (q_Limit q))"
  using duck_list_at [OF assms] unfolding duck_List_def by (metis seen_same)

end

sublocale sql_engine \<subseteq> duck: run_store "duck_Record eng" "duck_Update eng" "duck_Get eng" "duck_List eng"
  "\<lambda>db. tab_content (rel db)" "\<lambda>db. tab_inv (rel db)" duck_canon "\<lambda>x r. runsEqual x (NormalizeCapture r)"
  duck_storable duck_eqv duck_listable
proof (unfold_locales, goal_cases)
  case (14 r s u)
  then show ?case by (rule duck_eqv_trans)
next
  case (3 st r)
  then show ?case using duck_record_fresh(1) by blast
next
  case (4 st r)
  then show ?case using duck_record_fresh(2) by blast
next
  case (7 st i r now p u)
  then show ?case using duck_update_ok by blast
next
  case (9 st q)
  then show ?case using duck_list_law by blast
next
  case (11 st q i r)
  then have "StartedAt r = duck_time (StartedAt r)"
    using arg_cong [OF duck_stored(2), of _ _ _ StartedAt] by (auto simp: duck_canon_def)
  then have "in_int64 (StartedAt r)" by (metis duck_time_unix in_int64_unix_utc)
  with 11 show ?case by (simp add: duck_listable_def)
next
  case (12 r u)
  then show ?case using duck_canon_evolves by blast
qed (auto simp: duck_Record_def duck_Update_def duck_Get_def duck_get_content Let_def duck_eqv_refl duck_eqv_def
    dest: duck_stored)

end
