(* ===== verification/Duckdb_Rules.thy ===== *)
theory Duckdb_Rules
  imports Duckdb_Store Memory_Rules
begin

text \<open>
  What a client sees of the durable backend over any engine that meets \<open>sql_engine\<close>, and the
  points where the two backends differ.
\<close>

section \<open>Histories\<close>

definition duck_exec :: "('db, 'tx) engine \<Rightarrow> 'db \<Rightarrow> store_op \<Rightarrow> 'db" where
  "duck_exec eng db op' =
     (case op' of OpRecord r \<Rightarrow> snd (duck_Record eng r db) | OpUpdate now i p \<Rightarrow> snd (duck_Update eng now i p db))"

context sql_engine
begin

lemma duck_exec_eq: "duck_exec eng = duck.exec"
  by (intro ext) (simp add: duck_exec_def duck.exec_def)

lemma duck_history:
  assumes "tab_inv (rel db)"
  shows "tab_inv (rel (foldl (duck_exec eng) db ops))"
    and "tab_content (rel db) i = Some r \<Longrightarrow>
      \<exists>u. tab_content (rel (foldl (duck_exec eng) db ops)) i = Some u \<and> evolves_by duck_eqv r u"
  using duck.exec_all [OF assms, of ops] unfolding duck_exec_eq by blast+

lemma duck_Get_Inr: "tab_inv (rel db) \<Longrightarrow> duck_Get eng i db = Inr r \<longleftrightarrow> tab_content (rel db) i = Some r"
  by (simp add: duck.get_law split: option.splits)

end

text \<open>
  Whatever requests follow, the durable backend never loses a recorded run and lets it only
  evolve: id, identity, fingerprint, start and capture declaration stay, the status moves along
  legal transitions, and a finished run changes at most in the sign of a zero metric. The tables
  stay consistent throughout.
\<close>

theorem duckdb_history_evolves:
  assumes "sql_engine eng rel relx" "tab_inv (rel db)" "duck_Get eng i db = Inr r"
  shows "tab_inv (rel (foldl (duck_exec eng) db ops)) \<and>
    (\<exists>u. duck_Get eng i (foldl (duck_exec eng) db ops) = Inr u \<and> RunID u = RunID r \<and> identity_of u = identity_of r
      \<and> Fingerprint u = Fingerprint r \<and> Capture u = Capture r \<and> t_ns (StartedAt u) = t_ns (StartedAt r)
      \<and> legalTransitions\<^sup>*\<^sup>* (Status r) (Status u) \<and> (Terminal (Status r) \<longrightarrow> duck_eqv r u))"
proof -
  let ?db = "foldl (duck_exec eng) db ops"
  have inv: "tab_inv (rel ?db)" by (rule sql_engine.duck_history(1) [OF assms(1,2)])
  have "tab_content (rel db) i = Some r" using assms sql_engine.duck_Get_Inr by metis
  then obtain u where "tab_content (rel ?db) i = Some u" "evolves_by duck_eqv r u"
    using sql_engine.duck_history(2) [OF assms(1,2)] by metis
  then show ?thesis using inv sql_engine.duck_Get_Inr [OF assms(1) inv] by (auto simp: evolves_by_def)
qed

definition sample_tables :: tables where
  "sample_tables = recorded sample_run empty_tables"

lemma sample_run_storable [simp]: "duck_storable sample_run" "NormalizeCapture sample_run = sample_run"
  by (simp_all add: duck_storable_def int32_def NormalizeCapture_def sample_run_def zero_run_def)

lemma sample_run_canon: "duck_canon sample_run = sample_run"
proof -
  have "fmap_of_list [(''lr'', ''3e-4''), (''bs'', ''32'')] \<noteq> fmempty"
    by (metis fmempty_lookup fmlookup_of_list map_of_Cons_code(2) option.distinct(1))
  moreover have "unix_utc (UnixNano \<lparr>t_ns = 1000, t_loc = UTC\<rparr>) = \<lparr>t_ns = 1000, t_loc = UTC\<rparr>"
    by (simp add: unix_utc_UnixNano in_int64_def)
  ultimately show ?thesis by (simp add: duck_canon_def sample_run_def zero_run_def unempty_def duck_time_unix)
qed

lemma empty_tables_content: "tab_content empty_tables = Map.empty"
  by (auto simp: tab_content_def empty_tables_def)

lemma sample_tables_recorded: "duck_Record tab_engine sample_run empty_tables = (None, sample_tables)"
proof -
  have "fmlookup (t_runs empty_tables) (RunID sample_run) = None" by (simp add: empty_tables_def)
  from record_effect [OF empty_tables_inv this]
  have "tab_all (record_statements sample_run) empty_tables = Some sample_tables" by (simp add: sample_tables_def)
  moreover have "exec_all tab_engine ss T = (case tab_all ss T of None \<Rightarrow> Inl ''constraint violated'' | Some T' \<Rightarrow> Inr T')" for ss T
    by (induction ss arbitrary: T) (auto simp: tab_engine_def split: option.splits)
  ultimately have "in_tx tab_engine (record_statements sample_run) empty_tables = Inr sample_tables"
    by (simp add: in_tx_def) (simp add: tab_engine_def)
  then show ?thesis
    by (simp add: duck_Record_def Validate_sample_run tab.duck_get_content empty_tables_inv empty_tables_content errors_Is_def)
qed

lemma sample_tables_inv: "tab_inv sample_tables"
  unfolding sample_tables_def by (rule recorded_inv [OF empty_tables_inv]) (simp_all add: empty_tables_def)

lemma sample_tables_content: "tab_content sample_tables = [''run_1'' \<mapsto> sample_run]"
  unfolding sample_tables_def
  by (subst recorded_content [OF empty_tables_inv])
    (simp_all add: empty_tables_def sample_run_canon flip: empty_tables_content)

lemma sample_tables_Get: "duck_Get tab_engine ''run_1'' sample_tables = Inr sample_run"
  using tab.duck_Get_Inr [OF sample_tables_inv] by (simp add: sample_tables_content)

theorem duckdb_history_evolves_witness:
  "tab_inv (foldl (duck_exec tab_engine) sample_tables [OpUpdate sample_now ''run_1'' sample_patch]) \<and>
   (\<exists>u. duck_Get tab_engine ''run_1'' (foldl (duck_exec tab_engine) sample_tables
       [OpUpdate sample_now ''run_1'' sample_patch]) = Inr u \<and> identity_of u = identity_of sample_run)"
  using duckdb_history_evolves [OF tab.sql_engine_axioms sample_tables_inv sample_tables_Get] by blast

section \<open>Recording and reading back\<close>

lemma duck_canon_simps [simp]:
  "RunID (duck_canon r) = RunID r" "StartedAt (duck_canon r) = duck_time (StartedAt r)"
  "EndedAt (duck_canon r) = map_option duck_time (EndedAt r)" "Metrics (duck_canon r) = unempty (Metrics r)"
  "Params (duck_canon r) = unempty (Params r)"
  by (simp_all add: duck_canon_def)

text \<open>The run the idempotency check compares with, for a run that is its own canonical form up to instants.\<close>

lemma runsEqual_canon:
  assumes "in_int64 (StartedAt r)" "\<And>t. EndedAt r = Some t \<Longrightarrow> in_int64 t"
    and nn: "no_nan (Metrics r)" and "Params r \<noteq> Some fmempty" "Metrics r \<noteq> Some fmempty"
    and cap: "\<And>c. Capture r = Some c \<Longrightarrow> Attempted c \<noteq> Some []"
  shows "runsEqual (duck_canon r) (NormalizeCapture r)"
proof -
  have t: "Equal (duck_time (StartedAt r)) (StartedAt r)" "endedAtEqual (map_option duck_time (EndedAt r)) (EndedAt r)"
    using assms(1,2) by (cases "EndedAt r"; simp add: endedAtEqual_def duck_time_unix Equal_unix_utc)+
  have m: "unempty (Metrics r) = Metrics r" "unempty (Params r) = Params r" using assms by (simp_all add: unempty_def)
  have c: "Capture (duck_canon r) = Capture (NormalizeCapture r)"
  proof (cases "Capture r")
    case (Some c)
    have [simp]: "sort xs = [] \<longleftrightarrow> xs = []" for xs :: "string list" by (metis length_0_conv length_sort)
    have "nilled (sort (slice (Attempted c))) = (if length (slice (Attempted c)) < 2 then Attempted c else Some (sort (slice (Attempted c))))"
      using cap [OF Some] by (cases "Attempted c") (auto simp: nilled_def sorted_sort_id sorted01)
    with Some show ?thesis by (simp add: duck_canon_def NormalizeCapture_def)
  qed (simp add: duck_canon_def NormalizeCapture_def)
  have "(duck_canon r)\<lparr>StartedAt := zero_time, EndedAt := None\<rparr> = (NormalizeCapture r)\<lparr>StartedAt := zero_time, EndedAt := None\<rparr>"
  proof (rule run.equality)
    show "Capture ((duck_canon r)\<lparr>StartedAt := zero_time, EndedAt := None\<rparr>) =
        Capture ((NormalizeCapture r)\<lparr>StartedAt := zero_time, EndedAt := None\<rparr>)" using c by simp
  qed (simp_all add: duck_canon_def m NormalizeCapture_def split: option.split)
  moreover have "DeepEqual x x" if "Metrics x = Metrics r" for x
    using nn that by (simp add: no_nan_DeepEqual)
  ultimately show ?thesis using t by (simp add: runsEqual_def)
qed

text \<open>
  Property C18. A valid run with a new id that fits the schema (no field attempted twice, a 32-bit fingerprint
  version) is recorded; reading it returns it with instants as UTC nanoseconds, attempted fields
  sorted and no empty containers, other runs are untouched, and recording the same run
  again succeeds without changing the database (unless it has a NaN metric, an empty non-nil container
  or an instant outside the range of an int64 of nanoseconds).
\<close>

theorem duckdb_record_get:
  assumes "sql_engine eng rel relx" "tab_inv (rel db)" "Validate r = None" "duck_storable r"
    "duck_Get eng (RunID r) db = Inl ErrNotFound"
  shows "\<exists>db'. duck_Record eng r db = (None, db') \<and> duck_Get eng (RunID r) db' = Inr (duck_canon r)
    \<and> (\<forall>j. j \<noteq> RunID r \<longrightarrow> duck_Get eng j db' = duck_Get eng j db)
    \<and> (in_int64 (StartedAt r) \<and> (\<forall>t. EndedAt r = Some t \<longrightarrow> in_int64 t) \<and> no_nan (Metrics r)
        \<and> Params r \<noteq> Some fmempty \<and> Metrics r \<noteq> Some fmempty \<and> (\<forall>c. Capture r = Some c \<longrightarrow> Attempted c \<noteq> Some [])
        \<longrightarrow> duck_Record eng r db' = (None, db'))"
proof -
  note get = sql_engine.duck_get_content [OF assms(1)]
  have none: "tab_content (rel db) (RunID r) = None"
    using assms(5) by (simp add: duck_Get_def get [OF assms(2)] split: option.splits)
  obtain db' where db': "duck_Record eng r db = (None, db')" "tab_inv (rel db')"
      "tab_content (rel db') = (tab_content (rel db))(RunID r \<mapsto> duck_canon r)"
    using sql_engine.duck_record_fresh(1) [OF assms(1-3) none assms(4)] by blast
  moreover have "duck_Record eng r db' = (None, db')" if "runsEqual (duck_canon r) (NormalizeCapture r)"
    using that db' assms(3) by (simp add: duck_Record_def get Let_def)
  ultimately show ?thesis using runsEqual_canon [of r] by (auto simp: duck_Get_def get assms(2))
qed

theorem duckdb_record_get_witness:
  "\<exists>db'. duck_Record tab_engine sample_run empty_tables = (None, db')
     \<and> duck_Get tab_engine ''run_1'' db' = Inr sample_run"
proof -
  have "duck_Get tab_engine (RunID sample_run) empty_tables = Inl ErrNotFound"
    by (simp add: duck_Get_def tab.duck_get_content empty_tables_inv empty_tables_content)
  from duckdb_record_get [OF tab.sql_engine_axioms empty_tables_inv Validate_sample_run sample_run_storable(1) this]
  show ?thesis by (auto simp: sample_run_canon)
qed

section \<open>Where the retry check is too strict\<close>

text \<open>
  Property C35. The durable backend stores no row for an empty map or slice and reads it back as nil, which
  \<open>reflect.DeepEqual\<close> tells apart: recording the same run with an empty, non-nil \<open>params\<close>, \<open>metrics\<close>
  or \<open>capture.attempted\<close> a second time is refused as a conflict.
\<close>

theorem duckdb_empty_container_retry_conflicts:
  assumes "sql_engine eng rel relx" "tab_inv (rel db)" "Validate r = None" "duck_storable r"
    "duck_Get eng (RunID r) db = Inl ErrNotFound"
    "Params r = Some fmempty \<or> Metrics r = Some fmempty \<or> (\<exists>c. Capture r = Some c \<and> Attempted c = Some [])"
  shows "\<exists>db'. duck_Record eng r db = (None, db') \<and> duck_Record eng r db' = (Some ErrConflict, db')"
proof -
  note get = sql_engine.duck_get_content [OF assms(1)]
  have none: "tab_content (rel db) (RunID r) = None"
    using assms(5) by (simp add: duck_Get_def get [OF assms(2)] split: option.splits)
  obtain db' where db': "duck_Record eng r db = (None, db')" "tab_inv (rel db')"
      "tab_content (rel db') = (tab_content (rel db))(RunID r \<mapsto> duck_canon r)"
    using sql_engine.duck_record_fresh(1) [OF assms(1-3) none assms(4)] by blast
  have "\<not> runsEqual (duck_canon r) (NormalizeCapture r)"
  proof
    assume "runsEqual (duck_canon r) (NormalizeCapture r)"
    then have "DeepEqual ((duck_canon r)\<lparr>StartedAt := zero_time, EndedAt := None\<rparr>)
        ((NormalizeCapture r)\<lparr>StartedAt := zero_time, EndedAt := None\<rparr>)"
      by (simp add: runsEqual_def split: if_splits)
    then have eq: "Params (duck_canon r) = Params r" "Capture (duck_canon r) = Capture (NormalizeCapture r)"
        "deep_metrics (unempty (Metrics r)) (Metrics r)"
      unfolding DeepEqual_def by (auto dest: arg_cong [of _ _ Params] arg_cong [of _ _ Capture])
    have "Params r \<noteq> Some fmempty" "Metrics r \<noteq> Some fmempty" using eq(1,3) by (auto simp: unempty_def deep_metrics_def)
    moreover have "Attempted c \<noteq> Some []" if "Capture r = Some c" for c
      using eq(2) that by (cases c) (auto simp: duck_canon_def NormalizeCapture_def nilled_def)
    ultimately show False using assms(6) by blast
  qed
  with db' assms(3) show ?thesis by (simp add: duck_Record_def get Let_def)
qed

theorem duckdb_empty_container_retry_conflicts_witness:
  "\<exists>db'. duck_Record tab_engine (sample_run\<lparr>Params := Some fmempty\<rparr>) empty_tables = (None, db') \<and>
     duck_Record tab_engine (sample_run\<lparr>Params := Some fmempty\<rparr>) db' = (Some ErrConflict, db')"
proof (rule duckdb_empty_container_retry_conflicts [OF tab.sql_engine_axioms empty_tables_inv])
  show "Validate (sample_run\<lparr>Params := Some fmempty\<rparr>) = None"
    using Validate_sample_run unfolding Validate_None_iff by simp
  show "duck_storable (sample_run\<lparr>Params := Some fmempty\<rparr>)"
    using sample_run_storable(1) by (simp add: duck_storable_def)
  show "duck_Get tab_engine (RunID (sample_run\<lparr>Params := Some fmempty\<rparr>)) empty_tables = Inl ErrNotFound"
    by (simp add: duck_Get_def tab.duck_get_content empty_tables_inv empty_tables_content)
qed simp

end
