(* ===== verification/Backends.thy ===== *)
theory Backends
  imports Duckdb_Rules
begin

text \<open>
  The two backends side by side. On requests that avoid the differences described in
  \<open>Duckdb_Rules\<close> they are indistinguishable: same answers, same listings.
\<close>

section \<open>Plain requests\<close>

definition neg_zero :: "float64 \<Rightarrow> bool" where
  "neg_zero v \<longleftrightarrow> f64_neg v \<and> f64_mag v = 0"

definition no_neg_zero :: "float64 gomap \<Rightarrow> bool" where
  "no_neg_zero m \<longleftrightarrow> list_all (\<lambda>k. \<not> neg_zero (the (map_get m k))) (map_keys_sorted m)"

text \<open>
  Times in UTC within the range of an int64 of nanoseconds, no empty non-nil container, no field
  attempted twice, a 32-bit fingerprint version, no negative zero.
\<close>

definition plain_run :: "run \<Rightarrow> bool" where
  "plain_run r \<longleftrightarrow> duck_canon r = NormalizeCapture r \<and> duck_storable r \<and> no_neg_zero (Metrics r)"

definition plain_patch :: "patch \<Rightarrow> bool" where
  "plain_patch p \<longleftrightarrow> map_option duck_time (p_EndedAt p) = p_EndedAt p \<and> p_Metrics p \<noteq> Some fmempty \<and> no_neg_zero (p_Metrics p)"

definition plain_op :: "store_op \<Rightarrow> bool" where
  "plain_op op' \<longleftrightarrow> (case op' of OpRecord r \<Rightarrow> plain_run r | OpUpdate now i p \<Rightarrow> duck_time now = now \<and> plain_patch p)"

section \<open>Answers\<close>

datatype reply = Recorded "store_error option" | Updated "store_error + run"

definition mem_answer :: "memory \<Rightarrow> store_op \<Rightarrow> reply \<times> memory" where
  "mem_answer m op' =
     (case op' of OpRecord r \<Rightarrow> apfst Recorded (mem_Record r m) | OpUpdate now i p \<Rightarrow> apfst Updated (mem_Update now i p m))"

definition duck_answer :: "('db, 'tx) engine \<Rightarrow> 'db \<Rightarrow> store_op \<Rightarrow> reply \<times> 'db" where
  "duck_answer eng db op' =
     (case op' of OpRecord r \<Rightarrow> apfst Recorded (duck_Record eng r db)
      | OpUpdate now i p \<Rightarrow> apfst Updated (duck_Update eng now i p db))"

fun answers :: "('st \<Rightarrow> store_op \<Rightarrow> reply \<times> 'st) \<Rightarrow> 'st \<Rightarrow> store_op list \<Rightarrow> reply list \<times> 'st" where
  "answers f st [] = ([], st)"
| "answers f st (op' # ops) = (case f st op' of (a, st') \<Rightarrow> apfst ((#) a) (answers f st' ops))"

section \<open>Comparisons on plain values\<close>

lemma f64_eq_plain:
  assumes "f64_eq v w" "\<not> neg_zero v" "\<not> neg_zero w"
  shows "v = w"
proof -
  have "0 \<le> f64_mag v" "0 \<le> f64_mag w" by (simp_all add: f64_mag_def)
  with assms have "uint v = uint w"
    unfolding f64_eq_def f64_ord_def neg_zero_def uint_f64_fields by (auto split: if_splits)
  then show ?thesis by (simp add: word_uint_eq_iff)
qed

lemma no_neg_zeroD: "no_neg_zero m \<Longrightarrow> map_get m k = Some v \<Longrightarrow> \<not> neg_zero v"
  by (force simp: no_neg_zero_def list_all_iff set_map_keys_sorted)

lemma Equal_duck_time: "Equal (duck_time s) (duck_time t) \<longleftrightarrow> duck_time s = duck_time t"
  by (simp add: Equal_def duck_time_unix unix_utc_def)

lemma runsEqual_DeepEqual:
  assumes "duck_canon a = a" "duck_canon b = b"
  shows "runsEqual a b = DeepEqual a b"
proof -
  have s: "StartedAt x = duck_time (StartedAt x)" "EndedAt x = map_option duck_time (EndedAt x)" if "duck_canon x = x" for x
    using arg_cong [OF that, of StartedAt] arg_cong [OF that, of EndedAt] by simp_all
  have "Equal (StartedAt a) (StartedAt b) \<longleftrightarrow> StartedAt a = StartedAt b"
    using s(1) [OF assms(1)] s(1) [OF assms(2)] Equal_duck_time by metis
  moreover have "endedAtEqual (EndedAt a) (EndedAt b) \<longleftrightarrow> EndedAt a = EndedAt b"
    using s(2) [OF assms(1)] s(2) [OF assms(2)] Equal_duck_time
    by (cases "EndedAt a"; cases "EndedAt b"; simp add: endedAtEqual_def) metis
  ultimately show ?thesis by (cases a; cases b) (auto simp: runsEqual_def DeepEqual_def)
qed

lemma patched_plain:
  assumes r: "duck_canon r = r" "no_neg_zero (Metrics r)" and p: "plain_patch p" "duck_time now = now"
    and u: "applyPatch now r p = Inr u"
  shows "duck_canon u = u" "no_neg_zero (Metrics u)"
    "map_get (Metrics u) k = (if map_get (p_Metrics p) k \<noteq> None then map_get (p_Metrics p) k else map_get (Metrics r) k)"
proof -
  have get: "map_get (Metrics u) k = (if map_get (p_Metrics p) k \<noteq> None then map_get (p_Metrics p) k else map_get (Metrics r) k)" for k
    using u
  proof (cases rule: applyPatch_cases)
    case noop
    then have "case map_get (Metrics r) k of Some w \<Rightarrow> f64_eq w v | None \<Rightarrow> False" if "map_get (p_Metrics p) k = Some v" for v
      using that by (auto simp: isNoopPatch_def list_all_iff set_map_keys_sorted split: if_splits option.splits)
    then show ?thesis using noop(3) r(2) p(1) no_neg_zeroD f64_eq_plain
      by (cases "map_get (p_Metrics p) k") (auto simp: plain_patch_def split: option.splits)
  next
    case changed
    then show ?thesis unfolding changed(2) patch_fields_def Let_def
      by (cases "p_Metrics p") (auto simp: map_get_fm fmlookup_dom_iff)
  qed
  then show "map_get (Metrics u) k = (if map_get (p_Metrics p) k \<noteq> None then map_get (p_Metrics p) k else map_get (Metrics r) k)" .
  show "no_neg_zero (Metrics u)"
    using get r(2) p(1) by (auto simp: no_neg_zero_def plain_patch_def list_all_iff set_map_keys_sorted split: if_splits)
  show "duck_canon u = u" using u
  proof (cases rule: applyPatch_cases)
    case noop
    then show ?thesis using r by simp
  next
    case changed
    note f = arg_cong [OF r(1), of StartedAt] arg_cong [OF r(1), of EndedAt] arg_cong [OF r(1), of Params]
      arg_cong [OF r(1), of Metrics] arg_cong [OF r(1), of Capture]
    have "unempty (Metrics u) = Metrics u"
    proof (cases "p_Metrics p")
      case None
      then show ?thesis using f(4) by (simp add: changed(2) patch_fields_def Let_def)
    next
      case (Some m)
      then have "m \<noteq> fmempty" using p(1) by (simp add: plain_patch_def)
      then obtain k v where "fmlookup m k = Some v" by (metis fmap_ext fmempty_lookup option.exhaust)
      then have "fmlookup (fmadd (fm (Metrics r)) m) k = Some v" by (simp add: fmdomI)
      then have "fmadd (fm (Metrics r)) m \<noteq> fmempty" by (metis fmempty_lookup option.distinct(1))
      then show ?thesis using Some by (simp add: changed(2) patch_fields_def Let_def unempty_def)
    qed
    moreover have "map_option duck_time (EndedAt u) = EndedAt u"
      using f(2) p by (auto simp: changed(2) patch_fields_def Let_def plain_patch_def split: option.splits)
    ultimately show ?thesis
      using f(1,3,5) by (intro run.equality) (simp_all add: changed(2), simp_all add: duck_canon_def)
  qed
qed

section \<open>Simulation\<close>

text \<open>The two stores hold the same plain runs.\<close>

definition same_stores :: "tables \<Rightarrow> memory \<Rightarrow> bool" where
  "same_stores T m \<longleftrightarrow> tab_inv T \<and> mem_inv m \<and> tab_content T = fmlookup (runs m) \<and>
     (\<forall>i r. fmlookup (runs m) i = Some r \<longrightarrow> no_neg_zero (Metrics r))"

lemma same_stores_empty: "same_stores empty_tables NewMemory"
  using mem_inv_New
  by (simp add: same_stores_def empty_tables_inv empty_tables_content) (simp add: NewMemory_def fun_eq_iff)

lemma same_storesD:
  assumes "same_stores T m"
  shows "tab_inv T" "mem_inv m" "tab_content T i = fmlookup (runs m) i" "fmlookup (runs m) i = Some r \<Longrightarrow> no_neg_zero (Metrics r)"
    "fmlookup (runs m) i = Some r \<Longrightarrow> duck_canon r = r"
  using assms duck_stored(2) by (auto simp: same_stores_def)

context sql_engine
begin

lemma record_simulates:
  assumes same: "same_stores (rel db) m" and plain: "plain_run r"
  shows "fst (duck_Record eng r db) = fst (mem_Record r m) \<and> same_stores (rel (snd (duck_Record eng r db))) (snd (mem_Record r m))"
proof (cases "Validate r")
  case (Some e)
  then show ?thesis using same by (simp add: duck_Record_def mem_Record_def)
next
  case None
  note s = same_storesD [OF same]
  have canon: "duck_canon (NormalizeCapture r) = NormalizeCapture r" using plain by (simp add: plain_run_def duck_canon_Normalize)
  show ?thesis
  proof (cases "fmlookup (runs m) (RunID r)")
    case fresh: None
    obtain db' where "duck_Record eng r db = (None, db')" "tab_inv (rel db')"
        "tab_content (rel db') = (tab_content (rel db))(RunID r \<mapsto> NormalizeCapture r)"
      using duck_record_fresh(1) [OF s(1) None] fresh plain s(3) by (auto simp: plain_run_def)
    then show ?thesis using None fresh same plain mem_inv_Record [OF s(2), of r]
      by (auto simp: same_stores_def mem_Record_def Let_def plain_run_def)
  next
    case (Some x)
    have "runsEqual x (NormalizeCapture r) = DeepEqual x (NormalizeCapture r)"
      by (rule runsEqual_DeepEqual [OF s(5) [OF Some] canon])
    then show ?thesis using None Some same s(3)
      by (simp add: duck_Record_def mem_Record_def duck_get_content [OF s(1)] Let_def)
  qed
qed

lemma update_simulates:
  assumes same: "same_stores (rel db) m" and plain: "plain_patch p" "duck_time now = now"
  shows "fst (duck_Update eng now i p db) = fst (mem_Update now i p m) \<and>
    same_stores (rel (snd (duck_Update eng now i p db))) (snd (mem_Update now i p m))"
proof (cases "fmlookup (runs m) i")
  case None
  then show ?thesis using same same_storesD [OF same]
    by (simp add: duck_Update_def mem_Update_def duck_get_content)
next
  case (Some r)
  note s = same_storesD [OF same]
  have r: "tab_content (rel db) i = Some r" using s(3) Some by simp
  show ?thesis
  proof (cases "applyPatch now r p")
    case (Inl e)
    then show ?thesis using same Some s by (simp add: duck_Update_def mem_Update_def duck_get_content)
  next
    case (Inr u)
    note u = patched_plain [OF s(5,4) [OF Some] plain Inr]
    obtain db' x where x: "duck_Update eng now i p db = (Inr u, db')" "tab_inv (rel db')"
        "tab_content (rel db') = (tab_content (rel db))(i \<mapsto> x)" "duck_eqv (duck_canon u) x"
        "\<And>k. map_get (Metrics x) k = map_get (Metrics u) k"
      using duck_update_ok [OF s(1) r Inr] u(3) by metis
    have "duck_canon x = x" using duck_stored(2) [OF x(2), of i x] x(3) by simp
    then have "Metrics x = Metrics u"
      using u(1) x(5) by (intro gomap_ext) (metis duck_canon_simps(4) unempty_props(1))+
    moreover have "x\<lparr>Metrics := None\<rparr> = u\<lparr>Metrics := None\<rparr>" using x(4) u(1) by (simp add: duck_eqv_def)
    ultimately have "x = u" by (cases x; cases u) simp
    then show ?thesis using x(1-3) Some Inr same u(2) mem_inv_Update [OF s(2), of now i p]
      by (auto simp: same_stores_def mem_Update_def)
  qed
qed

lemma answers_simulate:
  assumes "same_stores (rel db) m" "list_all plain_op ops"
  shows "fst (answers (duck_answer eng) db ops) = fst (answers mem_answer m ops) \<and>
    same_stores (rel (snd (answers (duck_answer eng) db ops))) (snd (answers mem_answer m ops))"
  using assms
proof (induction ops arbitrary: db m)
  case (Cons op' ops)
  have "fst (duck_answer eng db op') = fst (mem_answer m op') \<and>
      same_stores (rel (snd (duck_answer eng db op'))) (snd (mem_answer m op'))"
    using record_simulates [OF Cons.prems(1)] update_simulates [OF Cons.prems(1)] Cons.prems(2)
    by (cases op') (simp_all add: plain_op_def duck_answer_def mem_answer_def)
  with Cons show ?case by (simp add: split_beta)
qed simp

lemma same_reads:
  assumes "same_stores (rel db) m"
  shows "duck_Get eng i db = mem_Get i m" "duck_listable q \<Longrightarrow> duck_List eng q db = mem_List q m"
proof -
  note s = same_storesD [OF assms]
  show "duck_Get eng i db = mem_Get i m" using s(1,3) by (simp add: duck.get_law mem_Get_def)
  assume "duck_listable q"
  then obtain xs where xs: "is_listing q (tab_content (rel db)) xs" "duck_List eng q db = Inr (paginate xs (q_Limit q))"
    using duck.list_law s(1) by blast
  obtain ys where ys: "is_listing q (fmlookup (runs m)) ys" "mem_List q m = Inr (paginate ys (q_Limit q))"
    using mem.list_law s(2) by blast
  have "tab_content (rel db) = fmlookup (runs m)" using assms by (simp add: same_stores_def)
  then have "xs = ys" using xs(1) ys(1) listing_unique by metis
  with xs ys show "duck_List eng q db = mem_List q m" by simp
qed

end

text \<open>
  Property C7. The durable backend refines the in-process one: started empty and sent the same plain requests,
  both give the same answer to each, errors included, and afterwards every read and every listing
  agree.
\<close>

theorem backends_agree:
  assumes "sql_engine eng rel relx" "rel db = empty_tables" "list_all plain_op ops"
    and "answers (duck_answer eng) db ops = (as, db')" "answers mem_answer NewMemory ops = (bs, m')"
  shows "as = bs \<and> duck_Get eng i db' = mem_Get i m' \<and> (duck_listable q \<longrightarrow> duck_List eng q db' = mem_List q m')"
proof -
  have "same_stores (rel db) NewMemory" using assms(2) same_stores_empty by simp
  from sql_engine.answers_simulate [OF assms(1) this assms(3)] assms(4,5)
  have "as = bs" "same_stores (rel db') m'" by simp_all
  then show ?thesis using sql_engine.same_reads [OF assms(1)] by blast
qed

lemma sample_ops_plain: "list_all plain_op [OpRecord sample_run, OpUpdate sample_now ''run_1'' sample_patch]"
proof -
  have "plain_run sample_run" by (simp add: plain_run_def sample_run_canon no_neg_zero_def map_keys_sorted_def)
  moreover have "duck_time sample_now = sample_now"
    by (simp add: duck_time_unix unix_utc_UnixNano sample_now_def in_int64_def)
  moreover have "plain_patch sample_patch"
  proof -
    have "fmap_of_list [(''loss'', v)] \<noteq> fmempty" for v :: float64
      by (metis fmempty_lookup fmlookup_of_list map_of_Cons_code(2) option.distinct(1))
    then show ?thesis
      by (simp add: plain_patch_def sample_patch_def empty_patch_def no_neg_zero_def map_keys_sorted_def neg_zero_def f64_neg_def list_all_iff)
  qed
  ultimately show ?thesis by (simp add: plain_op_def)
qed

theorem backends_agree_witness:
  "fst (answers (duck_answer tab_engine) empty_tables [OpRecord sample_run, OpUpdate sample_now ''run_1'' sample_patch]) =
   fst (answers mem_answer NewMemory [OpRecord sample_run, OpUpdate sample_now ''run_1'' sample_patch])"
  using backends_agree [OF tab.sql_engine_axioms refl sample_ops_plain surjective_pairing surjective_pairing] by blast

end
