(* ===== verification/Duckdb_Schema.thy ===== *)
theory Duckdb_Schema
  imports Prelude
begin

text \<open>
  The schema of the DuckDB backend: the chain \<open>migrations\<close> of \<open>internal/store/duckdb.go\<close> and the loop
  \<open>migrate\<close> that applies what a database has not seen yet. The engine is a parameter; the locale
  \<open>schema_engine\<close> says what its data definition statements mean.
\<close>

section \<open>Statements\<close>

datatype sql_type = VARCHAR | BOOLEAN | BIGINT | INTEGER | DOUBLE

datatype sql_value = VText string | VBool bool | VInt int | VDouble "64 word" | VNull

record column_def =
  cd_name :: string
  cd_type :: sql_type
  cd_not_null :: bool

text \<open>Columns, primary key, and the column that references another table's key.\<close>

datatype ddl =
    CreateTable string "column_def list" "string list" "(string \<times> string \<times> string) option"
  | CreateIndex string string "string list"
  | AddColumn string string sql_type sql_value

definition required :: "string \<Rightarrow> sql_type \<Rightarrow> column_def" where
  "required n ty = \<lparr>cd_name = n, cd_type = ty, cd_not_null = True\<rparr>"

definition nullable :: "string \<Rightarrow> sql_type \<Rightarrow> column_def" where
  "nullable n ty = \<lparr>cd_name = n, cd_type = ty, cd_not_null = False\<rparr>"

definition migrations :: "ddl list" where
  "migrations =
     [CreateTable ''runs''
        [required ''run_id'' VARCHAR, required ''project'' VARCHAR, required ''git_commit'' VARCHAR,
         required ''git_dirty'' BOOLEAN, required ''config_hash'' VARCHAR, required ''dataset_version'' VARCHAR,
         required ''model_version'' VARCHAR, required ''seed'' BIGINT, required ''fingerprint'' VARCHAR,
         required ''host'' VARCHAR, required ''device'' VARCHAR, required ''framework_version'' VARCHAR,
         required ''status'' VARCHAR, required ''started_at_ns'' BIGINT, nullable ''ended_at_ns'' BIGINT,
         required ''checkpoint_uri'' VARCHAR]
        [''run_id''] None,
      CreateTable ''run_params''
        [required ''run_id'' VARCHAR, required ''key'' VARCHAR, required ''value'' VARCHAR]
        [''run_id'', ''key''] (Some (''run_id'', ''runs'', ''run_id'')),
      CreateTable ''run_metrics''
        [required ''run_id'' VARCHAR, required ''key'' VARCHAR, required ''value'' DOUBLE]
        [''run_id'', ''key''] (Some (''run_id'', ''runs'', ''run_id'')),
      CreateIndex ''idx_runs_project_started'' ''runs'' [''project'', ''started_at_ns''],
      CreateIndex ''idx_runs_fingerprint'' ''runs'' [''fingerprint''],
      AddColumn ''runs'' ''fingerprint_version'' INTEGER (VInt 1),
      AddColumn ''runs'' ''submitter_claim'' VARCHAR (VText []),
      AddColumn ''runs'' ''job_id'' VARCHAR (VText []),
      AddColumn ''runs'' ''capture_declared'' BOOLEAN (VBool False),
      AddColumn ''runs'' ''capture_client'' VARCHAR (VText []),
      CreateTable ''run_capture_attempted''
        [required ''run_id'' VARCHAR, required ''field'' VARCHAR]
        [''run_id'', ''field''] (Some (''run_id'', ''runs'', ''run_id''))]"

section \<open>What the statements mean\<close>

record table_def =
  td_columns :: "column_def list"
  td_key :: "string list"
  td_refs :: "(string \<times> string \<times> string) option"
  td_rows :: "(string, sql_value) fmap list"

record catalog =
  cat_tables :: "(string, table_def) fmap"
  cat_indexes :: "string list"

definition empty_catalog :: catalog where
  "empty_catalog = \<lparr>cat_tables = fmempty, cat_indexes = []\<rparr>"

definition has_columns :: "catalog \<Rightarrow> string \<Rightarrow> string list \<Rightarrow> bool" where
  "has_columns c t cs \<longleftrightarrow>
     (case fmlookup (cat_tables c) t of None \<Rightarrow> False | Some td \<Rightarrow> list_all (\<lambda>x. x \<in> set (map cd_name (td_columns td))) cs)"

text \<open>\<^term>\<open>None\<close> is an error: a missing table or column, or a column that exists already.\<close>

fun ddl_exec :: "ddl \<Rightarrow> catalog \<Rightarrow> catalog option" where
  "ddl_exec (CreateTable t cs pk ref) c =
     (if fmlookup (cat_tables c) t \<noteq> None then Some c
      else if (case ref of None \<Rightarrow> True | Some (x, t', y) \<Rightarrow> has_columns c t' [y])
      then Some (c\<lparr>cat_tables := fmupd t \<lparr>td_columns = cs, td_key = pk, td_refs = ref, td_rows = []\<rparr> (cat_tables c)\<rparr>)
      else None)"
| "ddl_exec (CreateIndex n t cs) c =
     (if n \<in> set (cat_indexes c) then Some c
      else if has_columns c t cs then Some (c\<lparr>cat_indexes := n # cat_indexes c\<rparr>) else None)"
| "ddl_exec (AddColumn t n ty d) c =
     (case fmlookup (cat_tables c) t of
        None \<Rightarrow> None
      | Some td \<Rightarrow>
          if n \<in> set (map cd_name (td_columns td)) then None
          else Some (c\<lparr>cat_tables := fmupd t (td\<lparr>td_columns := td_columns td @ [nullable n ty],
            td_rows := map (fmupd n d) (td_rows td)\<rparr>) (cat_tables c)\<rparr>))"

fun run_ddl :: "ddl list \<Rightarrow> catalog \<Rightarrow> catalog option" where
  "run_ddl [] c = Some c"
| "run_ddl (d # ds) c = (case ddl_exec d c of None \<Rightarrow> None | Some c' \<Rightarrow> run_ddl ds c')"

lemma run_ddl_append: "run_ddl (ds @ ds') c = (case run_ddl ds c of None \<Rightarrow> None | Some c' \<Rightarrow> run_ddl ds' c')"
  by (induction ds arbitrary: c) (auto split: option.splits)

text \<open>A catalogue without its rows.\<close>

definition erase :: "catalog \<Rightarrow> catalog" where
  "erase c = c\<lparr>cat_tables := fmmap (td_rows_update (\<lambda>_. [])) (cat_tables c)\<rparr>"

lemma erase_simps [simp]:
  "cat_tables (erase c) = fmmap (td_rows_update (\<lambda>_. [])) (cat_tables c)" "cat_indexes (erase c) = cat_indexes c"
  "erase (c\<lparr>cat_tables := m\<rparr>) = (erase c)\<lparr>cat_tables := fmmap (td_rows_update (\<lambda>_. [])) m\<rparr>"
  "erase (c\<lparr>cat_indexes := ns\<rparr>) = (erase c)\<lparr>cat_indexes := ns\<rparr>"
  by (simp_all add: erase_def)

lemma has_columns_erase [simp]: "has_columns (erase c) = has_columns c"
  by (intro ext) (simp add: has_columns_def split: option.split)

lemma fmmap_fmupd: "fmmap f (fmupd k v m) = fmupd k (f v) (fmmap f m)"
  by (rule fmap_ext) simp

lemma ddl_exec_erase: "ddl_exec d (erase c) = map_option erase (ddl_exec d c)"
  by (cases d) (simp_all add: fmmap_fmupd comp_def split: option.split)

lemma run_ddl_erase: "run_ddl ds (erase c) = map_option erase (run_ddl ds c)"
  by (induction ds arbitrary: c) (auto simp: ddl_exec_erase split: option.splits)

lemma erase_empty [simp]: "erase empty_catalog = empty_catalog"
  by (simp add: erase_def empty_catalog_def)

text \<open>What the statements make of a row that was there before.\<close>

fun fill :: "string \<Rightarrow> (string, sql_value) fmap \<Rightarrow> ddl \<Rightarrow> (string, sql_value) fmap" where
  "fill t row (AddColumn t' n ty d) = (if t' = t then fmupd n d row else row)"
| "fill t row _ = row"

lemma run_ddl_rows:
  assumes "run_ddl ds c = Some c'" "fmlookup (cat_tables c) t = Some td"
  shows "\<exists>td'. fmlookup (cat_tables c') t = Some td' \<and> td_rows td' = map (\<lambda>row. foldl (fill t) row ds) (td_rows td)"
  using assms
proof (induction ds arbitrary: c td)
  case (Cons d ds)
  then obtain c1 where c1: "ddl_exec d c = Some c1" "run_ddl ds c1 = Some c'" by (auto split: option.splits)
  have "\<exists>td1. fmlookup (cat_tables c1) t = Some td1 \<and> td_rows td1 = map (\<lambda>row. fill t row d) (td_rows td)"
    using c1(1) Cons.prems(2) by (cases d) (auto split: if_splits option.splits)
  then obtain td1 where "fmlookup (cat_tables c1) t = Some td1" "td_rows td1 = map (\<lambda>row. fill t row d) (td_rows td)" by blast
  with Cons.IH [OF c1(2)] show ?case by (simp add: comp_def)
qed simp

section \<open>The loop\<close>

record ('db, 'tx) migrator =
  mig_create :: "'db \<Rightarrow> string + 'db"
  mig_versions :: "'db \<Rightarrow> string + nat list"
  mig_begin :: "'db \<Rightarrow> string + 'tx"
  mig_ddl :: "ddl \<Rightarrow> 'tx \<Rightarrow> string + 'tx"
  mig_insert :: "nat \<Rightarrow> 'tx \<Rightarrow> string + 'tx"
  mig_commit :: "'tx \<Rightarrow> string + 'db"

definition migrate_one :: "('db, 'tx) migrator \<Rightarrow> nat \<Rightarrow> ddl \<Rightarrow> 'db \<Rightarrow> string + 'db" where
  "migrate_one eng v stmt db =
     (case mig_begin eng db of
        Inl m \<Rightarrow> Inl m
      | Inr tx \<Rightarrow>
        (case mig_ddl eng stmt tx of
           Inl m \<Rightarrow> Inl m
         | Inr tx1 \<Rightarrow> (case mig_insert eng v tx1 of Inl m \<Rightarrow> Inl m | Inr tx2 \<Rightarrow> mig_commit eng tx2)))"

fun migrate_from :: "('db, 'tx) migrator \<Rightarrow> nat list \<Rightarrow> nat \<Rightarrow> ddl list \<Rightarrow> 'db \<Rightarrow> string option \<times> 'db" where
  "migrate_from eng applied v [] db = (None, db)"
| "migrate_from eng applied v (stmt # stmts) db =
     (if v \<in> set applied then migrate_from eng applied (Suc v) stmts db
      else case migrate_one eng v stmt db of
        Inl m \<Rightarrow> (Some m, db)
      | Inr db' \<Rightarrow> migrate_from eng applied (Suc v) stmts db')"

definition migrate :: "('db, 'tx) migrator \<Rightarrow> 'db \<Rightarrow> string option \<times> 'db" where
  "migrate eng db =
     (case mig_create eng db of
        Inl m \<Rightarrow> (Some m, db)
      | Inr db1 \<Rightarrow>
        (case mig_versions eng db1 of
           Inl m \<Rightarrow> (Some m, db1)
         | Inr applied \<Rightarrow> migrate_from eng applied 0 migrations db1))"

text \<open>\<open>open_db\<close> is \<open>sql.Open\<close>; a database that cannot be migrated is closed and refused.\<close>

definition NewDuckDB :: "(string \<Rightarrow> string + 'db) \<Rightarrow> ('db, 'tx) migrator \<Rightarrow> string \<Rightarrow> string + 'db" where
  "NewDuckDB open_db eng dsn =
     (case open_db dsn of
        Inl m \<Rightarrow> Inl m
      | Inr db \<Rightarrow> (case migrate eng db of (Some m, _) \<Rightarrow> Inl m | (None, db') \<Rightarrow> Inr db'))"

section \<open>The engine\<close>

record schema =
  sc_catalog :: catalog
  sc_versions :: "nat fset option"

definition applied_versions :: "schema \<Rightarrow> nat set" where
  "applied_versions s = (case sc_versions s of None \<Rightarrow> {} | Some V \<Rightarrow> fset V)"

definition with_versions :: "schema \<Rightarrow> schema" where
  "with_versions s = s\<lparr>sc_versions := Some (case sc_versions s of None \<Rightarrow> {||} | Some V \<Rightarrow> V)\<rparr>"

locale schema_engine =
  fixes eng :: "('db, 'tx) migrator"
    and sch :: "'db \<Rightarrow> schema"
    and schx :: "'tx \<Rightarrow> schema"
  assumes create_law: "\<exists>db'. mig_create eng db = Inr db' \<and> sch db' = with_versions (sch db)"
    and versions_law: "sc_versions (sch db) = Some V \<Longrightarrow> \<exists>vs. mig_versions eng db = Inr vs \<and> set vs = fset V"
    and begin_law: "\<exists>tx. mig_begin eng db = Inr tx \<and> schx tx = sch db"
    and ddl_ok: "ddl_exec d (sc_catalog (schx tx)) = Some c \<Longrightarrow>
      \<exists>tx'. mig_ddl eng d tx = Inr tx' \<and> schx tx' = (schx tx)\<lparr>sc_catalog := c\<rparr>"
    and ddl_error: "ddl_exec d (sc_catalog (schx tx)) = None \<Longrightarrow> \<exists>m. mig_ddl eng d tx = Inl m"
    and insert_ok: "sc_versions (schx tx) = Some V \<Longrightarrow> v |\<notin>| V \<Longrightarrow>
      \<exists>tx'. mig_insert eng v tx = Inr tx' \<and> schx tx' = (schx tx)\<lparr>sc_versions := Some (finsert v V)\<rparr>"
    and commit_law: "\<exists>db. mig_commit eng tx = Inr db \<and> sch db = schx tx"
begin

lemma migrate_one_ok:
  assumes "sc_versions (sch db) = Some V" "v |\<notin>| V" "ddl_exec d (sc_catalog (sch db)) = Some c"
  shows "\<exists>db'. migrate_one eng v d db = Inr db' \<and> sch db' = \<lparr>sc_catalog = c, sc_versions = Some (finsert v V)\<rparr>"
proof -
  obtain tx where tx: "mig_begin eng db = Inr tx" "schx tx = sch db" using begin_law by blast
  obtain tx1 where tx1: "mig_ddl eng d tx = Inr tx1" "schx tx1 = (sch db)\<lparr>sc_catalog := c\<rparr>"
    using ddl_ok [of d tx c] assms(3) tx(2) by auto
  obtain tx2 where tx2: "mig_insert eng v tx1 = Inr tx2" "schx tx2 = (schx tx1)\<lparr>sc_versions := Some (finsert v V)\<rparr>"
    using insert_ok [of tx1 V v] assms(1,2) tx1(2) by auto
  obtain db' where "mig_commit eng tx2 = Inr db'" "sch db' = schx tx2" using commit_law by blast
  with tx(1) tx1 tx2 show ?thesis by (simp add: migrate_one_def)
qed

lemma migrate_pending:
  assumes "sc_versions (sch db) = Some V" "\<And>w. v \<le> w \<Longrightarrow> w |\<notin>| V \<and> w \<notin> set applied"
    "run_ddl ds (sc_catalog (sch db)) = Some c"
  shows "\<exists>db'. migrate_from eng applied v ds db = (None, db') \<and> sc_catalog (sch db') = c \<and>
    applied_versions (sch db') = fset V \<union> {v ..< v + length ds} \<and> sc_versions (sch db') \<noteq> None"
  using assms
proof (induction ds arbitrary: v db V)
  case Nil
  then show ?case by (simp add: applied_versions_def)
next
  case (Cons d ds)
  obtain c1 where c1: "ddl_exec d (sc_catalog (sch db)) = Some c1" "run_ddl ds c1 = Some c"
    using Cons.prems(3) by (auto split: option.splits)
  obtain db1 where db1: "migrate_one eng v d db = Inr db1" "sch db1 = \<lparr>sc_catalog = c1, sc_versions = Some (finsert v V)\<rparr>"
    using migrate_one_ok [OF Cons.prems(1) _ c1(1), of v] Cons.prems(2) by blast
  have "\<exists>db'. migrate_from eng applied (Suc v) ds db1 = (None, db') \<and> sc_catalog (sch db') = c \<and>
      applied_versions (sch db') = fset (finsert v V) \<union> {Suc v ..< Suc v + length ds} \<and> sc_versions (sch db') \<noteq> None"
    by (rule Cons.IH) (use db1(2) Cons.prems(2) c1(2) in auto)
  moreover have "fset (finsert v V) \<union> {Suc v ..< Suc v + length ds} = fset V \<union> {v ..< v + length (d # ds)}" by auto
  ultimately show ?case using db1(1) Cons.prems(2) by auto
qed

lemma migrate_skips:
  assumes "\<And>w. v \<le> w \<Longrightarrow> w < v + length ds \<Longrightarrow> w \<in> set applied"
  shows "migrate_from eng applied v (ds @ ds') db = migrate_from eng applied (v + length ds) ds' db"
  using assms by (induction ds arbitrary: v) auto

lemma migrate_completes:
  assumes k: "k \<le> length migrations" "applied_versions (sch db) = {..<k}"
    and c: "run_ddl (drop k migrations) (sc_catalog (sch db)) = Some c"
  shows "\<exists>db'. migrate eng db = (None, db') \<and> sc_catalog (sch db') = c \<and>
    applied_versions (sch db') = {..<length migrations} \<and> sc_versions (sch db') \<noteq> None"
proof -
  obtain db1 where db1: "mig_create eng db = Inr db1" "sch db1 = with_versions (sch db)" using create_law by blast
  then obtain V where V: "sc_versions (sch db1) = Some V" "fset V = {..<k}"
    using k(2) by (auto simp: with_versions_def applied_versions_def split: option.splits)
  obtain vs where vs: "mig_versions eng db1 = Inr vs" "set vs = {..<k}" using versions_law [OF V(1)] V(2) by auto
  have "migrate_from eng vs 0 (take k migrations @ drop k migrations) db1 =
      migrate_from eng vs (0 + length (take k migrations)) (drop k migrations) db1"
    by (rule migrate_skips) (simp add: vs(2))
  then have skip: "migrate_from eng vs 0 migrations db1 = migrate_from eng vs k (drop k migrations) db1"
    using k(1) by (simp add: min_absorb2)
  have cat: "sc_catalog (sch db1) = sc_catalog (sch db)" by (simp add: db1(2) with_versions_def)
  have new: "w |\<notin>| V \<and> w \<notin> set vs" if "k \<le> w" for w using that V(2) vs(2) by auto
  obtain db' where db': "migrate_from eng vs k (drop k migrations) db1 = (None, db')" "sc_catalog (sch db') = c"
      "applied_versions (sch db') = {..<k} \<union> {k ..< k + length (drop k migrations)}" "sc_versions (sch db') \<noteq> None"
    using migrate_pending [OF V(1) new c [folded cat]] V(2) by metis
  have "{..<k} \<union> {k ..< k + length (drop k migrations)} = {..<length migrations}" unfolding length_drop using k(1) by auto
  with db' show ?thesis by (simp add: migrate_def db1(1) vs(1) skip)
qed

end

section \<open>The catalogue as an engine\<close>

definition cat_migrator :: "(schema, schema) migrator" where
  "cat_migrator =
     \<lparr>mig_create = (\<lambda>s. Inr (with_versions s)),
      mig_versions = (\<lambda>s. case sc_versions s of None \<Rightarrow> Inl ''no such table'' | Some V \<Rightarrow> Inr (sorted_list_of_fset V)),
      mig_begin = Inr,
      mig_ddl = (\<lambda>d s. case ddl_exec d (sc_catalog s) of None \<Rightarrow> Inl ''catalog error'' | Some c \<Rightarrow> Inr (s\<lparr>sc_catalog := c\<rparr>)),
      mig_insert = (\<lambda>v s. case sc_versions s of None \<Rightarrow> Inl ''no such table''
        | Some V \<Rightarrow> if v |\<in>| V then Inl ''duplicate key'' else Inr (s\<lparr>sc_versions := Some (finsert v V)\<rparr>)),
      mig_commit = Inr\<rparr>"

interpretation cat: schema_engine cat_migrator "\<lambda>s. s" "\<lambda>s. s"
  by unfold_locales (auto simp: cat_migrator_def)

section \<open>The chain of migrations\<close>

text \<open>The whole chain is accepted on an empty database.\<close>

lemma migrations_run: "\<exists>c. run_ddl migrations empty_catalog = Some c"
  unfolding migrations_def empty_catalog_def
  by (simp add: has_columns_def required_def nullable_def)

text \<open>
  Property C19. \<open>migrate\<close> brings a database left by any earlier release, that is one that has seen the first
  \<open>k\<close> migrations and holds any rows since, to the current schema: it succeeds, ends with every version
  recorded, gives every existing row the default of each column added, keeps all other values, and
  a further start changes nothing.
\<close>

theorem migrate_upgrades:
  assumes "schema_engine eng sch schx" "k \<le> length migrations" "applied_versions (sch db) = {..<k}"
    and "run_ddl (take k migrations) empty_catalog = Some (erase (sc_catalog (sch db)))"
  shows "\<exists>db'. migrate eng db = (None, db') \<and> run_ddl migrations empty_catalog = Some (erase (sc_catalog (sch db')))
    \<and> applied_versions (sch db') = {..<length migrations}
    \<and> (\<forall>t td. fmlookup (cat_tables (sc_catalog (sch db))) t = Some td \<longrightarrow>
        (\<exists>td'. fmlookup (cat_tables (sc_catalog (sch db'))) t = Some td' \<and>
          td_rows td' = map (\<lambda>row. foldl (fill t) row (drop k migrations)) (td_rows td)))
    \<and> (\<exists>db''. migrate eng db' = (None, db'') \<and> sc_catalog (sch db'') = sc_catalog (sch db'))"
proof -
  have "run_ddl migrations empty_catalog = run_ddl (drop k migrations) (erase (sc_catalog (sch db)))"
    using run_ddl_append [of "take k migrations" "drop k migrations" empty_catalog] assms(4) by simp
  then obtain c where c: "run_ddl (drop k migrations) (sc_catalog (sch db)) = Some c"
      "run_ddl migrations empty_catalog = Some (erase c)"
    using migrations_run by (auto simp: run_ddl_erase)
  obtain db' where db': "migrate eng db = (None, db')" "sc_catalog (sch db') = c" "applied_versions (sch db') = {..<length migrations}"
    using schema_engine.migrate_completes [OF assms(1-3) c(1)] by blast
  have "\<exists>db''. migrate eng db' = (None, db'') \<and> sc_catalog (sch db'') = sc_catalog (sch db')"
    using schema_engine.migrate_completes [OF assms(1) order_refl db'(3), of "sc_catalog (sch db')"] by auto
  with db' c show ?thesis using run_ddl_rows [OF c(1)] by blast
qed

text \<open>A database of the release before the fingerprint version, with one run.\<close>

definition old_runs :: table_def where
  "old_runs = (case migrations ! 0 of
     CreateTable t cs pk ref \<Rightarrow> \<lparr>td_columns = cs, td_key = pk, td_refs = ref, td_rows = [fmap_of_list [(''run_id'', VText ''r'')]]\<rparr>)"

definition old_schema :: schema where
  "old_schema = \<lparr>sc_catalog = \<lparr>cat_tables = fmupd ''runs'' old_runs fmempty, cat_indexes = []\<rparr>, sc_versions = Some {|0|}\<rparr>"

theorem migrate_upgrades_witness:
  "\<exists>s. migrate cat_migrator old_schema = (None, s) \<and>
     (\<exists>td'. fmlookup (cat_tables (sc_catalog s)) ''runs'' = Some td' \<and>
       map (\<lambda>row. fmlookup row ''fingerprint_version'') (td_rows td') = [Some (VInt 1)])"
proof -
  have "applied_versions old_schema = {..<1}" by (auto simp: applied_versions_def old_schema_def)
  moreover have "run_ddl (take 1 migrations) empty_catalog = Some (erase (sc_catalog old_schema))"
    by (simp add: migrations_def empty_catalog_def old_schema_def old_runs_def erase_def fmmap_fmupd)
  moreover have "fmlookup (cat_tables (sc_catalog old_schema)) ''runs'' = Some old_runs" by (simp add: old_schema_def)
  moreover have "1 \<le> length migrations" by (simp add: migrations_def)
  ultimately obtain s td' where "migrate cat_migrator old_schema = (None, s)"
      "fmlookup (cat_tables (sc_catalog s)) ''runs'' = Some td'"
      "td_rows td' = map (\<lambda>row. foldl (fill ''runs'') row (drop 1 migrations)) (td_rows old_runs)"
    using migrate_upgrades [OF cat.schema_engine_axioms, of 1 old_schema] by blast
  moreover have "map (\<lambda>row. fmlookup row ''fingerprint_version'')
      (map (\<lambda>row. foldl (fill ''runs'') row (drop 1 migrations)) (td_rows old_runs)) = [Some (VInt 1)]"
    by (simp add: migrations_def old_runs_def)
  ultimately show ?thesis by metis
qed

end
