(* ===== verification/Runledger.thy ===== *)
theory Runledger
  imports Server_Rules Duckdb Duckdb_Schema
begin

text \<open>
  The server command, \<open>cmd/runledger/main.go\<close>: what it makes of its flags and environment before it
  listens, and its life until it exits. The environment and the file system are arguments; a flag that
  is not given is \<^term>\<open>None\<close>. Sockets and time-outs are not modelled.
\<close>

definition envOr :: "(string \<Rightarrow> string) \<Rightarrow> string \<Rightarrow> string \<Rightarrow> string" where
  "envOr getenv key def = (if getenv key \<noteq> [] then getenv key else def)"

definition loadToken :: "(string \<Rightarrow> string) \<Rightarrow> (string \<Rightarrow> string + string) \<Rightarrow> string \<Rightarrow> string \<Rightarrow> string + string" where
  "loadToken getenv readFile file envKey =
     (if file = [] then Inr (getenv envKey)
      else case readFile file of Inl e \<Rightarrow> Inl e | Inr b \<Rightarrow> Inr (TrimSpace b))"

datatype 'db opened = OpenMemory memory | OpenDuckDB 'db

definition openStore :: "(string \<Rightarrow> string + 'db) \<Rightarrow> ('db, 'tx) migrator \<Rightarrow> string \<Rightarrow> string \<Rightarrow> string + 'db opened" where
  "openStore open_db eng knd dsn =
     (if knd = [] \<or> knd = ''memory'' then Inr (OpenMemory NewMemory)
      else if knd = ''duckdb''
      then (case NewDuckDB open_db eng dsn of Inl e \<Rightarrow> Inl e | Inr db \<Rightarrow> Inr (OpenDuckDB db))
      else Inl (''unknown store '' @ knd))"

record server_flags =
  sf_addr :: "string option"
  sf_token_file :: "string option"
  sf_read_token_file :: "string option"
  sf_store :: "string option"
  sf_dsn :: "string option"

text \<open>Up to the construction of the server; \<^term>\<open>Inl\<close> is an exit with status 1.\<close>

definition runledger_main ::
    "(string \<Rightarrow> string) \<Rightarrow> (string \<Rightarrow> string + string) \<Rightarrow> (string \<Rightarrow> string + 'db) \<Rightarrow> ('db, 'tx) migrator
      \<Rightarrow> server_flags \<Rightarrow> string + string \<times> 'db opened server" where
  "runledger_main getenv readFile open_db eng f =
     (let addr = set_if (sf_addr f) (envOr getenv ''RUNLEDGER_ADDR'' '':8080'');
          storeKind = set_if (sf_store f) (envOr getenv ''RUNLEDGER_STORE'' ''memory'');
          dsn = set_if (sf_dsn f) (envOr getenv ''RUNLEDGER_DSN'' [])
      in case loadToken getenv readFile (set_if (sf_token_file f) []) ''RUNLEDGER_TOKEN'' of
           Inl e \<Rightarrow> Inl e
         | Inr writeToken \<Rightarrow>
           (case loadToken getenv readFile (set_if (sf_read_token_file f) []) ''RUNLEDGER_READ_TOKEN'' of
              Inl e \<Rightarrow> Inl e
            | Inr readToken \<Rightarrow>
              (case openStore open_db eng storeKind dsn of
                 Inl e \<Rightarrow> Inl e
               | Inr st \<Rightarrow> Inr (addr, api_New st \<lparr>WriteToken = writeToken, ReadToken = readToken\<rparr>))))"

text \<open>The calls of the interface \<open>store.Store\<close> go to whichever backend was opened.\<close>

definition on_open :: "(memory \<Rightarrow> 'a \<times> memory) \<Rightarrow> ('db \<Rightarrow> 'a \<times> 'db) \<Rightarrow> 'db opened \<Rightarrow> 'a \<times> 'db opened" where
  "on_open f g st = (case st of OpenMemory m \<Rightarrow> apsnd OpenMemory (f m) | OpenDuckDB db \<Rightarrow> apsnd OpenDuckDB (g db))"

definition opened_ops :: "('db, 'tx) engine \<Rightarrow> 'db opened store_ops" where
  "opened_ops eng =
     \<lparr>so_Record = \<lambda>r. on_open (mem_Record r) (duck_Record eng r),
      so_Update = \<lambda>now i p. on_open (mem_Update now i p) (duck_Update eng now i p),
      so_Get = \<lambda>i st. (case st of OpenMemory m \<Rightarrow> mem_Get i m | OpenDuckDB db \<Rightarrow> duck_Get eng i db),
      so_List = \<lambda>q st. (case st of OpenMemory m \<Rightarrow> mem_List q m | OpenDuckDB db \<Rightarrow> duck_List eng q db)\<rparr>"

section \<open>From listening to exit\<close>

text \<open>
  What happens to the process after \<open>http.Server\<close> is built. \<open>ListenFails\<close>: \<open>ListenAndServe\<close> returns an error
  other than \<open>ErrServerClosed\<close>, which \<open>Shutdown\<close> makes it return. \<open>Signal\<close>: the first interrupt or
  \<open>SIGTERM\<close> ends \<open>ctx\<close>, further ones are swallowed. \<open>ShutdownReturns ok\<close>: every connection is idle, or
  after ten seconds it is not. Requests already accepted are still served until then. \<open>Exited code
  closed\<close>: only a return from \<open>main\<close> runs the deferred \<open>Close\<close>, \<open>os.Exit\<close> does not.
\<close>

datatype process_event = Request environment request | ListenFails | Signal | ShutdownReturns bool

datatype phase = Serving | ShuttingDown | Exited nat bool

type_synonym 'st process = "phase \<times> 'st server"

fun process_step :: "'st store_ops \<Rightarrow> 'st process \<Rightarrow> process_event \<Rightarrow> 'st process" where
  "process_step ops (Exited code c, srv) ev = (Exited code c, srv)"
| "process_step ops (ph, srv) (Request env rq) = (ph, snd (serve env ops rq srv))"
| "process_step ops (ph, srv) ListenFails = (Exited 1 False, srv)"
| "process_step ops (ph, srv) Signal = (ShuttingDown, srv)"
| "process_step ops (Serving, srv) (ShutdownReturns ok) = (Serving, srv)"
| "process_step ops (ShuttingDown, srv) (ShutdownReturns ok) = (if ok then Exited 0 True else Exited 1 False, srv)"

definition run_process :: "'st store_ops \<Rightarrow> process_event list \<Rightarrow> 'st server \<Rightarrow> 'st process" where
  "run_process ops evs srv = foldl (process_step ops) (Serving, srv) evs"

lemma process_step_auth: "srv_auth (snd (process_step ops p ev)) = srv_auth (snd p)"
  by (cases "(ops, p, ev)" rule: process_step.cases) (simp_all add: serve_auth)

lemma process_auth: "srv_auth (snd (foldl (process_step ops) p evs)) = srv_auth (snd p)"
  by (induction evs arbitrary: p) (simp_all add: process_step_auth)

text \<open>The request that carries the write token.\<close>

definition carries_token :: "string \<Rightarrow> process_event \<Rightarrow> bool" where
  "carries_token w ev =
     (case ev of Request env rq \<Rightarrow> (rq_Method rq = ''POST'' \<or> rq_Method rq = ''PATCH'') \<and> w \<noteq> []
        \<and> rq_Header rq ''Authorization'' = ''Bearer '' @ w
      | _ \<Rightarrow> False)"

lemma process_step_store:
  assumes "auth_enabled (srv_auth (snd p))" "srv_store (snd (process_step ops p ev)) \<noteq> srv_store (snd p)"
  shows "carries_token (WriteToken (srv_auth (snd p))) ev"
proof -
  obtain ph srv where p: "p = (ph, srv)" by fastforce
  obtain env rq where ev: "ev = Request env rq" "srv_store (snd (serve env ops rq srv)) \<noteq> srv_store srv"
    using assms(2) unfolding p by (cases ph; cases ev) (auto split: if_splits)
  from serve_changes [OF ev(2)] assms(1) obtain token where
    "rq_Method rq = ''POST'' \<or> rq_Method rq = ''PATCH''" "bearerToken rq = (token, True)" "allows (srv_auth srv) True token"
    by (auto simp: p)
  then show ?thesis by (auto simp: p ev(1) carries_token_def allows_def bearerToken_header split: if_splits)
qed

lemma process_store:
  assumes "auth_enabled (srv_auth (snd p))" "srv_store (snd (foldl (process_step ops) p evs)) \<noteq> srv_store (snd p)"
  shows "\<exists>ev \<in> set evs. carries_token (WriteToken (srv_auth (snd p))) ev"
  using assms
proof (induction evs arbitrary: p)
  case (Cons ev evs)
  let ?q = "process_step ops p ev"
  note IH = Cons.IH [of ?q, unfolded process_step_auth, OF Cons.prems(1)]
  show ?case
  proof (cases "srv_store (snd ?q) = srv_store (snd p)")
    case True
    with IH Cons.prems(2) show ?thesis by simp
  next
    case False
    from process_step_store [OF Cons.prems(1) this] show ?thesis by simp
  qed
qed simp

text \<open>Which events led to the phase the process is in.\<close>

definition phase_of_events :: "process_event list \<Rightarrow> phase \<Rightarrow> bool" where
  "phase_of_events evs ph \<longleftrightarrow>
     (case ph of
        Serving \<Rightarrow> ListenFails \<notin> set evs \<and> Signal \<notin> set evs
      | ShuttingDown \<Rightarrow> ListenFails \<notin> set evs \<and>
          (\<exists>es1 es2. evs = es1 @ Signal # es2 \<and> Signal \<notin> set es1 \<and> (\<forall>ok. ShutdownReturns ok \<notin> set es2))
      | Exited code c \<Rightarrow> (c \<longleftrightarrow> code = 0) \<and>
          (code = 0 \<longrightarrow> (\<exists>es1 es2 es3. evs = es1 @ Signal # es2 @ ShutdownReturns True # es3
             \<and> ListenFails \<notin> set (es1 @ es2) \<and> (\<forall>ok. ShutdownReturns ok \<notin> set es2))) \<and>
          (code \<noteq> 0 \<longrightarrow> code = 1 \<and> (ListenFails \<in> set evs \<or> ShutdownReturns False \<in> set evs)))"

lemma phase_step_events:
  assumes "phase_of_events evs (fst p)"
  shows "phase_of_events (evs @ [ev]) (fst (process_step ops p ev))"
proof -
  obtain ph srv where p: "p = (ph, srv)" by fastforce
  show ?thesis
  proof (cases ph)
    case Serving
    show ?thesis
    proof (cases "ev = Signal")
      case True
      have "evs @ [Signal] = evs @ Signal # []" by simp
      with True assms Serving show ?thesis by (fastforce simp: p phase_of_events_def)
    qed (use assms Serving in \<open>cases ev; auto simp: p phase_of_events_def\<close>)
  next
    case ShuttingDown
    with assms obtain es1 es2 where es: "evs = es1 @ Signal # es2" "Signal \<notin> set es1" "ListenFails \<notin> set evs"
      "\<forall>ok. ShutdownReturns ok \<notin> set es2"
      by (auto simp: p phase_of_events_def)
    have keep: "\<exists>ea eb. evs @ [ev] = ea @ Signal # eb \<and> Signal \<notin> set ea \<and> (\<forall>ok. ShutdownReturns ok \<notin> set eb)"
      if "\<forall>ok. ev \<noteq> ShutdownReturns ok"
      using es that by (intro exI [of _ es1] exI [of _ "es2 @ [ev]"]) auto
    have split: "evs @ [ev] = es1 @ Signal # es2 @ ev # []" using es(1) by simp
    show ?thesis
    proof (cases ev)
      case (ShutdownReturns ok)
      with ShuttingDown es split show ?thesis by (cases ok) (auto simp: p phase_of_events_def)
    qed (use ShuttingDown es(3) keep in \<open>auto simp: p phase_of_events_def\<close>)
  next
    case (Exited code c)
    have "\<exists>es1 es2 es3. evs @ [ev] = es1 @ Signal # es2 @ ShutdownReturns True # es3
        \<and> ListenFails \<notin> set (es1 @ es2) \<and> (\<forall>ok. ShutdownReturns ok \<notin> set es2)" if "code = 0"
    proof -
      from assms that Exited obtain es1 es2 es3 where es: "evs = es1 @ Signal # es2 @ ShutdownReturns True # es3"
        "ListenFails \<notin> set (es1 @ es2)" "\<forall>ok. ShutdownReturns ok \<notin> set es2"
        by (auto simp: p phase_of_events_def)
      then have "evs @ [ev] = es1 @ Signal # es2 @ ShutdownReturns True # (es3 @ [ev])" by simp
      with es(2,3) show ?thesis by blast
    qed
    with assms Exited show ?thesis by (auto simp: p phase_of_events_def)
  qed
qed

lemma phase_events: "phase_of_events evs (fst (run_process ops evs srv))"
  unfolding run_process_def
proof (induction evs rule: rev_induct)
  case (snoc ev evs)
  from phase_step_events [OF this] show ?case by simp
qed (simp add: phase_of_events_def)

section \<open>Tokens\<close>

lemma loadToken_simps:
  "loadToken getenv readFile [] k = Inr (getenv k)"
  "f \<noteq> [] \<Longrightarrow> readFile f = Inl e \<Longrightarrow> loadToken getenv readFile f k = Inl e"
  "f \<noteq> [] \<Longrightarrow> readFile f = Inr b \<Longrightarrow> loadToken getenv readFile f k = Inr (TrimSpace b)"
  by (simp_all add: loadToken_def)

text \<open>
  Property C23. The server starts unauthenticated exactly when both tokens come out empty. An unreadable token
  file stops it, but a token file with nothing but white space counts as no token at all: with
  no read token either, from its own file or the environment, a server told to take its token from
  such a file accepts every request.
\<close>

theorem token_file_fails_open:
  assumes "sf_token_file f = Some path" "path \<noteq> []" "runledger_main getenv readFile open_db eng f = Inr (addr, srv)"
  shows "\<exists>b rt. readFile path = Inr b
    \<and> loadToken getenv readFile (set_if (sf_read_token_file f) []) ''RUNLEDGER_READ_TOKEN'' = Inr rt
    \<and> (auth_enabled (srv_auth srv) \<longleftrightarrow> TrimSpace b \<noteq> [] \<or> rt \<noteq> [])"
proof (cases "readFile path")
  case (Inl e)
  then show ?thesis using assms by (simp add: runledger_main_def Let_def loadToken_simps)
next
  case (Inr b)
  then obtain rt where "loadToken getenv readFile (set_if (sf_read_token_file f) []) ''RUNLEDGER_READ_TOKEN'' = Inr rt"
    "srv_auth srv = \<lparr>WriteToken = TrimSpace b, ReadToken = rt\<rparr>"
    using assms by (auto simp: runledger_main_def Let_def loadToken_simps api_New_eq split: sum.splits)
  with Inr show ?thesis by (simp add: auth_enabled_def)
qed

definition blank_token_flags :: server_flags where
  "blank_token_flags = \<lparr>sf_addr = None, sf_token_file = Some ''/run/secrets/token'', sf_read_token_file = None,
     sf_store = None, sf_dsn = None\<rparr>"

lemma blank_token_start:
  "runledger_main (\<lambda>_. []) (\<lambda>_. Inr []) (\<lambda>_. Inl ''none'') cat_migrator blank_token_flags =
     Inr ('':8080'', api_New (OpenMemory NewMemory) \<lparr>WriteToken = [], ReadToken = []\<rparr>)"
  by (simp add: runledger_main_def blank_token_flags_def loadToken_def openStore_def envOr_def Let_def)

theorem token_file_fails_open_witness:
  "\<not> auth_enabled (srv_auth (api_New (OpenMemory NewMemory :: schema opened) \<lparr>WriteToken = [], ReadToken = []\<rparr>))"
  using token_file_fails_open [OF _ _ blank_token_start, of "''/run/secrets/token''"]
  by (simp add: blank_token_flags_def loadToken_def)

section \<open>The life of the process\<close>

text \<open>
  Property C15. A server command started with a write token, from a file or the environment, changes its
  ledger, in memory or on disk, only for a POST or PATCH request that carries exactly that token:
  whatever it is sent until it exits, if the store is not as it was opened, such a request was among it.
\<close>

theorem process_writes_authorised:
  assumes "runledger_main getenv readFile open_db mig f = Inr (addr, srv)"
    and "loadToken getenv readFile (set_if (sf_token_file f) []) ''RUNLEDGER_TOKEN'' = Inr w" "w \<noteq> []"
    and "run_process (opened_ops eng) evs srv = (ph, srv')" "srv_store srv' \<noteq> srv_store srv"
  shows "\<exists>ev \<in> set evs. carries_token w ev"
proof -
  have "WriteToken (srv_auth srv) = w"
    using assms(1,2) by (auto simp: runledger_main_def Let_def api_New_eq split: sum.splits)
  then show ?thesis
    using process_store [of "(Serving, srv)" "opened_ops eng" evs] assms(3-5) by (simp add: run_process_def auth_enabled_def)
qed

definition token_env :: "string \<Rightarrow> string" where
  "token_env k = (if k = ''RUNLEDGER_TOKEN'' then ''s3cret'' else [])"

definition token_flags :: server_flags where
  "token_flags = \<lparr>sf_addr = None, sf_token_file = None, sf_read_token_file = None, sf_store = None, sf_dsn = None\<rparr>"

definition token_request :: request where
  "token_request = sample_request\<lparr>rq_Header := (\<lambda>h. if h = ''Content-Type'' then ''application/json''
     else if h = ''Authorization'' then ''Bearer s3cret'' else [])\<rparr>"

definition token_server :: "schema opened server" where
  "token_server = api_New (OpenMemory NewMemory) \<lparr>WriteToken = ''s3cret'', ReadToken = []\<rparr>"

lemma token_start: "runledger_main token_env (\<lambda>_. Inr []) (\<lambda>_. Inl ''none'') cat_migrator token_flags = Inr ('':8080'', token_server)"
  by (simp add: runledger_main_def token_flags_def loadToken_def openStore_def envOr_def Let_def token_env_def token_server_def)

lemma token_request_stored:
  "srv_store (snd (serve sample_env (opened_ops eng) token_request token_server)) \<noteq> srv_store token_server"
proof -
  let ?r = "stamp sample_env sample_run"
  have "RunID ?r = ''run_1''" "Capture ?r = None" by (simp_all add: stamp_def Let_def)
  then have rec: "so_Record (opened_ops eng) ?r (OpenMemory NewMemory) = (None, OpenMemory \<lparr>runs = fmupd ''run_1'' ?r fmempty\<rparr>)"
    by (simp add: opened_ops_def on_open_def mem_Record_def NewMemory_def NormalizeCapture_def Validate_stamp_sample)
  have rq: "rq_Method token_request = ''POST''" "rq_Path token_request = [''v1'', ''runs'']" "rq_RunBody token_request = Inr sample_run"
    by (simp_all add: token_request_def sample_request_def)
  have tok: "bearerToken token_request = (''s3cret'', True)"
    by (simp add: bearerToken_def token_request_def HasPrefix_def TrimPrefix_def)
  have js: "requireJSON sample_env token_request = None"
    by (simp add: requireJSON_def token_request_def sample_env_def)
  have "requireAuth True api_record sample_env (opened_ops eng) token_request token_server =
      api_record sample_env (opened_ops eng) token_request token_server"
    by (simp add: requireAuth_def tok allows_def token_server_def api_New_eq)
  then have "srv_store (snd (serve sample_env (opened_ops eng) token_request token_server))
      = OpenMemory \<lparr>runs = fmupd ''run_1'' ?r fmempty\<rparr>" (is "_ = OpenMemory ?m")
    unfolding serve_parts post_runs_route [OF rq(1,2)]
    by (simp add: api_record_def js rq(3) Let_def rec token_server_def api_New_eq)
  moreover have "fmlookup (runs ?m) ''run_1'' \<noteq> fmlookup (runs NewMemory) ''run_1''" by (simp add: NewMemory_def)
  then have "?m \<noteq> NewMemory" by metis
  ultimately show ?thesis by (simp add: token_server_def api_New_eq)
qed

theorem process_writes_authorised_witness:
  "\<exists>ev \<in> {Request sample_env token_request, Signal}. carries_token ''s3cret'' ev"
proof -
  have "run_process (opened_ops eng) [Request sample_env token_request, Signal] token_server =
      (ShuttingDown, snd (serve sample_env (opened_ops eng) token_request token_server))" for eng :: "(schema, 'tx) engine"
    by (simp add: run_process_def)
  from process_writes_authorised [OF token_start _ _ this token_request_stored, of "''s3cret''"] show ?thesis
    by (simp add: loadToken_def token_flags_def token_env_def)
qed

text \<open>
  Property C24. The command exits with status zero exactly when it closes its store: after a signal, once
  \<open>Shutdown\<close> has returned without error, and with no failure of the listener before. A shutdown that times
  out and a listener that fails leave through \<open>os.Exit\<close> with status one, and the store is not closed.
\<close>

theorem process_exit:
  assumes "run_process (opened_ops eng) evs srv = (Exited code c, srv')"
  shows "(c \<longleftrightarrow> code = 0)
    \<and> (code = 0 \<longrightarrow> (\<exists>es1 es2 es3. evs = es1 @ Signal # es2 @ ShutdownReturns True # es3
         \<and> ListenFails \<notin> set (es1 @ es2) \<and> (\<forall>ok. ShutdownReturns ok \<notin> set es2)))
    \<and> (code \<noteq> 0 \<longrightarrow> code = 1 \<and> (ListenFails \<in> set evs \<or> ShutdownReturns False \<in> set evs))"
  using phase_events [of evs "opened_ops eng" srv] by (simp add: assms phase_of_events_def)

theorem process_exit_witness:
  "\<exists>es1 es2 es3. [Request sample_env token_request, Signal, ShutdownReturns True] = es1 @ Signal # es2 @ ShutdownReturns True # es3"
proof -
  have "run_process (opened_ops eng) [Request sample_env token_request, Signal, ShutdownReturns True] token_server =
      (Exited 0 True, snd (serve sample_env (opened_ops eng) token_request token_server))" for eng :: "(schema, 'tx) engine"
    by (simp add: run_process_def)
  from process_exit [OF this] show ?thesis by blast
qed

end
