(* ===== verification/Render.thy ===== *)
theory Render
  imports Compare Spread
begin

text \<open>
  What \<open>cmd/rlctl/main.go\<close> prints: the tables of \<open>list\<close>, \<open>diff\<close> and \<open>spread\<close>, with the part of
  \<open>fmt\<close> they use. Output is the string of bytes written.
\<close>

section \<open>Formatting\<close>

text \<open>
  \<open>utf8.RuneCountInString\<close>: a byte that does not begin a well-formed sequence counts as one rune.
  \<open>rune_len\<close> is the length of the first sequence.
\<close>

definition between :: "nat \<Rightarrow> nat \<Rightarrow> char \<Rightarrow> bool" where
  "between lo hi c \<longleftrightarrow> lo \<le> of_char c \<and> of_char c \<le> hi"

fun conts :: "(nat \<times> nat) list \<Rightarrow> string \<Rightarrow> bool" where
  "conts [] s = True"
| "conts (r # rs) [] = False"
| "conts (r # rs) (c # s) = (between (fst r) (snd r) c \<and> conts rs s)"

definition lead_ranges :: "char \<Rightarrow> (nat \<times> nat) list option" where
  "lead_ranges c =
     (if between 0xC2 0xDF c then Some [(0x80, 0xBF)]
      else if between 0xE0 0xE0 c then Some [(0xA0, 0xBF), (0x80, 0xBF)]
      else if between 0xED 0xED c then Some [(0x80, 0x9F), (0x80, 0xBF)]
      else if between 0xE1 0xEF c then Some [(0x80, 0xBF), (0x80, 0xBF)]
      else if between 0xF0 0xF0 c then Some [(0x90, 0xBF), (0x80, 0xBF), (0x80, 0xBF)]
      else if between 0xF1 0xF3 c then Some [(0x80, 0xBF), (0x80, 0xBF), (0x80, 0xBF)]
      else if between 0xF4 0xF4 c then Some [(0x80, 0x8F), (0x80, 0xBF), (0x80, 0xBF)]
      else None)"

definition rune_tail :: "char \<Rightarrow> string \<Rightarrow> nat" where
  "rune_tail c s = (case lead_ranges c of None \<Rightarrow> 0 | Some rs \<Rightarrow> if conts rs s then length rs else 0)"

function RuneCount :: "string \<Rightarrow> nat" where
  "RuneCount [] = 0"
| "RuneCount (c # s) = Suc (RuneCount (drop (rune_tail c s) s))"
  by pat_completeness auto
termination by (relation "measure length") auto

definition newline :: string where
  "newline = ''\<newline>''"

text \<open>The em dash in UTF-8.\<close>

definition em_dash :: string where
  "em_dash = [CHR 0xE2, CHR 0x80, CHR 0x94]"

text \<open>\<^verbatim>\<open>%-ns\<close>\<close>

definition pad :: "nat \<Rightarrow> string \<Rightarrow> string" where
  "pad n s = s @ replicate (n - RuneCount s) CHR '' ''"

text \<open>\<^verbatim>\<open>%.4f\<close>: the exact value rounded to four places, ties to even.\<close>

definition fmt_4f :: "float64 \<Rightarrow> string" where
  "fmt_4f f =
     (if is_nan f then ''NaN''
      else if is_inf f then (if f64_neg f then ''-Inf'' else ''+Inf'')
      else let n = nat (rne (\<bar>f64_num f\<bar> * 10000) (f64_den f)); frac = itoa (n mod 10000)
           in (if f64_neg f then ''-'' else []) @ itoa (n div 10000) @ ''.''
              @ replicate (4 - length frac) CHR ''0'' @ frac)"

definition fmt_d :: "int \<Rightarrow> string" where
  "fmt_d i = FormatInt i 10"

section \<open>Cells\<close>

definition trunc :: "string \<Rightarrow> nat \<Rightarrow> string" where
  "trunc s n = (if length s \<le> n then s else take n s)"

definition cell :: "string option \<Rightarrow> string" where
  "cell v = (case v of None \<Rightarrow> em_dash | Some s \<Rightarrow> if s = [] then [CHR 0x22, CHR 0x22] else s)"

definition provenanceValue :: "string \<Rightarrow> string" where
  "provenanceValue v = (if v = [] then em_dash else v)"

definition provenanceNames :: "provenance_diff list \<Rightarrow> string" where
  "provenanceNames ds = (if length ds = 0 then em_dash else Join (map pd_Field ds) '', '')"

fun kind_name :: "kind \<Rightarrow> string" where
  "kind_name KindIdentity = ''identity''"
| "kind_name KindProvenance = ''provenance''"
| "kind_name KindMetric = ''metric''"

section \<open>Tables\<close>

text \<open>\<open>localTime\<close> is \<open>t.Local().Format(time.RFC3339)\<close>, which depends on the zone of the machine.\<close>

definition list_line :: "string \<Rightarrow> string \<Rightarrow> string \<Rightarrow> string \<Rightarrow> string \<Rightarrow> string" where
  "list_line a b c d e = pad 28 a @ ''  '' @ pad 12 b @ ''  '' @ pad 10 c @ ''  '' @ pad 10 d @ ''  '' @ e @ newline"

definition renderList :: "(time \<Rightarrow> string) \<Rightarrow> run list \<Rightarrow> string \<Rightarrow> string" where
  "renderList localTime runs nextCursor =
     (if length runs = 0 then ''no runs recorded'' @ newline
      else list_line ''RUN'' ''PROJECT'' ''STATUS'' ''COMMIT'' ''STARTED''
        @ concat (map (\<lambda>r. list_line (RunID r) (trunc (Project r) 12) (Status r) (trunc (GitCommit r) 10)
                             (localTime (StartedAt r))) runs)
        @ (if nextCursor \<noteq> [] then newline @ ''more runs available: rlctl list ... --cursor '' @ nextCursor @ newline else []))"

definition diff_line :: "string \<Rightarrow> string \<Rightarrow> string \<Rightarrow> string \<Rightarrow> string" where
  "diff_line a b c d = pad 24 a @ ''  '' @ pad 12 b @ ''  '' @ pad 20 c @ ''  '' @ d @ newline"

definition drift_note :: string where
  "drift_note =
     newline @ ''No field differs, which should not be possible for fingerprints'' @ newline
     @ ''that differ: the diff covers every field the fingerprint hashes.'' @ newline
     @ ''Please report this, with the output of `rlctl show` for each id.'' @ newline"

definition renderDiff :: "result \<Rightarrow> string" where
  "renderDiff res =
     (if res_SameExperiment res \<and> length (res_Fields res) = 0 then ''the two records are identical'' @ newline
      else (if res_SameExperiment res then ''same experiment (fingerprints match)'' @ newline
            else ''different experiments (fingerprints differ)'' @ newline)
        @ (if length (res_Fields res) = 0 then drift_note
           else newline @ diff_line ''FIELD'' ''KIND'' ''A'' ''B''
             @ concat (map (\<lambda>f. diff_line (f_Name f) (kind_name (f_Kind f)) (cell (f_A f)) (cell (f_B f))) (res_Fields res))
             @ (if res_Unattributable res
                then newline @ ''These runs describe the same experiment but measured differently.'' @ newline
                  @ ''Something that affected the result is not captured in the record.'' @ newline
                else [])))"

definition spread_line :: "string \<Rightarrow> string \<Rightarrow> string \<Rightarrow> string \<Rightarrow> string" where
  "spread_line a b c d = pad 18 a @ ''  '' @ pad 5 b @ ''  '' @ pad 10 c @ ''  '' @ d @ newline"

definition renderSpreadList :: "group list \<Rightarrow> string" where
  "renderSpreadList groups =
     (if length groups = 0 then ''no fingerprint has more than one recorded run'' @ newline
      else spread_line ''FINGERPRINT'' ''RUNS'' ''WIDEST CV'' ''PROVENANCE DIFFERS''
        @ concat (map (\<lambda>g. spread_line (trunc (g_Fingerprint g) 18) (fmt_d (g_Count g)) (fmt_4f (Widest g))
                             (provenanceNames (g_Provenance g))) groups))"

definition metric_line :: "string \<Rightarrow> string \<Rightarrow> string \<Rightarrow> string \<Rightarrow> string \<Rightarrow> string \<Rightarrow> string" where
  "metric_line a b c d e f =
     pad 20 a @ ''  '' @ pad 4 b @ ''  '' @ pad 12 c @ ''  '' @ pad 12 d @ ''  '' @ pad 12 e @ ''  '' @ f @ newline"

definition renderSpreadGroup :: "group \<Rightarrow> string" where
  "renderSpreadGroup g =
     ''fingerprint '' @ g_Fingerprint g @ '' '' @ em_dash @ '' '' @ fmt_d (g_Count g) @ '' run(s)'' @ newline
     @ (if g_NoRepeats g then ''no repeats: only one run has been recorded for this experiment'' @ newline
        else newline @ metric_line ''METRIC'' ''N'' ''MIN'' ''MAX'' ''MEAN'' ''STDDEV''
          @ concat (map (\<lambda>k. let m = the (map_get (g_Metrics g) k)
                             in metric_line k (fmt_d (ms_Count m)) (FormatFloat (ms_Min m)) (FormatFloat (ms_Max m))
                                  (FormatFloat (ms_Mean m)) (FormatFloat (ms_StdDev m)))
                        (map_keys_sorted (g_Metrics g)))
          @ (if length (g_Provenance g) > 0
             then newline @ ''provenance differs across these runs '' @ em_dash @ '' the likeliest explanation for the spread:'' @ newline
               @ concat (map (\<lambda>p. ''  '' @ pad 18 (pd_Field p) @ '' '' @ Join (map provenanceValue (pd_Values p)) '', '' @ newline)
                             (g_Provenance g))
             else []))"

end
