(* ===== verification/Rlctl.thy ===== *)
theory Rlctl
  imports Render Server_Rules
begin

text \<open>
  The command-line client, \<open>cmd/rlctl/main.go\<close>. A command takes its parsed flags (a flag that is
  not given is \<^term>\<open>None\<close>, a repeatable one the list of its values) and the state of the world, and
  returns what it prints or an error. What it asks of the world is in \<open>cli_env\<close>: environment
  variables, git, the host name, the clock, \<open>fmt.Sscanf(_, "%g", _)\<close>, the JSON codec and the HTTP
  transport. A request body is the outcome of the server's decoding of what the client encoded.
\<close>

section \<open>Environment\<close>

record 'w cli_env =
  ce_Getenv :: "string \<Rightarrow> string"
  ce_git :: "string list \<Rightarrow> string option"
  ce_Hostname :: "string option"
  ce_Now :: time
  ce_Sscanf :: "string \<Rightarrow> float64 option"
  ce_localTime :: "time \<Rightarrow> string"
  ce_MarshalRun :: "run \<Rightarrow> (string + run) option"
  ce_MarshalPatch :: "patch_request \<Rightarrow> (string + patch_request) option"
  ce_UnmarshalRun :: "body \<Rightarrow> string + run"
  ce_UnmarshalPage :: "body \<Rightarrow> string + run list \<times> string"
  ce_UnmarshalResult :: "body \<Rightarrow> string + result"
  ce_UnmarshalGroups :: "body \<Rightarrow> string + group list"
  ce_UnmarshalGroup :: "body \<Rightarrow> string + group"
  ce_EncodeIndent :: "run \<Rightarrow> string"
  ce_Do :: "string \<Rightarrow> request \<Rightarrow> 'w \<Rightarrow> (string + response) \<times> 'w"

datatype cli_error =
    ProjectFlagRequired
  | NoGitCommit
  | NotANumber string string
  | WantKeyValue string
  | InvalidRun validation_error
  | WrongArgCount string
  | MarshalError
  | UnmarshalError string
  | TransportError string
  | HttpError int "(string \<times> api_error) option"

definition clientVersion :: string where
  "clientVersion = ''0.1.0''"

definition jobIDFromEnv :: "'w cli_env \<Rightarrow> string" where
  "jobIDFromEnv c =
     (case List.find (\<lambda>k. ce_Getenv c k \<noteq> []) [''SLURM_JOB_ID'', ''CI_JOB_ID'', ''GITHUB_RUN_ID''] of
        None \<Rightarrow> [] | Some k \<Rightarrow> ce_Getenv c k)"

definition defaultServer :: "'w cli_env \<Rightarrow> string" where
  "defaultServer c = (if ce_Getenv c ''RUNLEDGER_ADDR'' \<noteq> [] then ce_Getenv c ''RUNLEDGER_ADDR'' else ''http://localhost:8080'')"

text \<open>A git command that fails reads as empty output.\<close>

definition git_run :: "'w cli_env \<Rightarrow> string list \<Rightarrow> string" where
  "git_run c args = (case ce_git c args of None \<Rightarrow> [] | Some out \<Rightarrow> TrimSpace out)"

definition gitContext :: "'w cli_env \<Rightarrow> string \<times> bool" where
  "gitContext c = (git_run c [''rev-parse'', ''HEAD''], git_run c [''status'', ''--porcelain''] \<noteq> [])"

section \<open>Flags\<close>

definition kv_Set :: "(string, string) fmap \<Rightarrow> string \<Rightarrow> cli_error + (string, string) fmap" where
  "kv_Set k s = (case Cut s CHR ''='' of (name, val, ok) \<Rightarrow> if \<not> ok then Inl (WantKeyValue s) else Inr (fmupd name val k))"

text \<open>The repeated calls of \<open>Set\<close> by \<open>flag.Parse\<close>.\<close>

fun kv_flags :: "(string, string) fmap \<Rightarrow> string list \<Rightarrow> cli_error + (string, string) fmap" where
  "kv_flags k [] = Inr k"
| "kv_flags k (s # ss) = (case kv_Set k s of Inl e \<Rightarrow> Inl e | Inr k' \<Rightarrow> kv_flags k' ss)"

text \<open>The loop over metric flags; which of several bad values is reported depends on Go's map order.\<close>

fun parse_metrics :: "'w cli_env \<Rightarrow> (string, string) fmap \<Rightarrow> string list \<Rightarrow> cli_error + (string, float64) fmap" where
  "parse_metrics c m [] = Inr fmempty"
| "parse_metrics c m (k # ks) =
     (case ce_Sscanf c (the (fmlookup m k)) of
        None \<Rightarrow> Inl (NotANumber k (the (fmlookup m k)))
      | Some f \<Rightarrow> (case parse_metrics c m ks of Inl e \<Rightarrow> Inl e | Inr out \<Rightarrow> Inr (fmupd k f out)))"

definition flag_metrics :: "'w cli_env \<Rightarrow> (string, string) fmap \<Rightarrow> cli_error + float64 gomap" where
  "flag_metrics c m =
     (if fmdom m = {||} then Inr None
      else case parse_metrics c m (sorted_list_of_fset (fmdom m)) of Inl e \<Rightarrow> Inl e | Inr out \<Rightarrow> Inr (Some out))"

definition set_value :: "string \<Rightarrow> string \<Rightarrow> (string, string list) fmap \<Rightarrow> (string, string list) fmap" where
  "set_value k v q = (if v \<noteq> [] then fmupd k [v] q else q)"

section \<open>Requests\<close>

datatype payload = NoBody | RunBody "string + run" | PatchBody "string + patch_request"

definition call_request :: "'w cli_env \<Rightarrow> string \<Rightarrow> string list \<Rightarrow> (string, string list) fmap \<Rightarrow> payload \<Rightarrow> request" where
  "call_request c meth path q pl =
     (let token = ce_Getenv c ''RUNLEDGER_TOKEN''
      in \<lparr>rq_Method = meth, rq_Path = ''v1'' # path,
          rq_Header = (\<lambda>k. if k = ''Content-Type'' \<and> pl \<noteq> NoBody then ''application/json''
                           else if k = ''Authorization'' \<and> token \<noteq> [] then ''Bearer '' @ token else []),
          rq_Query = q,
          rq_RunBody = (case pl of RunBody b \<Rightarrow> b | _ \<Rightarrow> Inl ''EOF''),
          rq_PatchBody = (case pl of PatchBody b \<Rightarrow> b | _ \<Rightarrow> Inl ''EOF'')\<rparr>)"

definition call :: "'w cli_env \<Rightarrow> string \<Rightarrow> string \<Rightarrow> string list \<Rightarrow> (string, string list) fmap \<Rightarrow> payload \<Rightarrow> 'w
    \<Rightarrow> (cli_error + body) \<times> 'w" where
  "call c meth srv path q pl w =
     (case ce_Do c srv (call_request c meth path q pl) w of
        (Inl m, w') \<Rightarrow> (Inl (TransportError m), w')
      | (Inr rs, w') \<Rightarrow>
          if rs_Status rs \<ge> 300
          then (Inl (HttpError (rs_Status rs) (case rs_Body rs of BErr code e \<Rightarrow> Some (code, e) | _ \<Rightarrow> None)), w')
          else (Inr (rs_Body rs), w'))"

definition unmarshal :: "(body \<Rightarrow> string + 'x) \<Rightarrow> (cli_error + body) \<times> 'w \<Rightarrow> (cli_error + 'x) \<times> 'w" where
  "unmarshal dec res =
     (case res of
        (Inl e, w) \<Rightarrow> (Inl e, w)
      | (Inr b, w) \<Rightarrow> (case dec b of Inl m \<Rightarrow> (Inl (UnmarshalError m), w) | Inr x \<Rightarrow> (Inr x, w)))"

definition printed :: "('x \<Rightarrow> string) \<Rightarrow> (cli_error + 'x) \<times> 'w \<Rightarrow> (cli_error + string) \<times> 'w" where
  "printed show_x res = (case res of (Inl e, w) \<Rightarrow> (Inl e, w) | (Inr x, w) \<Rightarrow> (Inr (show_x x), w))"

section \<open>Recording\<close>

record record_flags =
  rf_server :: "string option"
  rf_project :: "string option"
  rf_seed :: "64 word option"
  rf_dataset :: "string option"
  rf_model :: "string option"
  rf_device :: "string option"
  rf_config_hash :: "string option"
  rf_status :: "string option"
  rf_submitter_claim :: "string option"
  rf_job_id :: "string option"
  rf_param :: "string list"
  rf_metric :: "string list"

definition record_run :: "'w cli_env \<Rightarrow> record_flags \<Rightarrow> string \<Rightarrow> bool \<Rightarrow> string gomap \<Rightarrow> float64 gomap \<Rightarrow> run" where
  "record_run c f commit dirty params metrics =
     zero_run\<lparr>Project := set_if (rf_project f) [], GitCommit := commit, GitDirty := dirty,
       ConfigHash := set_if (rf_config_hash f) [], DatasetVersion := set_if (rf_dataset f) [],
       ModelVersion := set_if (rf_model f) [], Seed := set_if (rf_seed f) 0, Device := set_if (rf_device f) [],
       Status := set_if (rf_status f) StatusCreated, SubmitterClaim := set_if (rf_submitter_claim f) [],
       JobID := set_if (rf_job_id f) (jobIDFromEnv c), StartedAt := ce_Now c,
       Capture := Some \<lparr>Client = ''rlctl/'' @ clientVersion, Attempted = Some [''host'']\<rparr>,
       Host := set_if (ce_Hostname c) [], Params := params, Metrics := metrics\<rparr>"

definition cmdRecord :: "'w cli_env \<Rightarrow> record_flags \<Rightarrow> 'w \<Rightarrow> (cli_error + string) \<times> 'w" where
  "cmdRecord c f w =
     (case (kv_flags fmempty (rf_param f), kv_flags fmempty (rf_metric f)) of
        (Inl e, _) \<Rightarrow> (Inl e, w)
      | (_, Inl e) \<Rightarrow> (Inl e, w)
      | (Inr params, Inr metrics) \<Rightarrow>
        (if set_if (rf_project f) [] = [] then (Inl ProjectFlagRequired, w)
         else case gitContext c of (commit, dirty) \<Rightarrow>
           if commit = [] then (Inl NoGitCommit, w)
           else case flag_metrics c metrics of
             Inl e \<Rightarrow> (Inl e, w)
           | Inr ms \<Rightarrow>
             (let r = record_run c f commit dirty (if fmdom params = {||} then None else Some params) ms
              in case Validate r of
                   Some e \<Rightarrow> (Inl (InvalidRun e), w)
                 | None \<Rightarrow>
                   printed (\<lambda>out. RunID out @ newline)
                     (unmarshal (ce_UnmarshalRun c)
                       (call c ''POST'' (set_if (rf_server f) (defaultServer c)) [''runs''] fmempty
                         (case ce_MarshalRun c r of None \<Rightarrow> NoBody | Some b \<Rightarrow> RunBody b) w)))))"

section \<open>Moving a run along\<close>

definition empty_patch_request :: patch_request where
  "empty_patch_request = \<lparr>pr_Project = None, pr_GitCommit = None, pr_GitDirty = None, pr_ConfigHash = None,
     pr_DatasetVersion = None, pr_ModelVersion = None, pr_Seed = None, pr_Params = None, pr_Status = None,
     pr_EndedAt = None, pr_CheckpointURI = None, pr_Host = None, pr_Device = None, pr_FrameworkVersion = None,
     pr_SubmitterClaim = None, pr_JobID = None, pr_Metrics = None\<rparr>"

definition patchRun :: "'w cli_env \<Rightarrow> string \<Rightarrow> string \<Rightarrow> patch_request \<Rightarrow> 'w \<Rightarrow> (cli_error + run) \<times> 'w" where
  "patchRun c srv i flds w =
     (case ce_MarshalPatch c flds of
        None \<Rightarrow> (Inl MarshalError, w)
      | Some b \<Rightarrow> unmarshal (ce_UnmarshalRun c) (call c ''PATCH'' srv [''runs'', i] fmempty (PatchBody b) w))"

definition status_line :: "run \<Rightarrow> string" where
  "status_line out = RunID out @ '' '' @ Status out @ newline"

definition cmdStart :: "'w cli_env \<Rightarrow> string option \<Rightarrow> string list \<Rightarrow> 'w \<Rightarrow> (cli_error + string) \<times> 'w" where
  "cmdStart c srv args w =
     (case args of
        [i] \<Rightarrow> printed status_line (patchRun c (set_if srv (defaultServer c)) i
                 (empty_patch_request\<lparr>pr_Status := Some StatusRunning\<rparr>) w)
      | _ \<Rightarrow> (Inl (WrongArgCount ''start takes exactly one run id''), w))"

definition finishRun :: "'w cli_env \<Rightarrow> string \<Rightarrow> string \<Rightarrow> string \<Rightarrow> string \<Rightarrow> (string, string) fmap \<Rightarrow> 'w
    \<Rightarrow> (cli_error + string) \<times> 'w" where
  "finishRun c srv i status checkpoint metricFlags w =
     (case flag_metrics c metricFlags of
        Inl e \<Rightarrow> (Inl e, w)
      | Inr ms \<Rightarrow>
          printed status_line (patchRun c srv i
            (empty_patch_request\<lparr>pr_Status := Some status, pr_EndedAt := Some (ce_Now c),
               pr_CheckpointURI := (if checkpoint \<noteq> [] then Some checkpoint else None), pr_Metrics := ms\<rparr>) w))"

definition cmdFinish :: "'w cli_env \<Rightarrow> string option \<Rightarrow> string option \<Rightarrow> string option \<Rightarrow> string list \<Rightarrow> string list \<Rightarrow> 'w
    \<Rightarrow> (cli_error + string) \<times> 'w" where
  "cmdFinish c srv status checkpoint metrics args w =
     (case kv_flags fmempty metrics of
        Inl e \<Rightarrow> (Inl e, w)
      | Inr ms \<Rightarrow>
          (case args of
             [i] \<Rightarrow> finishRun c (set_if srv (defaultServer c)) i (set_if status StatusSucceeded) (set_if checkpoint []) ms w
           | _ \<Rightarrow> (Inl (WrongArgCount ''finish takes exactly one run id''), w)))"

definition cmdFail :: "'w cli_env \<Rightarrow> string option \<Rightarrow> string list \<Rightarrow> string list \<Rightarrow> 'w \<Rightarrow> (cli_error + string) \<times> 'w" where
  "cmdFail c srv metrics args w =
     (case kv_flags fmempty metrics of
        Inl e \<Rightarrow> (Inl e, w)
      | Inr ms \<Rightarrow>
          (case args of
             [i] \<Rightarrow> finishRun c (set_if srv (defaultServer c)) i StatusFailed [] ms w
           | _ \<Rightarrow> (Inl (WrongArgCount ''fail takes exactly one run id''), w)))"

section \<open>Reading\<close>

record list_flags =
  lf_server :: "string option"
  lf_project :: "string option"
  lf_commit :: "string option"
  lf_status :: "string option"
  lf_submitter_claim :: "string option"
  lf_job_id :: "string option"
  lf_capture_client :: "string option"
  lf_limit :: "int option"
  lf_cursor :: "string option"

definition cmdList :: "'w cli_env \<Rightarrow> list_flags \<Rightarrow> 'w \<Rightarrow> (cli_error + string) \<times> 'w" where
  "cmdList c f w =
     (let q1 = set_value ''project'' (set_if (lf_project f) []) fmempty;
          q2 = set_value ''git_commit'' (set_if (lf_commit f) []) q1;
          q3 = set_value ''status'' (set_if (lf_status f) []) q2;
          q4 = set_value ''submitter_claim'' (set_if (lf_submitter_claim f) []) q3;
          q5 = set_value ''job_id'' (set_if (lf_job_id f) []) q4;
          q6 = set_value ''capture_client'' (set_if (lf_capture_client f) []) q5;
          q7 = set_value ''cursor'' (set_if (lf_cursor f) []) q6;
          q8 = fmupd ''limit'' [fmt_d (set_if (lf_limit f) 20)] q7
      in printed (\<lambda>(rs, nxt). renderList (ce_localTime c) rs nxt)
           (unmarshal (ce_UnmarshalPage c) (call c ''GET'' (set_if (lf_server f) (defaultServer c)) [''runs''] q8 NoBody w)))"

definition cmdShow :: "'w cli_env \<Rightarrow> string option \<Rightarrow> string list \<Rightarrow> 'w \<Rightarrow> (cli_error + string) \<times> 'w" where
  "cmdShow c srv args w =
     (case args of
        [i] \<Rightarrow> printed (ce_EncodeIndent c)
                 (unmarshal (ce_UnmarshalRun c) (call c ''GET'' (set_if srv (defaultServer c)) [''runs'', i] fmempty NoBody w))
      | _ \<Rightarrow> (Inl (WrongArgCount ''show takes exactly one run id''), w))"

definition cmdDiff :: "'w cli_env \<Rightarrow> string option \<Rightarrow> string list \<Rightarrow> 'w \<Rightarrow> (cli_error + string) \<times> 'w" where
  "cmdDiff c srv args w =
     (case args of
        [a, b] \<Rightarrow> printed renderDiff
                    (unmarshal (ce_UnmarshalResult c) (call c ''GET'' (set_if srv (defaultServer c)) [''comparisons'']
                       (fmap_of_list [(''a'', [a]), (''b'', [b])]) NoBody w))
      | _ \<Rightarrow> (Inl (WrongArgCount ''diff takes exactly two run ids''), w))"

definition spreadList :: "'w cli_env \<Rightarrow> string \<Rightarrow> string \<Rightarrow> 'w \<Rightarrow> (cli_error + string) \<times> 'w" where
  "spreadList c srv project w =
     printed renderSpreadList
       (unmarshal (ce_UnmarshalGroups c) (call c ''GET'' srv [''fingerprints''] (set_value ''project'' project fmempty) NoBody w))"

definition spreadOne :: "'w cli_env \<Rightarrow> string \<Rightarrow> string \<Rightarrow> 'w \<Rightarrow> (cli_error + string) \<times> 'w" where
  "spreadOne c srv fingerprint w =
     printed renderSpreadGroup
       (unmarshal (ce_UnmarshalGroup c) (call c ''GET'' srv [''fingerprints'', fingerprint] fmempty NoBody w))"

definition cmdSpread :: "'w cli_env \<Rightarrow> string option \<Rightarrow> string option \<Rightarrow> string list \<Rightarrow> 'w \<Rightarrow> (cli_error + string) \<times> 'w" where
  "cmdSpread c srv project args w =
     (case args of
        [] \<Rightarrow> spreadList c (set_if srv (defaultServer c)) (set_if project []) w
      | [fp] \<Rightarrow> spreadOne c (set_if srv (defaultServer c)) fp w
      | _ \<Rightarrow> (Inl (WrongArgCount ''spread takes either --project or exactly one fingerprint, not both''), w))"

section \<open>Dispatch\<close>

datatype command =
    CRecord record_flags
  | CStart "string option" "string list"
  | CFinish "string option" "string option" "string option" "string list" "string list"
  | CFail "string option" "string list" "string list"
  | CList list_flags
  | CShow "string option" "string list"
  | CDiff "string option" "string list"
  | CSpread "string option" "string option" "string list"
  | CHelp
  | CUnknown string
  | CNone

text \<open>The exit status, and what goes to standard output. A malformed flag ends in \<open>flag.ExitOnError\<close>, status 2.\<close>

definition rlctl_main :: "'w cli_env \<Rightarrow> string \<Rightarrow> command \<Rightarrow> 'w \<Rightarrow> (int \<times> string) \<times> 'w" where
  "rlctl_main c usage cmd w =
     (let finish = (\<lambda>res. case res of
            (Inl (WantKeyValue s), w') \<Rightarrow> ((2, []), w') | (Inl e, w') \<Rightarrow> ((1, []), w') | (Inr out, w') \<Rightarrow> ((0, out), w'))
      in case cmd of
           CRecord f \<Rightarrow> finish (cmdRecord c f w)
         | CStart srv args \<Rightarrow> finish (cmdStart c srv args w)
         | CFinish srv status checkpoint metrics args \<Rightarrow> finish (cmdFinish c srv status checkpoint metrics args w)
         | CFail srv metrics args \<Rightarrow> finish (cmdFail c srv metrics args w)
         | CList f \<Rightarrow> finish (cmdList c f w)
         | CShow srv args \<Rightarrow> finish (cmdShow c srv args w)
         | CDiff srv args \<Rightarrow> finish (cmdDiff c srv args w)
         | CSpread srv project args \<Rightarrow> finish (cmdSpread c srv project args w)
         | CHelp \<Rightarrow> ((0, usage), w)
         | CUnknown s \<Rightarrow> ((2, []), w)
         | CNone \<Rightarrow> ((2, []), w))"

end
