(* ===== verification/Server_Duckdb.thy ===== *)
theory Server_Duckdb
  imports Http_Rules Duckdb_Rules
begin

text \<open>
  The server on the durable backend, over any engine that meets \<open>sql_engine\<close>: what every sequence of
  requests leaves in the ledger, and complete paging over HTTP.
\<close>

section \<open>The backend as a served store\<close>

lemma duck_canon_identity: "identity_of (duck_canon r) = identity_of r"
proof -
  have "norm_params (duck_canon r) = norm_params r"
    by (rule fmap_ext) (simp add: norm_params_lookup)
  then show ?thesis by (simp add: identity_of_def) (simp add: duck_canon_def)
qed

sublocale sql_engine \<subseteq> served: served_store "duck_Record eng" "duck_Update eng" "duck_Get eng" "duck_List eng"
  "\<lambda>db. tab_content (rel db)" "\<lambda>db. tab_inv (rel db)" duck_canon "\<lambda>x r. runsEqual x (NormalizeCapture r)"
  duck_storable duck_eqv duck_listable
proof (unfold_locales, goal_cases)
  case (1 r)
  show ?case by (simp add: duck_canon_identity) (simp add: duck_canon_def)
next
  case (2 q c d)
  then show ?case by (simp add: duck_listable_def in_int64_def)
qed

context sql_engine
begin

lemma duck_ledger:
  assumes "rel db = empty_tables" "(server_step (duck_ops eng))\<^sup>*\<^sup>* (api_New db a) srv"
  shows "served.ledger (srv_store srv)"
proof -
  have "served.ledger (srv_store (api_New db a))"
    by (rule served.ledger_new) (simp_all add: assms(1) empty_tables_inv empty_tables_content)
  then show ?thesis by (rule served.ledger_steps [OF assms(2) [unfolded duck_ops_def]])
qed

lemma duck_ledger_inv:
  assumes "rel db = empty_tables" "(server_step (duck_ops eng))\<^sup>*\<^sup>* (api_New db a) srv"
    and "duck_Get eng i (srv_store srv) = Inr r" "(server_step (duck_ops eng))\<^sup>*\<^sup>* srv srv'"
  shows "stamped r \<and> RunID r = i \<and> (\<exists>u. duck_Get eng i (srv_store srv') = Inr u \<and> evolves_by duck_eqv r u)"
proof -
  have led: "served.ledger (srv_store srv)" by (rule duck_ledger [OF assms(1,2)])
  then have inv: "tab_inv (rel (srv_store srv))" by (simp add: served.ledger_def)
  then have r: "tab_content (rel (srv_store srv)) i = Some r" using duck_Get_Inr assms(3) by blast
  note later = served.steps_evolve [OF assms(4) [unfolded duck_ops_def] inv]
  show ?thesis
    using led r later(2) [OF r] duck_Get_Inr [OF later(1)] duck.stored [OF inv r] by (auto simp: served.ledger_def)
qed

lemma duck_http_paging:
  assumes "rel db = empty_tables" "(server_step (duck_ops eng))\<^sup>*\<^sup>* (api_New db a) srv"
    and "list_request_ok rq (srv_auth srv)" "list_query env (rq_Query rq) = Inr qry" "duck_listable qry"
    and "fcard (fmdom (t_runs (rel (srv_store srv)))) < n"
  shows "\<exists>pages. http_pages n env (duck_ops eng) rq srv = Some pages
    \<and> sorted_wrt list_less (concat pages) \<and> distinct (concat pages)
    \<and> set (concat pages) = {r. (\<exists>i. duck_Get eng i (srv_store srv) = Inr r) \<and> query_match qry r \<and> after_ok qry r}
    \<and> (\<forall>pg \<in> set pages. int (length pg) \<le> MaxListLimit)"
proof -
  let ?T = "rel (srv_store srv)"
  have led: "served.ledger (srv_store srv)" by (rule duck_ledger [OF assms(1,2)])
  then have inv: "tab_inv ?T" by (simp add: served.ledger_def)
  have "i \<noteq> [] \<and> in_int64 (StartedAt r)" if r: "tab_content ?T i = Some r" for i r
  proof -
    have id: "RunID r = i" "duck_canon r = r" using duck.stored [OF inv r] by simp_all
    have "StartedAt r = duck_time (StartedAt r)" using arg_cong [OF id(2), of StartedAt] by (simp add: duck_canon_def)
    then have "in_int64 (StartedAt r)" by (metis duck_time_unix in_int64_unix_utc)
    with id(1) led r show ?thesis by (auto simp: served.ledger_def stamped_def)
  qed
  then have safe: "served.cursors_safe (srv_store srv)" using inv by (simp add: served.cursors_safe_def)
  have "dom (tab_content ?T) = fset (fmdom (t_runs ?T))"
    by (auto simp: tab_content_def fmlookup_dom_iff)
  then have dom: "finite (dom (tab_content ?T))" "card (dom (tab_content ?T)) < n"
    using assms(6) by (simp_all add: fcard.rep_eq)
  from served.http_paging [OF safe assms(4,5,3) dom] show ?thesis
    by (simp add: duck_ops_def duck_Get_Inr [OF inv])
qed

end

section \<open>What a server guarantees on it\<close>

text \<open>
  Property C14. A server on the durable backend that started on an empty database: after any requests, every
  run it serves carries the fingerprint of its own content, the current version, its id and a
  known status, and after any further requests it is still there, with its identity, fingerprint,
  start and parameters, moved at most along the lifecycle, and frozen once terminal.
\<close>

theorem duckdb_server_ledger:
  assumes "sql_engine eng rel relx" "rel db = empty_tables"
    and "(server_step (duck_ops eng))\<^sup>*\<^sup>* (api_New db a) srv" "duck_Get eng i (srv_store srv) = Inr r"
    and "(server_step (duck_ops eng))\<^sup>*\<^sup>* srv srv'"
  shows "Fingerprint r = Compute r \<and> FingerprintVersion r = CurrentFingerprintVersion \<and> RunID r = i \<and> i \<noteq> []
    \<and> ValidStatus (Status r)
    \<and> (\<exists>u. duck_Get eng i (srv_store srv') = Inr u \<and> RunID u = i \<and> identity_of u = identity_of r
        \<and> Fingerprint u = Fingerprint r \<and> Params u = Params r \<and> Capture u = Capture r
        \<and> t_ns (StartedAt u) = t_ns (StartedAt r) \<and> legalTransitions\<^sup>*\<^sup>* (Status r) (Status u)
        \<and> (Terminal (Status r) \<longrightarrow> duck_eqv r u))"
  using sql_engine.duck_ledger_inv [OF assms] by (auto simp: stamped_def evolves_by_def)

definition sample_server :: "tables server" where
  "sample_server = snd (serve sample_env (duck_ops tab_engine) sample_request
     (api_New empty_tables \<lparr>WriteToken = [], ReadToken = []\<rparr>))"

lemma sample_server_reached:
  "(server_step (duck_ops tab_engine))\<^sup>*\<^sup>* (api_New empty_tables \<lparr>WriteToken = [], ReadToken = []\<rparr>) sample_server"
  unfolding sample_server_def by (intro r_into_rtranclp server_step.request)

lemma sample_server_content:
  "tab_content (srv_store sample_server) = [''run_1'' \<mapsto> duck_canon (stamp sample_env sample_run)]"
proof -
  let ?r = "stamp sample_env sample_run"
  have id: "RunID ?r = ''run_1''" and st: "duck_storable ?r"
    by (simp_all add: stamp_def Let_def duck_storable_def int32_def CurrentFingerprintVersion_def)
  have "tab_content empty_tables (RunID ?r) = None" by (simp add: empty_tables_content)
  from tab.duck.record_fresh [OF empty_tables_inv Validate_stamp_sample this st]
  obtain T where T: "duck_Record tab_engine ?r empty_tables = (None, T)"
    "tab_content T = (tab_content empty_tables)(RunID ?r \<mapsto> duck_canon ?r)" by blast
  have "so_Record (duck_ops tab_engine) ?r empty_tables = (None, T)" by (simp add: duck_ops_def T(1))
  from sample_recorded_over [OF this] have "srv_store sample_server = T" by (simp add: sample_server_def)
  then show ?thesis by (simp add: T(2) id empty_tables_content)
qed

lemma sample_server_Get:
  "duck_Get tab_engine ''run_1'' (srv_store sample_server) = Inr (duck_canon (stamp sample_env sample_run))"
proof -
  have "tab_inv (srv_store sample_server)"
    using tab.duck_ledger [OF refl sample_server_reached] by (simp add: tab.served.ledger_def)
  then show ?thesis using tab.duck_Get_Inr by (simp add: sample_server_content)
qed

theorem duckdb_server_ledger_witness:
  "Fingerprint (duck_canon (stamp sample_env sample_run)) = Compute (duck_canon (stamp sample_env sample_run))"
  using duckdb_server_ledger [OF tab.sql_engine_axioms refl sample_server_reached sample_server_Get rtranclp.rtrancl_refl]
  by blast

text \<open>
  Property C16. On that server a client that follows \<open>next_cursor\<close> from any accepted first request to
  \<open>GET /v1/runs\<close> gets, in finitely many pages, exactly the runs that match the query, each once, newest
  first, in pages of at most \<open>MaxListLimit\<close>; the bounds of the time window must be in the range of \<open>int64\<close>
  nanoseconds, which the stored start times always are.
\<close>

theorem duckdb_http_paging:
  assumes "sql_engine eng rel relx" "rel db = empty_tables"
    and "(server_step (duck_ops eng))\<^sup>*\<^sup>* (api_New db a) srv"
    and "list_request_ok rq (srv_auth srv)" "list_query env (rq_Query rq) = Inr qry" "duck_listable qry"
    and "fcard (fmdom (t_runs (rel (srv_store srv)))) < n"
  shows "\<exists>pages. http_pages n env (duck_ops eng) rq srv = Some pages
    \<and> sorted_wrt list_less (concat pages) \<and> distinct (concat pages)
    \<and> set (concat pages) = {r. (\<exists>i. duck_Get eng i (srv_store srv) = Inr r) \<and> query_match qry r \<and> after_ok qry r}
    \<and> (\<forall>pg \<in> set pages. int (length pg) \<le> MaxListLimit)"
  by (rule sql_engine.duck_http_paging [OF assms])

theorem duckdb_http_paging_witness:
  "\<exists>pages. http_pages 2 sample_env (duck_ops tab_engine) list_request sample_server = Some pages \<and> distinct (concat pages)"
proof -
  have auth: "srv_auth sample_server = \<lparr>WriteToken = [], ReadToken = []\<rparr>"
    by (simp add: sample_server_def api_New_eq serve_auth)
  have ok: "list_request_ok list_request (srv_auth sample_server)"
    by (simp add: list_request_ok_def auth auth_enabled_def list_request_def)
  have "dom (tab_content (srv_store sample_server)) = fset (fmdom (t_runs (srv_store sample_server)))"
    by (auto simp: tab_content_def fmlookup_dom_iff)
  then have "fset (fmdom (t_runs (srv_store sample_server))) = {''run_1''}" by (simp add: sample_server_content)
  then have n: "fcard (fmdom (t_runs (srv_store sample_server))) < 2" by (simp add: fcard.rep_eq)
  have q: "list_query sample_env (rq_Query list_request) = Inr (empty_query\<lparr>q_Limit := 50\<rparr>)"
    by (simp add: list_request_def empty_list_query)
  have l: "duck_listable (empty_query\<lparr>q_Limit := 50\<rparr>)" by (simp add: duck_listable_def empty_query_def IsZero_def zero_time_def)
  show ?thesis
    using duckdb_http_paging [OF tab.sql_engine_axioms refl sample_server_reached ok q l n] by blast
qed

end
