(* ===== verification/Rlctl_Rules.thy ===== *)
theory Rlctl_Rules
  imports Rlctl Server_Duckdb
begin

text \<open>
  The client against the server: what a diff says, and where a recorded run ends up.
\<close>

section \<open>The verdict of a diff\<close>

text \<open>What \<open>rlctl diff\<close> prints when the fingerprints differ and no field does.\<close>

definition drift_report :: string where
  "drift_report = ''different experiments (fingerprints differ)'' @ newline @ drift_note"

lemma no_fields_Compute:
  assumes "res_Fields (Runs a b) = []"
  shows "Compute a = Compute b"
proof (rule identity_candidates_Compute)
  have "\<not> (\<exists>f \<in> set (res_Fields (Runs a b)). f_Kind f = KindIdentity)" by (simp add: assms)
  then show "\<not> (\<exists>c \<in> set (identity_candidates a b). distinct_ends c)" unfolding field_in_Runs candidates_of_kind .
qed

lemma pad_start: "s \<noteq> [] \<Longrightarrow> \<exists>t. pad n s = hd s # t"
  by (cases s) (simp_all add: pad_def)

lemma renderDiff_drift: "renderDiff res = drift_report \<longleftrightarrow> \<not> res_SameExperiment res \<and> res_Fields res = []"
  using pad_start [of "''FIELD''" 24]
  by (auto simp: renderDiff_def drift_report_def drift_note_def diff_line_def newline_def)

text \<open>
  Property C21. The three verdicts of \<open>rlctl diff\<close>, for any two runs. It says that the records are identical
  exactly when they are the same experiment and no field differs, and that the experiments differ exactly
  when they are not the same one. It asks the user to report a drift exactly when two
  fingerprints are stored, differ, and no field differs; that never happens when both
  stored fingerprints are those the current version computes.
\<close>

theorem diff_verdict:
  "(renderDiff (Runs a b) = ''the two records are identical'' @ newline \<longleftrightarrow> SameExperiment a b \<and> res_Fields (Runs a b) = [])
   \<and> (HasPrefix (renderDiff (Runs a b)) ''different experiments'' \<longleftrightarrow> \<not> SameExperiment a b)
   \<and> (renderDiff (Runs a b) = drift_report \<longleftrightarrow>
        Fingerprint a \<noteq> [] \<and> Fingerprint b \<noteq> [] \<and> Fingerprint a \<noteq> Fingerprint b \<and> res_Fields (Runs a b) = [])
   \<and> \<not> (renderDiff (Runs a b) = drift_report \<and> Fingerprint a = Compute a \<and> Fingerprint b = Compute b)"
proof -
  have same: "res_SameExperiment (Runs a b) \<longleftrightarrow> SameExperiment a b" by (simp add: Runs_parts)
  have "SameExperiment a b" if "res_Fields (Runs a b) = []" "Fingerprint a = [] \<or> Fingerprint b = []"
    using no_fields_Compute [OF that(1)] that(2) by (auto simp: SameExperiment_def)
  then have drift: "renderDiff (Runs a b) = drift_report \<longleftrightarrow>
      Fingerprint a \<noteq> [] \<and> Fingerprint b \<noteq> [] \<and> Fingerprint a \<noteq> Fingerprint b \<and> res_Fields (Runs a b) = []"
    unfolding renderDiff_drift same by (auto simp: SameExperiment_def)
  have "renderDiff (Runs a b) = ''the two records are identical'' @ newline \<longleftrightarrow> SameExperiment a b \<and> res_Fields (Runs a b) = []"
    "HasPrefix (renderDiff (Runs a b)) ''different experiments'' \<longleftrightarrow> \<not> SameExperiment a b"
    unfolding renderDiff_def same by (auto simp: HasPrefix_def)
  then show ?thesis using drift no_fields_Compute by metis
qed


section \<open>Where a recorded run ends up\<close>

lemma api_record_accepted:
  assumes "api_record env ops rq srv = (Some rs, srv')" "rs_Status rs < 300"
  shows "\<exists>r0. rq_RunBody rq = Inr r0 \<and> rs_Body rs = BRun (NormalizeCapture (stamp env r0)) \<and>
    so_Record ops (stamp env r0) (srv_store srv) = (None, srv_store srv')"
  using assms
  by (auto simp: api_record_def Let_def writeErr_def writeJSON_def set_header_def
      split: option.splits sum.splits prod.splits if_splits)

lemma post_runs_accepted:
  assumes rq: "rq_Method rq = ''POST''" "rq_Path rq = [''v1'', ''runs'']"
    and ok: "rs_Status (fst (serve env ops rq srv)) < 300"
  shows "\<exists>r0. rq_RunBody rq = Inr r0 \<and> rs_Body (fst (serve env ops rq srv)) = BRun (NormalizeCapture (stamp env r0))
    \<and> so_Record ops (stamp env r0) (srv_store srv) = (None, srv_store (snd (serve env ops rq srv)))"
proof (cases rule: requireAuth_cases [of True api_record env ops rq srv])
  case runs
  obtain rs srv' where run: "api_record env ops rq srv = (rs, srv')" by fastforce
  have "\<exists>x. rs = Some x"
    using run by (auto simp: api_record_def Let_def split: option.splits sum.splits prod.splits if_splits)
  then obtain rs' where rs: "api_record env ops rq srv = (Some rs', srv')" using run by blast
  note resp = serve_response [of env ops rq srv rs' srv', unfolded post_runs_route [OF rq] runs(1), OF rs]
  from api_record_accepted [OF rs] ok resp show ?thesis by metis
next
  case (refused rs)
  note resp = serve_response [of env ops rq srv rs srv, unfolded post_runs_route [OF rq], OF refused(1)]
  show ?thesis using refused(2) ok resp(1) by auto
qed

text \<open>The transport that reaches a server over the store \<open>ops\<close>.\<close>

definition to_server :: "environment \<Rightarrow> 'st store_ops \<Rightarrow> string \<Rightarrow> request \<Rightarrow> 'st server \<Rightarrow> (string + response) \<times> 'st server" where
  "to_server env ops host rq srv = apfst Inr (serve env ops rq srv)"

lemma call_post_runs:
  assumes "ce_Do c = to_server env ops" "call c ''POST'' host [''runs''] q pl srv = (Inr b, srv')"
  shows "\<exists>r. pl = RunBody (Inr r) \<and> b = BRun (NormalizeCapture (stamp env r))
    \<and> so_Record ops (stamp env r) (srv_store srv) = (None, srv_store srv')"
proof -
  let ?rq = "call_request c ''POST'' [''runs''] q pl"
  obtain rs srv1 where rs: "serve env ops ?rq srv = (rs, srv1)" by fastforce
  have "rs_Status rs < 300 \<and> b = rs_Body rs \<and> srv' = srv1"
    using assms rs by (auto simp: call_def to_server_def split: if_splits)
  moreover have "pl = RunBody (Inr r)" if "rq_RunBody ?rq = Inr r" for r
    using that by (auto simp: call_request_def Let_def split: payload.splits)
  ultimately show ?thesis
    using post_runs_accepted [of ?rq env ops srv] rs by (auto simp: call_request_def Let_def)
qed

lemma record_but_times:
  assumes "x\<lparr>StartedAt := zero_time, EndedAt := None, Metrics := None\<rparr> = y\<lparr>StartedAt := zero_time, EndedAt := None, Metrics := None\<rparr>"
  shows "identity_of x = identity_of y" "RunID x = RunID y" "Fingerprint x = Fingerprint y" "Capture x = Capture y"
  using assms by (cases x; cases y; simp add: identity_of_def norm_params_def)+

lemma record_but_metrics:
  assumes "x\<lparr>Metrics := None\<rparr> = y\<lparr>Metrics := None\<rparr>"
  shows "identity_of x = identity_of y" "RunID x = RunID y" "Fingerprint x = Fingerprint y" "Capture x = Capture y"
  using assms by (cases x; cases y; simp add: identity_of_def norm_params_def)+

text \<open>
  What is stored for an accepted record: also when the id was there already, a retry in the sense of the
  backend is a record of the same experiment with the same declaration.
\<close>

locale reporting_store = served_store +
  assumes same_frame: "same x r \<Longrightarrow> identity_of x = identity_of r \<and> RunID x = RunID r \<and> Fingerprint x = Fingerprint r
      \<and> Capture x = Capture (NormalizeCapture r)"
    and canon_capture: "Capture r = Some \<lparr>Client = cl, Attempted = Some [a]\<rparr> \<Longrightarrow> Capture (canon r) = Capture r"
begin

lemma record_stored:
  assumes "inv st" "Record r st = (None, st')" "Capture r = Some \<lparr>Client = cl, Attempted = Some [a]\<rparr>"
  shows "\<exists>x. Get (RunID r) st' = Inr x \<and> identity_of x = identity_of r \<and> RunID x = RunID r \<and> Fingerprint x = Fingerprint r
    \<and> Capture x = Capture r"
proof -
  have valid: "Validate r = None" using record_invalid [OF assms(1)] assms(2) by (cases "Validate r") simp_all
  show ?thesis
  proof (cases "content st (RunID r)")
    case (Some x)
    then have "same x r" "st' = st" using record_known [OF assms(1) valid] assms(2) by (auto split: if_splits)
    moreover have "Capture (NormalizeCapture r) = Capture r" using assms(3) by (simp add: NormalizeCapture_def)
    ultimately show ?thesis using get_law [OF assms(1)] Some same_frame by auto
  next
    case None
    then have "storable r" using record_refused [OF assms(1) valid] assms(2) by (cases "storable r") auto
    then have "inv st'" "content st' = (content st)(RunID r \<mapsto> canon r)"
      using record_fresh [OF assms(1) valid None] assms(2) by auto
    then have "Get (RunID r) st' = Inr (canon r)" using get_law by simp
    then show ?thesis using canon_frame [of r] canon_capture [OF assms(3)] by auto
  qed
qed

end

interpretation reporting_mem: reporting_store mem_Record mem_Update mem_Get mem_List "\<lambda>m. fmlookup (runs m)" mem_inv
  NormalizeCapture "\<lambda>x r. DeepEqual x (NormalizeCapture r)" "\<lambda>_. True" "(=)" "\<lambda>_. True"
proof (unfold_locales, goal_cases)
  case (1 x r)
  have "x\<lparr>Metrics := None\<rparr> = (NormalizeCapture r)\<lparr>Metrics := None\<rparr>" using 1 by (simp add: DeepEqual_def)
  from record_but_metrics [OF this] show ?case using served_mem.canon_frame [of r] by auto
next
  case (2 r cl a)
  then show ?case by (simp add: NormalizeCapture_def)
qed

sublocale sql_engine \<subseteq> reporting: reporting_store "duck_Record eng" "duck_Update eng" "duck_Get eng" "duck_List eng"
  "\<lambda>db. tab_content (rel db)" "\<lambda>db. tab_inv (rel db)" duck_canon "\<lambda>x r. runsEqual x (NormalizeCapture r)"
  duck_storable duck_eqv duck_listable
proof (unfold_locales, goal_cases)
  case (1 x r)
  let ?z = "\<lambda>x. x\<lparr>StartedAt := zero_time, EndedAt := None, Metrics := None\<rparr>"
  have "?z x = ?z (NormalizeCapture r)" using 1 by (auto simp: runsEqual_def DeepEqual_def split: if_splits)
  from record_but_times [OF this] show ?case using served_mem.canon_frame [of r] by auto
next
  case (2 r cl a)
  then show ?case by (simp add: duck_canon_def nilled_def)
qed

section \<open>What JSON carries\<close>

text \<open>
  What \<open>encoding/json\<close> documents of a run that is encoded and decoded again: numbers, booleans and instants
  come back, and strings, except that bytes that are not UTF-8 are replaced (\<open>utf8\<close>); an empty list is
  nil again. Nothing is said of the maps, whose keys may fall together.
\<close>

definition json_carries :: "(string \<Rightarrow> string) \<Rightarrow> run \<Rightarrow> run \<Rightarrow> bool" where
  "json_carries utf8 r r' \<longleftrightarrow>
     Project r' = utf8 (Project r) \<and> GitCommit r' = utf8 (GitCommit r) \<and> GitDirty r' = GitDirty r
     \<and> ConfigHash r' = utf8 (ConfigHash r) \<and> DatasetVersion r' = utf8 (DatasetVersion r) \<and> ModelVersion r' = utf8 (ModelVersion r)
     \<and> Seed r' = Seed r \<and> RunID r' = utf8 (RunID r) \<and> Fingerprint r' = utf8 (Fingerprint r)
     \<and> FingerprintVersion r' = FingerprintVersion r \<and> Status r' = utf8 (Status r)
     \<and> t_ns (StartedAt r') = t_ns (StartedAt r) \<and> map_option t_ns (EndedAt r') = map_option t_ns (EndedAt r)
     \<and> Capture r' = map_option (\<lambda>d. \<lparr>Client = utf8 (Client d), Attempted = nilled (map utf8 (slice (Attempted d)))\<rparr>) (Capture r)"

text \<open>A generated run id is made of visible characters.\<close>

lemma digit_char_visible: "d < 36 \<Longrightarrow> visible (digit_char d)"
  by (auto simp: digit_char_def visible_def)

lemma fmt_nat_visible: "2 \<le> b \<Longrightarrow> b \<le> 36 \<Longrightarrow> list_all visible (fmt_nat b n)"
proof (induction b n rule: fmt_nat.induct)
  case (1 b n)
  have "n mod b < b" using 1(2) by simp
  then have "n mod b < 36" using 1(3) by linarith
  with 1 show ?case by (subst fmt_nat.simps) (auto intro!: digit_char_visible)
qed

lemma FormatInt_visible: "2 \<le> b \<Longrightarrow> b \<le> 36 \<Longrightarrow> list_all visible (FormatInt i b)"
  using fmt_nat_visible by (simp add: FormatInt_def) (simp add: visible_def)

lemma hex_encode_visible: "list_all visible (hex_encode s)"
proof -
  have "of_char c div 16 < (36 :: nat)" for c by (cases c) (simp add: of_char_def)
  then show ?thesis by (induction s) (auto simp: hex_encode_def intro!: digit_char_visible)
qed

lemma stamped_id_visible:
  assumes "RunID r = []"
  shows "list_all visible (RunID (stamp env r))"
proof -
  have "list_all visible (randomSuffix env)"
    using hex_encode_visible by (cases "e_suffixBytes env") (simp_all add: randomSuffix_def visible_def)
  moreover have "list_all visible (take n (Compute x))" for n x
    using hex_encode_visible by (auto simp: Compute_def Compute_ranged_def list_all_iff dest!: in_set_takeD)
  moreover have "list_all visible ''-''" by (simp add: visible_def)
  ultimately show ?thesis using assms FormatInt_visible by (simp add: stamp_def Let_def)
qed

section \<open>From the command line to the ledger\<close>

text \<open>A successful \<open>record\<close> got past every check and sent the run it built.\<close>

lemma cmdRecord_sent:
  assumes "cmdRecord c f w = (Inr out, w')"
  obtains params ms r b where "r = record_run c f (fst (gitContext c)) (snd (gitContext c)) params ms"
    "fst (gitContext c) \<noteq> []" "Validate r = None" "out = RunID b @ newline"
    "unmarshal (ce_UnmarshalRun c) (call c ''POST'' (set_if (rf_server f) (defaultServer c)) [''runs''] fmempty
       (case ce_MarshalRun c r of None \<Rightarrow> NoBody | Some b \<Rightarrow> RunBody b) w) = (Inr b, w')"
proof -
  obtain commit dirty where git: "gitContext c = (commit, dirty)" by fastforce
  obtain pf mf where fl: "kv_flags fmempty (rf_param f) = Inr pf" "kv_flags fmempty (rf_metric f) = Inr mf"
    using assms by (auto simp: cmdRecord_def split: sum.splits)
  obtain ms where ms: "flag_metrics c mf = Inr ms"
    using assms by (cases "flag_metrics c mf") (auto simp: cmdRecord_def fl git split: if_splits)
  define r where "r = record_run c f commit dirty (if fmdom pf = {||} then None else Some pf) ms"
  let ?res = "unmarshal (ce_UnmarshalRun c) (call c ''POST'' (set_if (rf_server f) (defaultServer c)) [''runs''] fmempty
       (case ce_MarshalRun c r of None \<Rightarrow> NoBody | Some b \<Rightarrow> RunBody b) w)"
  have "commit \<noteq> []" "Validate r = None" and out: "printed (\<lambda>out. RunID out @ newline) ?res = (Inr out, w')"
    using assms unfolding cmdRecord_def fl sum.case prod.case git ms Let_def r_def [symmetric]
    by (auto split: if_splits option.splits)
  moreover obtain b where "?res = (Inr b, w')" "out = RunID b @ newline"
    using out by (auto simp: printed_def split: prod.splits sum.splits)
  ultimately show ?thesis using that [of r _ ms b] git unfolding r_def by auto
qed

context reporting_store
begin

lemma recorded_run_lands:
  assumes run: "cmdRecord c f srv = (Inr out, srv')" "ce_Do c = to_server env served" "inv (srv_store srv)"
    and utf8: "\<And>s. list_all visible s \<Longrightarrow> utf8 s = s"
    and enc: "\<And>r r'. ce_MarshalRun c r = Some (Inr r') \<Longrightarrow> json_carries utf8 r r'"
    and dec: "\<And>r r'. ce_UnmarshalRun c (BRun r) = Inr r' \<Longrightarrow> json_carries utf8 r r'"
  shows "\<exists>x. out = RunID x @ newline \<and> Get (RunID x) (srv_store srv') = Inr x
    \<and> Project x = utf8 (set_if (rf_project f) []) \<and> Seed x = set_if (rf_seed f) 0
    \<and> GitCommit x = utf8 (fst (gitContext c)) \<and> GitDirty x = snd (gitContext c) \<and> fst (gitContext c) \<noteq> []
    \<and> Fingerprint x = Compute x \<and> Capture x = Some \<lparr>Client = ''rlctl/0.1.0'', Attempted = Some [''host'']\<rparr>"
proof -
  obtain params ms r b where r: "r = record_run c f (fst (gitContext c)) (snd (gitContext c)) params ms"
      "fst (gitContext c) \<noteq> []" "out = RunID b @ newline"
      "unmarshal (ce_UnmarshalRun c) (call c ''POST'' (set_if (rf_server f) (defaultServer c)) [''runs''] fmempty
        (case ce_MarshalRun c r of None \<Rightarrow> NoBody | Some b \<Rightarrow> RunBody b) srv) = (Inr b, srv')"
    using cmdRecord_sent [OF run(1)] by metis
  obtain y where y: "call c ''POST'' (set_if (rf_server f) (defaultServer c)) [''runs''] fmempty
        (case ce_MarshalRun c r of None \<Rightarrow> NoBody | Some b \<Rightarrow> RunBody b) srv = (Inr y, srv')" "ce_UnmarshalRun c y = Inr b"
    using r(4) by (auto simp: unmarshal_def split: prod.splits sum.splits)
  from call_post_runs [OF run(2) y(1)] obtain r0 where r0: "ce_MarshalRun c r = Some (Inr r0)"
      "y = BRun (NormalizeCapture (stamp env r0))" "Record (stamp env r0) (srv_store srv) = (None, srv_store srv')"
    by (auto split: option.splits)
  let ?s = "stamp env r0"
  have vis: "utf8 ''rlctl/0.1.0'' = ''rlctl/0.1.0''" "utf8 ''host'' = ''host''" "utf8 [] = []"
    by (rule utf8, simp add: visible_def)+
  note sent = enc [OF r0(1), unfolded json_carries_def r(1) record_run_def clientVersion_def]
  have s: "Project ?s = Project r0" "Seed ?s = Seed r0" "GitCommit ?s = GitCommit r0" "GitDirty ?s = GitDirty r0" "Capture ?s = Capture r0"
    by (simp_all add: stamp_def Let_def)
  have "RunID r0 = []" using sent vis(3) by (simp add: zero_run_def)
  then have "utf8 (RunID ?s) = RunID ?s" using utf8 stamped_id_visible by blast
  moreover have "RunID b = utf8 (RunID ?s)"
    using dec [of "NormalizeCapture ?s" b] y(2) r0(2) served_mem.canon_frame [of ?s] by (simp add: json_carries_def)
  ultimately have id: "out = RunID ?s @ newline" using r(3) by simp
  have cap: "Capture ?s = Some \<lparr>Client = ''rlctl/0.1.0'', Attempted = Some [''host'']\<rparr>"
    using sent vis by (simp add: s(5) nilled_def)
  obtain x where x: "Get (RunID ?s) (srv_store srv') = Inr x" "identity_of x = identity_of ?s" "RunID x = RunID ?s"
      "Fingerprint x = Fingerprint ?s" "Capture x = Capture ?s"
    using record_stored [OF run(3) r0(3) cap] by blast
  have "Fingerprint x = Compute x" using x(4) stamp_fields(1) [of env r0] identity_Compute [OF x(2)] by simp
  moreover have "Project x = Project r0" "Seed x = Seed r0" "GitCommit x = GitCommit r0" "GitDirty x = GitDirty r0"
    using x(2) s by (simp_all add: identity_of_def)
  ultimately show ?thesis using x id cap r(2) sent by (intro exI [of _ x]) simp
qed

end

lemmas rlctl_lands_in_memory = reporting_mem.recorded_run_lands

context sql_engine
begin

lemma duck_recorded_run_lands:
  assumes "rel db = empty_tables" "(server_step (duck_ops eng))\<^sup>*\<^sup>* (api_New db a) srv"
    and "cmdRecord c f srv = (Inr out, srv')" "ce_Do c = to_server env (duck_ops eng)"
    and "\<And>s. list_all visible s \<Longrightarrow> utf8 s = s"
    and "\<And>r r'. ce_MarshalRun c r = Some (Inr r') \<Longrightarrow> json_carries utf8 r r'"
    and "\<And>r r'. ce_UnmarshalRun c (BRun r) = Inr r' \<Longrightarrow> json_carries utf8 r r'"
  shows "\<exists>x. out = RunID x @ newline \<and> duck_Get eng (RunID x) (srv_store srv') = Inr x
    \<and> Project x = utf8 (set_if (rf_project f) []) \<and> Seed x = set_if (rf_seed f) 0
    \<and> GitCommit x = utf8 (fst (gitContext c)) \<and> GitDirty x = snd (gitContext c) \<and> fst (gitContext c) \<noteq> []
    \<and> Fingerprint x = Compute x \<and> Capture x = Some \<lparr>Client = ''rlctl/0.1.0'', Attempted = Some [''host'']\<rparr>"
proof -
  have "tab_inv (rel (srv_store srv))" using duck_ledger [OF assms(1,2)] by (simp add: served.ledger_def)
  from reporting.recorded_run_lands [OF assms(3) assms(4) [unfolded duck_ops_def] this assms(5-7)] show ?thesis .
qed

end

text \<open>
  Property C20. From the command line to the ledger: when \<open>rlctl record\<close> succeeds against a server on the
  durable backend, after whatever that server has served, the id it prints is the id of a run that a
  read returns afterwards, and that run has the project and seed of the flags, the commit and the
  dirty state of the working tree, a fingerprint the server computed from its content, and a capture
  declaration that claims the host name and nothing else. JSON is assumed to carry numbers,
  booleans, instants and strings, the latter up to the replacement of bytes that are not UTF-8;
  nothing is assumed of parameters and metrics, nor that encoding succeeds (it fails on a metric that
  is not finite, and then the empty request is refused and the command does not succeed).
\<close>

theorem rlctl_record_lands:
  assumes "sql_engine eng rel relx" "rel db = empty_tables" "(server_step (duck_ops eng))\<^sup>*\<^sup>* (api_New db a) srv"
    and "cmdRecord c f srv = (Inr out, srv')" "ce_Do c = to_server env (duck_ops eng)"
    and "\<And>s. list_all visible s \<Longrightarrow> utf8 s = s"
    and "\<And>r r'. ce_MarshalRun c r = Some (Inr r') \<Longrightarrow> json_carries utf8 r r'"
    and "\<And>r r'. ce_UnmarshalRun c (BRun r) = Inr r' \<Longrightarrow> json_carries utf8 r r'"
  shows "\<exists>x. out = RunID x @ newline \<and> duck_Get eng (RunID x) (srv_store srv') = Inr x
    \<and> Project x = utf8 (set_if (rf_project f) []) \<and> Seed x = set_if (rf_seed f) 0
    \<and> GitCommit x = utf8 (fst (gitContext c)) \<and> GitDirty x = snd (gitContext c) \<and> fst (gitContext c) \<noteq> []
    \<and> Fingerprint x = Compute x \<and> Capture x = Some \<lparr>Client = ''rlctl/0.1.0'', Attempted = Some [''host'']\<rparr>"
  by (rule sql_engine.duck_recorded_run_lands [OF assms])

text \<open>A codec as documented: no encoding of a metric that is not finite, and empty maps and lists come back nil.\<close>

definition json_run :: "run \<Rightarrow> run" where
  "json_run r = r\<lparr>Params := unempty (Params r), Metrics := unempty (Metrics r),
     Capture := map_option (\<lambda>d. d\<lparr>Attempted := nilled (slice (Attempted d))\<rparr>) (Capture r)\<rparr>"

lemma json_run_carries: "json_carries (\<lambda>s. s) r (json_run r)"
  by (cases "Capture r") (simp_all add: json_carries_def json_run_def)

definition sample_cli :: "tables server cli_env" where
  "sample_cli = \<lparr>ce_Getenv = (\<lambda>_. []), ce_git = (\<lambda>args. if args = [''rev-parse'', ''HEAD''] then Some ''c0ffee'' else Some []),
     ce_Hostname = Some ''node1'', ce_Now = sample_now, ce_Sscanf = (\<lambda>_. None), ce_localTime = (\<lambda>_. []),
     ce_MarshalRun = (\<lambda>r. if finite_metrics (Metrics r) then Some (Inr (json_run r)) else None), ce_MarshalPatch = (\<lambda>p. Some (Inr p)),
     ce_UnmarshalRun = (\<lambda>b. case b of BRun r \<Rightarrow> Inr (json_run r) | _ \<Rightarrow> Inl ''json''),
     ce_UnmarshalPage = (\<lambda>_. Inl ''json''), ce_UnmarshalResult = (\<lambda>_. Inl ''json''),
     ce_UnmarshalGroups = (\<lambda>_. Inl ''json''), ce_UnmarshalGroup = (\<lambda>_. Inl ''json''),
     ce_EncodeIndent = (\<lambda>_. []), ce_Do = to_server sample_env (duck_ops tab_engine)\<rparr>"

definition sample_flags :: record_flags where
  "sample_flags = \<lparr>rf_server = None, rf_project = Some ''p'', rf_seed = Some 7, rf_dataset = None, rf_model = None,
     rf_device = None, rf_config_hash = None, rf_status = None, rf_submitter_claim = None, rf_job_id = None,
     rf_param = [], rf_metric = []\<rparr>"

lemma sample_cli_simps [simp]:
  "ce_Do sample_cli = to_server sample_env (duck_ops tab_engine)"
  "ce_MarshalRun sample_cli r = (if finite_metrics (Metrics r) then Some (Inr (json_run r)) else None)"
  "ce_UnmarshalRun sample_cli (BRun r) = Inr (json_run r)"
  "rf_param sample_flags = []" "rf_metric sample_flags = []" "rf_project sample_flags = Some ''p''" "rf_seed sample_flags = Some 7"
  by (simp_all add: sample_cli_def sample_flags_def)

lemma post_runs_served:
  assumes "\<not> auth_enabled (srv_auth srv)" "rq_Method rq = ''POST''" "rq_Path rq = [''v1'', ''runs'']"
    "requireJSON env rq = None" "rq_RunBody rq = Inr r" "so_Record ops (stamp env r) (srv_store srv) = (None, st')"
  shows "rs_Status (fst (serve env ops rq srv)) = 201"
    "rs_Body (fst (serve env ops rq srv)) = BRun (NormalizeCapture (stamp env r))"
proof -
  have "\<exists>rs srv'. mux_ServeHTTP env ops rq srv = (Some rs, srv') \<and> rs_Status rs = 201 \<and>
      rs_Body rs = BRun (NormalizeCapture (stamp env r))"
    using assms by (simp add: post_runs_route requireAuth_def api_record_def Let_def set_header_def writeJSON_def)
  then show "rs_Status (fst (serve env ops rq srv)) = 201"
    "rs_Body (fst (serve env ops rq srv)) = BRun (NormalizeCapture (stamp env r))"
    using serve_response by metis+
qed

definition sample_ledger :: "tables server" where
  "sample_ledger = api_New empty_tables \<lparr>WriteToken = [], ReadToken = []\<rparr>"

lemma sample_record_works: "\<exists>out srv'. cmdRecord sample_cli sample_flags sample_ledger = (Inr out, srv')"
proof -
  have vis: "TrimSpace ''c0ffee'' = ''c0ffee''" "TrimSpace ''p'' = ''p''" by (rule TrimSpace_visible; simp add: visible_def)+
  have git: "gitContext sample_cli = (''c0ffee'', False)" by (simp add: gitContext_def git_run_def sample_cli_def vis)
  define r where "r = record_run sample_cli sample_flags ''c0ffee'' False None None"
  have valid: "Validate r = None"
    by (simp add: r_def record_run_def sample_flags_def zero_run_def Validate_def vis captureFieldSet_def CaptureFields_def)
  have js: "json_run r = r" "finite_metrics (Metrics r)"
    by (simp_all add: r_def record_run_def zero_run_def json_run_def nilled_def unempty_def finite_metrics_def map_keys_sorted_def)
  have "EndedAt r = None" by (simp add: r_def record_run_def zero_run_def)
  then have valid': "Validate (stamp sample_env r) = None"
    using valid by (auto simp: Validate_None_iff stamp_def Let_def)
  have "duck_storable (stamp sample_env r)"
    by (simp add: duck_storable_def int32_def stamp_def Let_def CurrentFingerprintVersion_def r_def record_run_def)
  then obtain T where T: "so_Record (duck_ops tab_engine) (stamp sample_env r) (srv_store sample_ledger) = (None, T)"
    using tab.duck.record_fresh [OF empty_tables_inv valid'] by (auto simp: sample_ledger_def api_New_eq duck_ops_def empty_tables_content)
  let ?rq = "call_request sample_cli ''POST'' [''runs''] fmempty (RunBody (Inr r))"
  have ct: "requireJSON sample_env ?rq = None" by (simp add: requireJSON_def call_request_def Let_def sample_env_def)
  have st: "rs_Status (fst (serve sample_env (duck_ops tab_engine) ?rq sample_ledger)) = 201"
      "rs_Body (fst (serve sample_env (duck_ops tab_engine) ?rq sample_ledger)) = BRun (NormalizeCapture (stamp sample_env r))"
    by (rule post_runs_served [OF _ _ _ ct _ T]; simp add: call_request_def Let_def sample_ledger_def api_New_eq auth_enabled_def)+
  obtain rs srv' where rs: "serve sample_env (duck_ops tab_engine) ?rq sample_ledger = (rs, srv')" by fastforce
  have "call sample_cli ''POST'' host [''runs''] fmempty (RunBody (Inr r)) sample_ledger =
      (Inr (BRun (NormalizeCapture (stamp sample_env r))), srv')" for host
    using st by (simp add: call_def to_server_def rs)
  then show ?thesis
    by (simp add: cmdRecord_def git flag_metrics_def valid Let_def r_def [symmetric] printed_def unmarshal_def js)
qed

theorem rlctl_record_lands_witness:
  "\<exists>out srv' x. cmdRecord sample_cli sample_flags sample_ledger = (Inr out, srv')
     \<and> out = RunID x @ newline \<and> duck_Get tab_engine (RunID x) (srv_store srv') = Inr x \<and> Project x = ''p'' \<and> Seed x = 7"
proof -
  obtain out srv' where run: "cmdRecord sample_cli sample_flags sample_ledger = (Inr out, srv')"
    using sample_record_works by blast
  have "json_carries (\<lambda>s. s) r r'" if "ce_MarshalRun sample_cli r = Some (Inr r')" for r r'
    using that json_run_carries by (auto split: if_splits)
  moreover have "json_carries (\<lambda>s. s) r r'" if "ce_UnmarshalRun sample_cli (BRun r) = Inr r'" for r r'
    using that json_run_carries by auto
  ultimately have "\<exists>x. out = RunID x @ newline \<and> duck_Get tab_engine (RunID x) (srv_store srv') = Inr x
      \<and> Project x = set_if (rf_project sample_flags) [] \<and> Seed x = set_if (rf_seed sample_flags) 0"
    using rlctl_record_lands [OF tab.sql_engine_axioms refl rtranclp.rtrancl_refl run [unfolded sample_ledger_def] sample_cli_simps(1) refl]
    by metis
  with run show ?thesis by auto
qed

end
