(* ===== verification/Conformance.thy ===== *)
theory Conformance
  imports Store_Contract
begin

text \<open>
  The conformance suite \<open>RunConformance\<close> of \<open>internal/store/conformance.go\<close>, which every backend
  must pass, as a program over the interface \<open>store_ops\<close>: one bool-valued definition per subtest, in
  the order of the file.

  A subtest is written with continuations: \<open>rec_ok s r k st\<close> records \<open>r\<close>, fails if that fails
  (\<open>t.Fatal\<close>) and goes on with \<open>k\<close>. \<open>now n\<close> is the \<open>n\<close>th reading of \<open>time.Now()\<close> in the subtest, the
  ones the store may take itself included. What concurrent goroutines do is a parameter: the order in
  which their calls reach the store. \<open>Record\<close> takes effect at one moment on both backends (it holds
  the lock), but a \<open>List\<close> may take several statements, so in the two subtests that list while others
  write, the listing is a parameter \<open>during\<close> that is given the store at each of its statements.

  A reading of \<open>time.Now()\<close> also carries a monotonic part, which \<open>time\<close> leaves out; comparisons of two
  readings use it, and agree with the wall clock as long as that never runs backwards, as the
  theorems assume.
\<close>

section \<open>Steps of a subtest\<close>

type_synonym clock = "nat \<Rightarrow> time"

type_synonym 'st subtest = "'st store_ops \<Rightarrow> clock \<Rightarrow> 'st \<Rightarrow> bool"

definition passed :: "'st \<Rightarrow> bool" where
  "passed st = True"

definition check :: "bool \<Rightarrow> ('st \<Rightarrow> bool) \<Rightarrow> 'st \<Rightarrow> bool" where
  "check b k st = (b \<and> k st)"

definition rec_ok :: "'st store_ops \<Rightarrow> run \<Rightarrow> ('st \<Rightarrow> bool) \<Rightarrow> 'st \<Rightarrow> bool" where
  "rec_ok s r k st = (case so_Record s r st of (None, st') \<Rightarrow> k st' | (Some e, st') \<Rightarrow> False)"

definition rec_err :: "'st store_ops \<Rightarrow> run \<Rightarrow> (store_error \<Rightarrow> bool) \<Rightarrow> ('st \<Rightarrow> bool) \<Rightarrow> 'st \<Rightarrow> bool" where
  "rec_err s r P k st = (case so_Record s r st of (None, st') \<Rightarrow> False | (Some e, st') \<Rightarrow> P e \<and> k st')"

text \<open>\<open>_ = s.Record(ctx, r)\<close>\<close>

definition rec_any :: "'st store_ops \<Rightarrow> run \<Rightarrow> ('st \<Rightarrow> bool) \<Rightarrow> 'st \<Rightarrow> bool" where
  "rec_any s r k st = k (snd (so_Record s r st))"

definition upd_ok :: "'st store_ops \<Rightarrow> time \<Rightarrow> string \<Rightarrow> patch \<Rightarrow> (run \<Rightarrow> 'st \<Rightarrow> bool) \<Rightarrow> 'st \<Rightarrow> bool" where
  "upd_ok s now i p k st = (case so_Update s now i p st of (Inr r, st') \<Rightarrow> k r st' | (Inl e, st') \<Rightarrow> False)"

definition upd_err ::
    "'st store_ops \<Rightarrow> time \<Rightarrow> string \<Rightarrow> patch \<Rightarrow> (store_error \<Rightarrow> bool) \<Rightarrow> ('st \<Rightarrow> bool) \<Rightarrow> 'st \<Rightarrow> bool" where
  "upd_err s now i p P k st = (case so_Update s now i p st of (Inr r, st') \<Rightarrow> False | (Inl e, st') \<Rightarrow> P e \<and> k st')"

definition get_ok :: "'st store_ops \<Rightarrow> string \<Rightarrow> (run \<Rightarrow> 'st \<Rightarrow> bool) \<Rightarrow> 'st \<Rightarrow> bool" where
  "get_ok s i k st = (case so_Get s i st of Inr r \<Rightarrow> k r st | Inl e \<Rightarrow> False)"

definition get_err :: "'st store_ops \<Rightarrow> string \<Rightarrow> (store_error \<Rightarrow> bool) \<Rightarrow> ('st \<Rightarrow> bool) \<Rightarrow> 'st \<Rightarrow> bool" where
  "get_err s i P k st = (case so_Get s i st of Inr r \<Rightarrow> False | Inl e \<Rightarrow> P e \<and> k st)"

definition list_ok :: "'st store_ops \<Rightarrow> query \<Rightarrow> (page \<Rightarrow> 'st \<Rightarrow> bool) \<Rightarrow> 'st \<Rightarrow> bool" where
  "list_ok s q k st = (case so_List s q st of Inr pg \<Rightarrow> k pg st | Inl e \<Rightarrow> False)"

abbreviation is_conflict :: "store_error \<Rightarrow> bool" where
  "is_conflict e \<equiv> errors_Is e ErrConflict"

fun rec_all :: "'st store_ops \<Rightarrow> run list \<Rightarrow> ('st \<Rightarrow> bool) \<Rightarrow> 'st \<Rightarrow> bool" where
  "rec_all s [] k = k"
| "rec_all s (r # rs) k = rec_ok s r (rec_all s rs k)"

fun rec_each :: "'st store_ops \<Rightarrow> run list \<Rightarrow> ('st \<Rightarrow> bool) \<Rightarrow> 'st \<Rightarrow> bool" where
  "rec_each s [] k = k"
| "rec_each s (r # rs) k = rec_any s r (rec_each s rs k)"

text \<open>Calls of \<open>Record\<close> from several goroutines, in the order they happen, with their results.\<close>

fun rec_errs :: "'st store_ops \<Rightarrow> run list \<Rightarrow> 'st \<Rightarrow> store_error option list \<times> 'st" where
  "rec_errs s [] st = ([], st)"
| "rec_errs s (r # rs) st =
     (case so_Record s r st of (e, st') \<Rightarrow> (case rec_errs s rs st' of (es, st'') \<Rightarrow> (e # es, st'')))"

section \<open>The values the subtests use\<close>

definition mk :: "string \<Rightarrow> string \<Rightarrow> time \<Rightarrow> run" where
  "mk i project started =
     (let r = zero_run\<lparr>Project := project, GitCommit := ''c'' @ i, ConfigHash := ''cfg'', RunID := i,
                Status := StatusSucceeded, StartedAt := started, Device := ''cpu''\<rparr>
      in r\<lparr>Fingerprint := Compute r, FingerprintVersion := CurrentFingerprintVersion\<rparr>)"

text \<open>\<open>r.Fingerprint = r.Compute()\<close>\<close>

definition recompute :: "run \<Rightarrow> run" where
  "recompute r = r\<lparr>Fingerprint := Compute r\<rparr>"

definition add :: "time \<Rightarrow> int \<Rightarrow> time" where
  "add t d = t\<lparr>t_ns := t_ns t + d\<rparr>"

abbreviation second_ns :: int where "second_ns \<equiv> 1000000000"
abbreviation minute_ns :: int where "minute_ns \<equiv> 60 * second_ns"
abbreviation hour_ns :: int where "hour_ns \<equiv> 60 * minute_ns"
abbreviation millisecond_ns :: int where "millisecond_ns \<equiv> 1000000"

text \<open>\<open>time.Date(2024, 1, 1, 0, 0, 0, 0, time.UTC)\<close>\<close>

definition base_2024 :: time where
  "base_2024 = \<lparr>t_ns = 1704067200 * second_ns, t_loc = UTC\<rparr>"

text \<open>The float constants of the file.\<close>

definition f0_1 :: float64 where "f0_1 = 0x3FB999999999999A"
definition f0_2 :: float64 where "f0_2 = 0x3FC999999999999A"
definition f0_4 :: float64 where "f0_4 = 0x3FD999999999999A"
definition f0_5 :: float64 where "f0_5 = 0x3FE0000000000000"
definition f0_9 :: float64 where "f0_9 = 0x3FECCCCCCCCCCCCD"
definition f1_0 :: float64 where "f1_0 = 0x3FF0000000000000"

definition metrics_lit :: "string \<Rightarrow> float64 \<Rightarrow> float64 gomap" where
  "metrics_lit k v = Some (fmap_of_list [(k, v)])"

text \<open>\<open>m[k]\<close> on a map of floats: a missing key reads 0.\<close>

definition metric_at :: "float64 gomap \<Rightarrow> string \<Rightarrow> float64" where
  "metric_at m k = (case map_get m k of None \<Rightarrow> 0 | Some v \<Rightarrow> v)"

definition capture_of :: "string \<Rightarrow> string list \<Rightarrow> capture_declaration" where
  "capture_of client attempted = \<lparr>Client = client, Attempted = Some attempted\<rparr>"

definition query_p :: query where
  "query_p = empty_query\<lparr>q_Project := ''p''\<rparr>"

definition ids :: "page \<Rightarrow> string list" where
  "ids pg = map RunID (pg_Runs pg)"

text \<open>\<open>fmt.Sprintf\<close> with a width and the flag 0.\<close>

definition pad0 :: "nat \<Rightarrow> string \<Rightarrow> string" where
  "pad0 w s = replicate (w - length s) (CHR ''0'') @ s"

section \<open>Recording\<close>

definition t_get_unknown :: "'st subtest" where
  "t_get_unknown s now = get_err s ''nope'' (\<lambda>e. errors_Is e ErrNotFound) passed"

definition t_record_twice :: "'st subtest" where
  "t_record_twice s now = (let r = mk ''a'' ''p'' (now 0) in rec_ok s r (rec_ok s r passed))"

definition t_record_conflict :: "'st subtest" where
  "t_record_conflict s now =
     (let r = mk ''a'' ''p'' (now 0) in rec_ok s r (rec_err s (r\<lparr>Status := StatusFailed\<rparr>) is_conflict passed))"

definition t_record_invalid :: "'st subtest" where
  "t_record_invalid s now = rec_err s (zero_run\<lparr>RunID := ''x''\<rparr>) (\<lambda>e. True) passed"

fun again :: "nat \<Rightarrow> (('st \<Rightarrow> bool) \<Rightarrow> 'st \<Rightarrow> bool) \<Rightarrow> ('st \<Rightarrow> bool) \<Rightarrow> 'st \<Rightarrow> bool" where
  "again 0 f k = k"
| "again (Suc n) f k = f (again n f k)"

definition t_newest_first :: "'st subtest" where
  "t_newest_first s now =
     rec_all s [mk ''old'' ''p'' (add (now 0) (- 2 * hour_ns)), mk ''new'' ''p'' (now 0), mk ''mid'' ''p'' (add (now 0) (- hour_ns))]
       (again 20 (\<lambda>k. list_ok s query_p (\<lambda>pg.
          check (ids pg = [''new'', ''mid'', ''old'']) (check (pg_Next pg = None) k))) passed)"

definition t_project_filter :: "'st subtest" where
  "t_project_filter s now =
     rec_each s [mk ''a'' ''alpha'' (now 0), mk ''b'' ''beta'' (add (now 0) (- minute_ns))]
       (list_ok s (empty_query\<lparr>q_Project := ''alpha''\<rparr>) (\<lambda>pg. check (ids pg = [''a'']) passed))"

definition t_attribution_filter :: "'st subtest" where
  "t_attribution_filter s now =
     (let alice = recompute ((mk ''a'' ''p'' (now 0))\<lparr>SubmitterClaim := ''alice'', JobID := ''ci-1''\<rparr>);
          bob = recompute ((mk ''b'' ''p'' (add (now 0) (- minute_ns)))\<lparr>SubmitterClaim := ''bob'', JobID := ''ci-2''\<rparr>)
      in rec_ok s alice (rec_ok s bob
        (list_ok s (query_p\<lparr>q_SubmitterClaim := ''alice''\<rparr>) (\<lambda>pg. check (ids pg = [''a''])
        (list_ok s (query_p\<lparr>q_JobID := ''ci-2''\<rparr>) (\<lambda>pg. check (ids pg = [''b'']) passed))))))"

section \<open>Capture declarations\<close>

definition by_run_id :: "page \<Rightarrow> (string, run) fmap" where
  "by_run_id pg = foldl (\<lambda>m r. fmupd (RunID r) r m) fmempty (pg_Runs pg)"

text \<open>\<open>byID[id].Capture\<close>: a missing key reads the zero run.\<close>

definition capture_at :: "(string, run) fmap \<Rightarrow> string \<Rightarrow> capture_declaration option" where
  "capture_at m i = Capture (case fmlookup m i of None \<Rightarrow> zero_run | Some r \<Rightarrow> r)"

definition t_capture_roundtrip :: "'st subtest" where
  "t_capture_roundtrip s now =
     (let declared = recompute ((mk ''a'' ''p'' (now 0))\<lparr>Capture :=
            Some (capture_of ''runledger-py/0.1.0'' [''host'', ''device'', ''framework_version''])\<rparr>);
          undeclared = mk ''b'' ''p'' (now 1)
      in rec_ok s declared (rec_ok s undeclared
        (get_ok s ''a'' (\<lambda>got.
           check (case Capture got of None \<Rightarrow> False
             | Some c \<Rightarrow> Client c = ''runledger-py/0.1.0'' \<and> slice (Attempted c) = [''device'', ''framework_version'', ''host''])
        (get_ok s ''b'' (\<lambda>got'. check (Capture got' = None)
        (list_ok s query_p (\<lambda>pg.
           check (case capture_at (by_run_id pg) ''a'' of None \<Rightarrow> False | Some c \<Rightarrow> length (slice (Attempted c)) = 3)
          (check (capture_at (by_run_id pg) ''b'' = None) passed)))))))))"

definition t_capture_filter :: "'st subtest" where
  "t_capture_filter s now =
     (let a = recompute ((mk ''a'' ''p'' (now 0))\<lparr>Capture := Some (capture_of ''runledger-py/0.1.0'' [''host''])\<rparr>);
          b = recompute ((mk ''b'' ''p'' (add (now 0) (- minute_ns)))\<lparr>Capture := Some (capture_of ''rlctl/0.1.0'' [''host''])\<rparr>)
      in rec_ok s a (rec_ok s b
        (list_ok s (query_p\<lparr>q_CaptureClient := ''runledger-py/0.1.0''\<rparr>) (\<lambda>pg. check (ids pg = [''a'']) passed))))"

definition t_capture_reordered :: "'st subtest" where
  "t_capture_reordered s now =
     (let r = recompute ((mk ''a'' ''p'' (now 0))\<lparr>Capture := Some (capture_of [] [''host'', ''device'', ''framework_version''])\<rparr>)
      in rec_ok s r
        (rec_ok s (r\<lparr>Capture := Some (capture_of [] [''framework_version'', ''device'', ''host''])\<rparr>) passed))"

definition t_update_keeps_capture :: "'st subtest" where
  "t_update_keeps_capture s now =
     (let r = recompute ((mk ''a'' ''p'' (now 0))\<lparr>Status := StatusRunning,
                 Capture := Some (capture_of ''runledger-py/0.1.0'' [''host''])\<rparr>)
      in rec_ok s r
        (upd_ok s (now 1) ''a'' (empty_patch\<lparr>p_Status := Some StatusSucceeded\<rparr>) (\<lambda>got.
           check (case Capture got of None \<Rightarrow> False | Some c \<Rightarrow> Client c = ''runledger-py/0.1.0'') passed)))"

section \<open>Concurrent writers and readers\<close>

definition t_concurrent_identical :: "'st subtest" where
  "t_concurrent_identical s now st =
     (case rec_errs s (replicate 64 (mk ''a'' ''p'' (now 0))) st of
        (errs, st') \<Rightarrow> list_all (\<lambda>e. e = None) errs
          \<and> list_ok s query_p (\<lambda>pg. check (length (pg_Runs pg) = 1) passed) st')"

text \<open>
  Goroutine \<open>i\<close> reads the clock as \<open>stamp i\<close>; \<open>order\<close> is the order in which their calls take effect,
  which need not be that of the readings.
\<close>

definition conflicting_run :: "clock \<Rightarrow> nat \<Rightarrow> run" where
  "conflicting_run stamp i = recompute ((mk ''a'' ''p'' (stamp i))\<lparr>Seed := word_of_int (int i)\<rparr>)"

definition t_concurrent_conflicting :: "clock \<Rightarrow> nat list \<Rightarrow> 'st subtest" where
  "t_concurrent_conflicting stamp order s now st =
     (case rec_errs s (map (conflicting_run stamp) order) st of
        (errs, st') \<Rightarrow>
          list_all (\<lambda>e. case e of None \<Rightarrow> True | Some e \<Rightarrow> is_conflict e) errs
          \<and> length (filter (\<lambda>e. e = None) errs) = 1
          \<and> length (filter (\<lambda>e. e \<noteq> None) errs) = 64 - 1
          \<and> get_ok s ''a'' (\<lambda>got. list_ok s query_p (\<lambda>pg. check (length (pg_Runs pg) = 1) passed)) st')"

text \<open>
  A listing that writers may interrupt: what it answers when its statement \<open>k\<close> runs on \<open>sts k\<close>.
  Others record the batch \<open>bs ! k\<close> just before statement \<open>k\<close>, and all of \<open>bs\<close> before it returns.
\<close>

type_synonym 'st listing = "query \<Rightarrow> (nat \<Rightarrow> 'st) \<Rightarrow> store_error + page"

definition seen_at :: "'st store_ops \<Rightarrow> run list list \<Rightarrow> 'st \<Rightarrow> nat \<Rightarrow> 'st" where
  "seen_at s bs st k = snd (rec_errs s (concat (take (Suc k) bs)) st)"

text \<open>
  One listing of the reading goroutine, with the goroutines that write before each of its statements,
  or the write of goroutine \<open>i\<close> between two listings.
\<close>

datatype event = ReadAll "nat list list" | WriteRun nat

text \<open>The writers among the events.\<close>

fun writes :: "event list \<Rightarrow> nat list" where
  "writes [] = []"
| "writes (ReadAll wss # es) = concat wss @ writes es"
| "writes (WriteRun i # es) = i # writes es"

definition intact :: "run \<Rightarrow> bool" where
  "intact r \<longleftrightarrow> Validate r = None \<and> GitCommit r = ''c'' @ RunID r \<and> ConfigHash r = ''cfg'' \<and> Fingerprint r \<noteq> []"

definition written_run :: "clock \<Rightarrow> nat \<Rightarrow> run" where
  "written_run stamp i = mk (''run-'' @ itoa i) ''p'' (stamp i)"

fun run_events :: "'st store_ops \<Rightarrow> 'st listing \<Rightarrow> clock \<Rightarrow> event list \<Rightarrow> ('st \<Rightarrow> bool) \<Rightarrow> 'st \<Rightarrow> bool" where
  "run_events s during stamp [] k st = k st"
| "run_events s during stamp (ReadAll wss # es) k st =
     (let bs = map (map (written_run stamp)) wss
      in case during query_p (seen_at s bs st) of
           Inl e \<Rightarrow> False
         | Inr pg \<Rightarrow> list_all intact (pg_Runs pg) \<and> rec_all s (concat bs) (run_events s during stamp es k) st)"
| "run_events s during stamp (WriteRun i # es) k st = rec_ok s (written_run stamp i) (run_events s during stamp es k) st"

definition t_no_torn_reads :: "'st listing \<Rightarrow> clock \<Rightarrow> event list \<Rightarrow> 'st subtest" where
  "t_no_torn_reads during stamp es s now =
     run_events s during stamp es (list_ok s query_p (\<lambda>pg. check (length (pg_Runs pg) = 64) passed))"

section \<open>Updating\<close>

definition status_patch :: "status \<Rightarrow> patch" where
  "status_patch st = empty_patch\<lparr>p_Status := Some st\<rparr>"

definition t_update_unknown :: "'st subtest" where
  "t_update_unknown s now =
     upd_err s (now 0) ''nope'' (status_patch StatusRunning) (\<lambda>e. errors_Is e ErrNotFound) passed"

definition t_lifecycle :: "'st subtest" where
  "t_lifecycle s now =
     rec_ok s ((mk ''a'' ''p'' (now 0))\<lparr>Status := StatusCreated\<rparr>)
      (upd_ok s (now 1) ''a'' (status_patch StatusRunning) (\<lambda>got.
        check (Status got = StatusRunning)
       (upd_ok s (now 3) ''a'' ((status_patch StatusSucceeded)\<lparr>p_EndedAt := Some (now 2), p_Metrics := metrics_lit ''loss'' f0_1\<rparr>) (\<lambda>got.
        check (Status got = StatusSucceeded \<and> f64_eq (metric_at (Metrics got) ''loss'') f0_1)
       (check (case EndedAt got of None \<Rightarrow> False | Some t \<Rightarrow> Equal t (now 2))
       (get_ok s ''a'' (\<lambda>reGot.
        check (Status reGot = StatusSucceeded \<and> f64_eq (metric_at (Metrics reGot) ''loss'') f0_1) passed)))))))"

definition t_attribution_patched :: "'st subtest" where
  "t_attribution_patched s now =
     rec_ok s (recompute ((mk ''a'' ''p'' (now 0))\<lparr>Status := StatusRunning, SubmitterClaim := ''alice''\<rparr>))
      (get_ok s ''a'' (\<lambda>got. check (SubmitterClaim got = ''alice'' \<and> JobID got = [])
      (upd_ok s (now 1) ''a'' (empty_patch\<lparr>p_JobID := Some ''ci-42''\<rparr>) (\<lambda>got.
        check (JobID got = ''ci-42'' \<and> SubmitterClaim got = ''alice'')
      (get_ok s ''a'' (\<lambda>reGot. check (JobID reGot = ''ci-42'') passed))))))"

definition t_unfinished_no_end :: "'st subtest" where
  "t_unfinished_no_end s now =
     rec_ok s (recompute ((mk ''a'' ''p'' (now 0))\<lparr>Status := StatusRunning\<rparr>))
      (get_ok s ''a'' (\<lambda>got. check (EndedAt got = None) passed))"

text \<open>\<open>now 1\<close> is \<open>before\<close>, \<open>now 2\<close> the store's own reading, \<open>now 3\<close> is \<open>after\<close>.\<close>

definition t_terminal_defaults_end :: "'st subtest" where
  "t_terminal_defaults_end s now =
     rec_ok s (recompute ((mk ''a'' ''p'' (now 0))\<lparr>Status := StatusRunning\<rparr>))
      (upd_ok s (now 2) ''a'' (status_patch StatusSucceeded) (\<lambda>got.
        case EndedAt got of
          None \<Rightarrow> (\<lambda>st. False)
        | Some t \<Rightarrow>
            check (\<not> (Before t (add (now 1) (- 5 * second_ns)) \<or> After t (add (now 3) (5 * second_ns))))
           (get_ok s ''a'' (\<lambda>reGot. check (case EndedAt reGot of None \<Rightarrow> False | Some u \<Rightarrow> Equal u t) passed))))"

definition t_metrics_merge :: "'st subtest" where
  "t_metrics_merge s now =
     rec_ok s (recompute ((mk ''a'' ''p'' (now 0))\<lparr>Status := StatusRunning, Metrics := metrics_lit ''loss'' f1_0\<rparr>))
      (upd_ok s (now 1) ''a'' (empty_patch\<lparr>p_Metrics := metrics_lit ''acc'' f0_5\<rparr>) (\<lambda>got.
        check (f64_eq (metric_at (Metrics got) ''loss'') f1_0 \<and> f64_eq (metric_at (Metrics got) ''acc'') f0_5)
      (upd_ok s (now 2) ''a'' (empty_patch\<lparr>p_Metrics := metrics_lit ''loss'' f0_2\<rparr>) (\<lambda>got.
        check (f64_eq (metric_at (Metrics got) ''loss'') f0_2 \<and> f64_eq (metric_at (Metrics got) ''acc'') f0_5) passed))))"

definition t_identity_refused :: "'st subtest" where
  "t_identity_refused s now =
     (let r = (mk ''a'' ''p'' (now 0))\<lparr>Status := StatusRunning\<rparr>
      in rec_ok s r
        (upd_err s (now 1) ''a'' (empty_patch\<lparr>p_GitCommit := Some ''different-commit''\<rparr>) is_conflict
        (upd_ok s (now 2) ''a'' (empty_patch\<lparr>p_GitCommit := Some (GitCommit r), p_Status := Some (Status r)\<rparr>) (\<lambda>_. passed))))"

definition t_illegal_transition :: "'st subtest" where
  "t_illegal_transition s now =
     rec_ok s ((mk ''a'' ''p'' (now 0))\<lparr>Status := StatusCreated\<rparr>)
      (upd_err s (now 1) ''a'' (status_patch StatusSucceeded) is_conflict passed)"

definition t_terminal_frozen :: "'st subtest" where
  "t_terminal_frozen s now =
     rec_ok s (mk ''a'' ''p'' (now 0))
      (upd_err s (now 1) ''a'' (empty_patch\<lparr>p_CheckpointURI := Some ''s3://bucket/ckpt''\<rparr>) is_conflict
      (upd_err s (now 2) ''a'' (status_patch StatusCancelled) is_conflict passed))"

definition running_with_loss :: "clock \<Rightarrow> run" where
  "running_with_loss now = recompute ((mk ''a'' ''p'' (now 0))\<lparr>Status := StatusRunning, Metrics := metrics_lit ''loss'' f0_4\<rparr>)"

definition finish_with_loss :: patch where
  "finish_with_loss = (status_patch StatusSucceeded)\<lparr>p_Metrics := metrics_lit ''loss'' f0_4\<rparr>"

definition t_terminal_retry :: "'st subtest" where
  "t_terminal_retry s now =
     rec_ok s (running_with_loss now)
      (upd_ok s (now 1) ''a'' finish_with_loss (\<lambda>first.
       upd_ok s (now 2) ''a'' finish_with_loss (\<lambda>second.
         check (Status second = StatusSucceeded \<and> f64_eq (metric_at (Metrics second) ''loss'') f0_4)
        (check (case (EndedAt second, EndedAt first) of (Some t, Some u) \<Rightarrow> Equal t u | _ \<Rightarrow> False) passed))))"

definition t_terminal_other_metric :: "'st subtest" where
  "t_terminal_other_metric s now =
     rec_ok s (running_with_loss now)
      (upd_ok s (now 1) ''a'' finish_with_loss (\<lambda>_.
       upd_err s (now 2) ''a'' (empty_patch\<lparr>p_Metrics := metrics_lit ''loss'' f0_9\<rparr>) is_conflict passed))"

definition t_terminal_new_metric :: "'st subtest" where
  "t_terminal_new_metric s now =
     rec_ok s (running_with_loss now)
      (upd_ok s (now 1) ''a'' finish_with_loss (\<lambda>_.
       upd_err s (now 2) ''a'' (empty_patch\<lparr>p_Metrics := metrics_lit ''accuracy'' f0_9\<rparr>) is_conflict passed))"

definition t_unknown_status :: "'st subtest" where
  "t_unknown_status s now =
     rec_ok s ((mk ''a'' ''p'' (now 0))\<lparr>Status := StatusCreated\<rparr>)
      (upd_err s (now 1) ''a'' (status_patch ''bogus'') (\<lambda>e. \<not> is_conflict e) passed)"

section \<open>Paging\<close>

definition old_and_new :: "clock \<Rightarrow> run list" where
  "old_and_new now = [mk ''old'' ''p'' (add (now 0) (- hour_ns)), mk ''new'' ''p'' (now 0)]"

definition t_limit_cursor :: "'st subtest" where
  "t_limit_cursor s now =
     rec_each s (old_and_new now)
      (list_ok s (query_p\<lparr>q_Limit := 1\<rparr>) (\<lambda>pg.
        check (ids pg = [''new'']) (check (pg_Next pg \<noteq> None)
       (list_ok s (query_p\<lparr>q_Limit := 1, q_After := pg_Next pg\<rparr>) (\<lambda>nxt.
        check (ids nxt = [''old'']) (check (pg_Next nxt = None) passed))))))"

definition t_exact_page :: "'st subtest" where
  "t_exact_page s now =
     rec_each s (old_and_new now)
      (list_ok s (query_p\<lparr>q_Limit := 2\<rparr>) (\<lambda>pg. check (length (pg_Runs pg) = 2) (check (pg_Next pg = None) passed)))"

definition t_since_until :: "'st subtest" where
  "t_since_until s now =
     rec_each s [mk ''before'' ''p'' (add base_2024 (- hour_ns)), mk ''at-since'' ''p'' base_2024,
         mk ''mid'' ''p'' (add base_2024 hour_ns), mk ''at-until'' ''p'' (add base_2024 (2 * hour_ns)),
         mk ''after'' ''p'' (add base_2024 (3 * hour_ns))]
      (list_ok s (query_p\<lparr>q_Since := base_2024, q_Until := add base_2024 (2 * hour_ns)\<rparr>) (\<lambda>pg.
        check (ids pg = [''mid'', ''at-since'']) passed))"

definition t_since_until_filters :: "'st subtest" where
  "t_since_until_filters s now =
     rec_each s [mk ''alpha-in'' ''alpha'' base_2024, mk ''beta-in'' ''beta'' base_2024,
         mk ''alpha-out'' ''alpha'' (add base_2024 (- hour_ns))]
      (list_ok s (empty_query\<lparr>q_Project := ''alpha'', q_Since := base_2024, q_Until := add base_2024 hour_ns\<rparr>) (\<lambda>pg.
        check (ids pg = [''alpha-in'']) passed))"

text \<open>The loop that follows the cursor is \<open>traverse\<close>; six rounds are more than the five rows can take.\<close>

definition window_query :: query where
  "window_query = query_p\<lparr>q_Since := base_2024, q_Until := add base_2024 (5 * minute_ns), q_Limit := 2\<rparr>"

definition t_window_paging :: "'st subtest" where
  "t_window_paging s now =
     rec_each s (map (\<lambda>i. mk (''run-'' @ itoa i) ''p'' (add base_2024 (int i * minute_ns))) [0..<5]
         @ [mk ''too-early'' ''p'' (add base_2024 (- hour_ns)), mk ''too-late'' ''p'' (add base_2024 hour_ns)])
      (\<lambda>st. case traverse (\<lambda>q. so_List s q st) 6 window_query of
          None \<Rightarrow> False
        | Some pages \<Rightarrow> map RunID (concat pages) = [''run-4'', ''run-3'', ''run-2'', ''run-1'', ''run-0''])"

text \<open>
  The last subtest pages through the store while another goroutine inserts rows. Each element of
  the list is what the writer inserts during one fetch, a batch before each of its statements; the
  traversal must end before the list does.
\<close>

fun traverse_under ::
    "'st store_ops \<Rightarrow> 'st listing \<Rightarrow> run list list list \<Rightarrow> query \<Rightarrow> 'st \<Rightarrow> run list list option" where
  "traverse_under s during [] q st = None"
| "traverse_under s during (bs # fs) q st =
     (case during q (seen_at s bs st) of
        Inl e \<Rightarrow> None
      | Inr pg \<Rightarrow>
          (case pg_Next pg of
             None \<Rightarrow> Some [pg_Runs pg]
           | Some c \<Rightarrow> map_option ((#) (pg_Runs pg))
               (traverse_under s during fs (q\<lparr>q_After := Some c\<rparr>) (snd (rec_errs s (concat bs) st)))))"

definition pre_existing :: "clock \<Rightarrow> nat \<Rightarrow> run" where
  "pre_existing now i = mk (''pre-'' @ pad0 3 (itoa i)) ''p'' (add (now 0) (- (int (i div 2)) * second_ns))"

definition inserted :: "clock \<Rightarrow> nat \<Rightarrow> run" where
  "inserted now i = mk (''concurrent-'' @ pad0 4 (itoa i)) ''p'' (add (now (Suc i)) (int i * millisecond_ns))"

text \<open>\<open>n\<close> rows before the first statement, and so on; the writer numbers its rows throughout.\<close>

fun batches :: "clock \<Rightarrow> nat \<Rightarrow> nat list \<Rightarrow> run list list" where
  "batches now k [] = []"
| "batches now k (n # ns) = map (inserted now) [k..<k + n] # batches now (k + n) ns"

fun fetches :: "clock \<Rightarrow> nat \<Rightarrow> nat list list \<Rightarrow> run list list list" where
  "fetches now k [] = []"
| "fetches now k (ns # nss) = batches now k ns # fetches now (k + sum_list ns) nss"

definition t_paging_under_inserts :: "'st listing \<Rightarrow> nat list list \<Rightarrow> 'st subtest" where
  "t_paging_under_inserts during nss s now =
     rec_all s (map (pre_existing now) [0..<40])
      (\<lambda>st. case traverse_under s during (fetches now 0 nss) (query_p\<lparr>q_Limit := 7\<rparr>) st of
          None \<Rightarrow> False
        | Some pages \<Rightarrow>
            (let seen = map RunID (concat pages)
             in list_all (\<lambda>i. count_list seen (RunID (pre_existing now i)) = 1) [0..<40]
                \<and> list_all (\<lambda>i. count_list seen i \<le> 1) seen))"

section \<open>The suite\<close>

record schedule =
  sc_stamp :: clock
  sc_conflicting :: "nat list"
  sc_events :: "event list"
  sc_inserts :: "nat list list"

definition subtests :: "'st listing \<Rightarrow> schedule \<Rightarrow> 'st subtest list" where
  "subtests during sc =
     [t_get_unknown, t_record_twice, t_record_conflict, t_record_invalid, t_newest_first, t_project_filter,
      t_attribution_filter, t_capture_roundtrip, t_capture_filter, t_capture_reordered, t_update_keeps_capture,
      t_concurrent_identical, t_concurrent_conflicting (sc_stamp sc) (sc_conflicting sc),
      t_no_torn_reads during (sc_stamp sc) (sc_events sc),
      t_update_unknown, t_lifecycle, t_attribution_patched, t_unfinished_no_end, t_terminal_defaults_end,
      t_metrics_merge, t_identity_refused, t_illegal_transition, t_terminal_frozen, t_terminal_retry,
      t_terminal_other_metric, t_terminal_new_metric, t_unknown_status, t_limit_cursor, t_exact_page,
      t_since_until, t_since_until_filters, t_window_paging, t_paging_under_inserts during (sc_inserts sc)]"

text \<open>Every subtest takes a store of its own from \<open>newStore\<close>; subtest \<open>j\<close> runs under the clock \<open>cl j\<close>.\<close>

definition RunConformance ::
    "'st store_ops \<Rightarrow> 'st listing \<Rightarrow> schedule \<Rightarrow> (nat \<Rightarrow> clock) \<Rightarrow> (nat \<Rightarrow> 'st) \<Rightarrow> bool" where
  "RunConformance s during sc cl newStore =
     list_all (\<lambda>(j, t). t s (cl j) (newStore j)) (enumerate 0 (subtests during sc))"

lemma float_constants:
  "ParseFloat ''0.1'' = Some (f0_1, False)" "ParseFloat ''0.2'' = Some (f0_2, False)"
  "ParseFloat ''0.4'' = Some (f0_4, False)" "ParseFloat ''0.5'' = Some (f0_5, False)"
  "ParseFloat ''0.9'' = Some (f0_9, False)" "ParseFloat ''1.0'' = Some (f1_0, False)"
  by code_simp+

end
