(* ===== verification/Conformance_Rules.thy ===== *)
theory Conformance_Rules
  imports Conformance Patch_Rules
begin

text \<open>
  Why a backend passes the suite. A store is compared with a reference model, a plain map from
  run ids to the runs as the test wrote them; \<open>conforming_store\<close> extends the contract \<open>run_store\<close>
  by what the suite looks at beyond it: that the form in which a run comes back reads like the run.
\<close>

section \<open>Runs that read the same\<close>

text \<open>
  \<open>face\<close> forgets what no check of the suite can see: the location of an instant, nil against empty.
  Metric values are compared apart, up to the sign of a zero.
\<close>

definition face_time :: "time \<Rightarrow> time" where
  "face_time t = t\<lparr>t_loc := UTC\<rparr>"

definition face :: "run \<Rightarrow> run" where
  "face r =
     r\<lparr>StartedAt := face_time (StartedAt r), EndedAt := map_option face_time (EndedAt r),
       Params := Some (fm (Params r)), Metrics := None,
       Capture := map_option (\<lambda>c. c\<lparr>Attempted := Some (slice (Attempted c))\<rparr>) (Capture r)\<rparr>"

definition indistinct :: "run \<Rightarrow> run \<Rightarrow> bool" where
  "indistinct r x \<longleftrightarrow> face x = face r \<and> (\<forall>k. rel_option same_value (map_get (Metrics r) k) (map_get (Metrics x) k))"

lemma face_time_eq: "face_time s = face_time t \<longleftrightarrow> t_ns s = t_ns t"
  by (cases s; cases t) (simp add: face_time_def)

lemma face_time_ns [simp]: "t_ns (face_time t) = t_ns t"
  by (simp add: face_time_def)

lemma face_eq:
  "face x = face r \<longleftrightarrow>
     Project x = Project r \<and> GitCommit x = GitCommit r \<and> GitDirty x = GitDirty r \<and> ConfigHash x = ConfigHash r
     \<and> DatasetVersion x = DatasetVersion r \<and> ModelVersion x = ModelVersion r \<and> Seed x = Seed r
     \<and> fm (Params x) = fm (Params r) \<and> RunID x = RunID r \<and> Fingerprint x = Fingerprint r
     \<and> FingerprintVersion x = FingerprintVersion r \<and> Host x = Host r \<and> Device x = Device r
     \<and> FrameworkVersion x = FrameworkVersion r \<and> SubmitterClaim x = SubmitterClaim r \<and> JobID x = JobID r
     \<and> Status x = Status r \<and> t_ns (StartedAt x) = t_ns (StartedAt r)
     \<and> map_option t_ns (EndedAt x) = map_option t_ns (EndedAt r) \<and> CheckpointURI x = CheckpointURI r
     \<and> map_option (\<lambda>c. (Client c, slice (Attempted c))) (Capture x) = map_option (\<lambda>c. (Client c, slice (Attempted c))) (Capture r)"
proof -
  have e1: "map_option face_time a = map_option face_time b \<longleftrightarrow> map_option t_ns a = map_option t_ns b" for a b
    by (cases a; cases b) (simp_all add: face_time_eq)
  have e2: "map_option (\<lambda>c. c\<lparr>Attempted := Some (slice (Attempted c))\<rparr>) a = map_option (\<lambda>c. c\<lparr>Attempted := Some (slice (Attempted c))\<rparr>) b
      \<longleftrightarrow> map_option (\<lambda>c. (Client c, slice (Attempted c))) a = map_option (\<lambda>c. (Client c, slice (Attempted c))) b"
    for a b :: "capture_declaration option"
  proof -
    have "c\<lparr>Attempted := Some u\<rparr> = d\<lparr>Attempted := Some v\<rparr> \<longleftrightarrow> Client c = Client d \<and> u = v" for c d :: capture_declaration and u v
      by (cases c; cases d) simp
    then show ?thesis by (cases a; cases b) simp_all
  qed
  show ?thesis by (cases x; cases r) (simp add: face_def face_time_eq e1 e2)
qed

lemma face_refl_metrics: "rel_option same_value m m"
  by (cases m) (simp_all add: same_value_def)

lemma indistinct_refl [simp]: "indistinct r r"
  by (simp add: indistinct_def face_refl_metrics)

lemma indistinct_trans: "indistinct r s \<Longrightarrow> indistinct s u \<Longrightarrow> indistinct r u"
  unfolding indistinct_def by (auto intro: option.rel_transp [unfolded transp_def, rule_format] same_value_trans)

lemma indistinct_face: "indistinct r x \<Longrightarrow> face x = face r"
  by (simp add: indistinct_def)

lemmas indistinct_fields = indistinct_face [unfolded face_eq]

lemma Capture_face:
  assumes "face x = face r"
  shows "Capture r = None \<Longrightarrow> Capture x = None"
    and "Capture r = Some c \<Longrightarrow> \<exists>d. Capture x = Some d \<and> Client d = Client c \<and> slice (Attempted d) = slice (Attempted c)"
  using assms by (cases "Capture x"; auto simp: face_eq)+

lemma EndedAt_face:
  assumes "face x = face r"
  shows "EndedAt x = None \<longleftrightarrow> EndedAt r = None"
    and "EndedAt x = Some t \<Longrightarrow> \<exists>u. EndedAt r = Some u \<and> t_ns u = t_ns t"
  using assms by (cases "EndedAt x"; cases "EndedAt r"; auto simp: face_eq)+

lemma face_capture_cong:
  assumes "face x = face r" "\<And>A. P A \<longleftrightarrow> Q A"
  shows "(\<forall>c. Capture x = Some c \<longrightarrow> P (slice (Attempted c))) \<longleftrightarrow> (\<forall>c. Capture r = Some c \<longrightarrow> Q (slice (Attempted c)))"
  using assms(1) Capture_face [OF assms(1)] by (cases "Capture x"; cases "Capture r") (auto simp: face_eq assms(2))

lemma Validate_face:
  assumes "face x = face r"
  shows "Validate x = Validate r"
proof -
  have "(case EndedAt x of None \<Rightarrow> False | Some t \<Rightarrow> Before t (StartedAt x)) = (case EndedAt r of None \<Rightarrow> False | Some t \<Rightarrow> Before t (StartedAt r))"
    using assms by (cases "EndedAt x"; cases "EndedAt r") (auto simp: face_eq Before_def)
  moreover have "(case Capture x of None \<Rightarrow> None | Some c \<Rightarrow> map_option UnknownCaptureField (List.find (\<lambda>f. \<not> captureFieldSet f) (slice (Attempted c)))) =
      (case Capture r of None \<Rightarrow> None | Some c \<Rightarrow> map_option UnknownCaptureField (List.find (\<lambda>f. \<not> captureFieldSet f) (slice (Attempted c))))"
    using assms by (cases "Capture x"; cases "Capture r") (auto simp: face_eq)
  ultimately show ?thesis using assms unfolding Validate_def by (simp add: face_eq)
qed

lemma face_NormalizeCapture:
  "face (NormalizeCapture r) = (face r)\<lparr>Capture := map_option (\<lambda>c. c\<lparr>Attempted := Some (sort (slice (Attempted c)))\<rparr>) (Capture r)\<rparr>"
proof -
  have "sort xs = xs" if "length xs < 2" for xs :: "string list"
    using that by (cases xs; cases "tl xs") auto
  then show ?thesis by (cases "Capture r") (auto simp: NormalizeCapture_def face_def norm_params_def)
qed

lemma face_NormalizeCapture_cong:
  assumes "face x = face r"
  shows "face (NormalizeCapture x) = face (NormalizeCapture r)"
proof -
  have "map_option (\<lambda>c. c\<lparr>Attempted := Some (sort (slice (Attempted c)))\<rparr>) (Capture x) =
      map_option (\<lambda>c. c\<lparr>Attempted := Some (sort (slice (Attempted c)))\<rparr>) (Capture r)"
    using assms by (cases "Capture x"; cases "Capture r") (auto simp: face_eq)
  then show ?thesis using assms by (simp add: face_NormalizeCapture)
qed

section \<open>Queries and patches see the face only\<close>

lemma query_match_face:
  assumes "face x = face r"
  shows "query_match q x = query_match q r"
proof -
  have "(case Capture x of None \<Rightarrow> True | Some c \<Rightarrow> Client c \<noteq> q_CaptureClient q) = (case Capture r of None \<Rightarrow> True | Some c \<Rightarrow> Client c \<noteq> q_CaptureClient q)"
    using assms by (cases "Capture x"; cases "Capture r") (auto simp: face_eq)
  then show ?thesis using assms unfolding query_match_def by (simp only: face_eq time_defs)
qed

lemma list_key_face: "face x = face r \<Longrightarrow> list_key x = list_key r"
  by (simp add: face_eq list_key_def)

lemma after_ok_face: "face x = face r \<Longrightarrow> after_ok q x = after_ok q r"
  by (drule list_key_face, cases "q_After q") (simp_all add: after_ok_def isAfterCursor_key)

lemma map_get_face: "fm m = fm n \<Longrightarrow> map_get m k = map_get n k"
  by (simp add: map_get_fm)

lemma paramsEqual_fm: "fm m = fm n \<Longrightarrow> paramsEqual a m = paramsEqual a n"
  by (simp add: paramsEqual_def map_len_card map_index_def map_get_fm)

lemma f64_eq_same_value: "same_value v w \<Longrightarrow> f64_eq v z \<longleftrightarrow> f64_eq w z"
  by (auto simp: same_value_def f64_eq_def)

lemma isNoopPatch_indistinct:
  assumes "indistinct r x"
  shows "isNoopPatch x p = isNoopPatch r p"
proof -
  note f = assms [unfolded indistinct_def face_eq]
  have "(case p_EndedAt p of None \<Rightarrow> False | Some t \<Rightarrow> (case EndedAt x of None \<Rightarrow> True | Some u \<Rightarrow> \<not> Equal t u)) =
      (case p_EndedAt p of None \<Rightarrow> False | Some t \<Rightarrow> (case EndedAt r of None \<Rightarrow> True | Some u \<Rightarrow> \<not> Equal t u))"
    using f by (cases "EndedAt x"; cases "EndedAt r"; cases "p_EndedAt p") (auto simp: Equal_def)
  moreover have "(case (map_get (p_Metrics p) k, map_get (Metrics x) k) of (Some v, Some stored) \<Rightarrow> f64_eq stored v | _ \<Rightarrow> False) =
      (case (map_get (p_Metrics p) k, map_get (Metrics r) k) of (Some v, Some stored) \<Rightarrow> f64_eq stored v | _ \<Rightarrow> False)" for k
  proof -
    have "rel_option same_value (map_get (Metrics r) k) (map_get (Metrics x) k)" using f by blast
    then show ?thesis
      by (cases "map_get (Metrics r) k"; cases "map_get (Metrics x) k") (auto dest: f64_eq_same_value split: option.splits)
  qed
  ultimately show ?thesis using f unfolding isNoopPatch_def by simp
qed

lemma patch_fields_indistinct:
  assumes "indistinct r x"
  shows "indistinct (patch_fields now r p s) (patch_fields now x p s)"
proof -
  note f = assms [unfolded indistinct_def face_eq]
  have "map_option t_ns (EndedAt (patch_fields now x p s)) = map_option t_ns (EndedAt (patch_fields now r p s))"
    using f by (cases "EndedAt x"; cases "EndedAt r"; cases "p_EndedAt p") (simp_all add: patch_fields_def Let_def)
  moreover have "rel_option same_value (map_get (Metrics (patch_fields now r p s)) k) (map_get (Metrics (patch_fields now x p s)) k)" for k
    using f by (cases "map_get (p_Metrics p) k") (simp_all add: patch_fields_get_metric same_value_def)
  ultimately show ?thesis
    using f unfolding indistinct_def face_eq by (simp, simp add: patch_fields_def Let_def)
qed

text \<open>A patch does to the stored run what it does to the reference run, errors included.\<close>

lemma applyPatch_indistinct:
  assumes "indistinct r x"
  shows "applyPatch now r p = Inl e \<Longrightarrow> applyPatch now x p = Inl e"
    and "applyPatch now r p = Inr u \<Longrightarrow> \<exists>v. applyPatch now x p = Inr v \<and> indistinct u v"
proof -
  note f = indistinct_fields [OF assms]
  have ident: "checkIdentityUnchanged x p = checkIdentityUnchanged r p"
    using f by (simp add: checkIdentityUnchanged_def paramsEqual_fm [of "Params x" "Params r"])
  have pf: "indistinct (patch_fields now r p s) (patch_fields now x p s)" for s by (rule patch_fields_indistinct [OF assms])
  note rules = ident isNoopPatch_indistinct [OF assms] f Validate_face [OF indistinct_face [OF pf]]
  have app: "applyPatch now x p = (case applyPatch now r p of Inl e \<Rightarrow> Inl e
      | Inr u \<Rightarrow> Inr (if Terminal (Status r) then x else patch_fields now x p (set_if (p_Status p) (Status r))))"
    by (cases "checkIdentityUnchanged r p"; cases "p_Status p"; simp add: applyPatch_def rules Let_def split: option.split)
  show "applyPatch now r p = Inl e \<Longrightarrow> applyPatch now x p = Inl e" by (simp add: app)
  show "\<exists>v. applyPatch now x p = Inr v \<and> indistinct u v" if "applyPatch now r p = Inr u"
    using that assms pf by (cases rule: applyPatch_cases [OF that]) (simp_all add: app)
qed

section \<open>What the suite asks of a backend\<close>

definition exact_run :: "run \<Rightarrow> bool" where
  "exact_run r \<longleftrightarrow> in_int64 (StartedAt r) \<and> pred_option in_int64 (EndedAt r)
     \<and> FingerprintVersion r = CurrentFingerprintVersion
     \<and> pred_option (\<lambda>c. distinct (slice (Attempted c))) (Capture r)"

text \<open>No empty map or slice that is not nil, and no NaN: such a run is equal to itself after a round trip.\<close>

definition retryable :: "run \<Rightarrow> bool" where
  "retryable r \<longleftrightarrow> Params r \<noteq> Some fmempty \<and> Metrics r \<noteq> Some fmempty \<and> no_nan (Metrics r)
     \<and> pred_option (\<lambda>c. Attempted c \<noteq> Some []) (Capture r)"

definition exact_query :: "query \<Rightarrow> bool" where
  "exact_query q \<longleftrightarrow> (IsZero (q_Since q) \<or> in_int64 (q_Since q)) \<and> (IsZero (q_Until q) \<or> in_int64 (q_Until q))
     \<and> pred_option (\<lambda>c. in_int64 (c_StartedAt c)) (q_After q) \<and> q_Limit q < 2 ^ 63 - 1"

lemma in_int64_ns: "t_ns s = t_ns t \<Longrightarrow> in_int64 s = in_int64 t"
  by (simp add: in_int64_def)

lemma exact_run_face:
  assumes "face x = face r"
  shows "exact_run x = exact_run r"
proof -
  have "pred_option in_int64 (EndedAt x) = pred_option in_int64 (EndedAt r)"
    using assms by (cases "EndedAt x"; cases "EndedAt r") (auto simp: face_eq intro: in_int64_ns dest: in_int64_ns)
  moreover have "pred_option (\<lambda>c. distinct (slice (Attempted c))) (Capture x) = pred_option (\<lambda>c. distinct (slice (Attempted c))) (Capture r)"
    using assms by (cases "Capture x"; cases "Capture r") (auto simp: face_eq)
  moreover have "in_int64 (StartedAt x) = in_int64 (StartedAt r)" using assms by (simp add: face_eq in_int64_def)
  ultimately show ?thesis using assms by (simp add: exact_run_def face_eq)
qed

lemma exact_run_NormalizeCapture [simp]: "exact_run (NormalizeCapture r) = exact_run r"
  by (cases "Capture r") (auto simp: exact_run_def NormalizeCapture_def)

section \<open>The reference model\<close>

text \<open>An entry of the reference model: the run as written, in normal form.\<close>

definition entry :: "string \<Rightarrow> run \<Rightarrow> bool" where
  "entry i r \<longleftrightarrow> RunID r = i \<and> exact_run r \<and> Validate r = None \<and> NormalizeCapture r = r"

text \<open>
  A store whose listings may be interrupted by others that record: nothing stored is lost or
  changed by them, and then a listing answers as its first statement saw the store.
\<close>

locale spanning_store = run_store +
  fixes during :: "'a listing"
  assumes during_law: "(\<And>k. inv (sts k) \<and> content (sts 0) \<subseteq>\<^sub>m content (sts k)) \<Longrightarrow> listable q \<Longrightarrow>
      \<exists>xs. is_listing q (content (sts 0)) xs \<and> during q sts = Inr (paginate xs (q_Limit q))"

locale conforming_store = spanning_store +
  assumes exact_storable: "exact_run r \<Longrightarrow> storable r"
    and canon_reads: "exact_run r \<Longrightarrow> indistinct (NormalizeCapture r) (canon r)"
    and canon_retry: "exact_run r \<Longrightarrow> retryable r \<Longrightarrow> NormalizeCapture r' = NormalizeCapture r \<Longrightarrow> same (canon r) r'"
    and same_content: "same x r \<Longrightarrow> Status x = Status r \<and> Seed x = Seed r"
    and exact_listable: "exact_query q \<Longrightarrow> listable q"
    and eqv_reads: "eqv r s \<Longrightarrow> indistinct r s"
begin

abbreviation ops where
  "ops \<equiv> \<lparr>so_Record = Record, so_Update = Update, so_Get = Get, so_List = ListRuns\<rparr>"

definition models :: "'a \<Rightarrow> (string \<Rightarrow> run option) \<Rightarrow> bool" where
  "models st A \<longleftrightarrow> inv st \<and> (\<forall>i. rel_option indistinct (A i) (content st i)) \<and> (\<forall>i r. A i = Some r \<longrightarrow> entry i r)"

lemma models_inv: "models st A \<Longrightarrow> inv st"
  by (simp add: models_def)

lemma models_None: "models st A \<Longrightarrow> A i = None \<longleftrightarrow> content st i = None"
  by (metis models_def option.rel_distinct(1) option.rel_distinct(2) option.exhaust)

lemma models_Some:
  assumes "models st A" "A i = Some r"
  shows "\<exists>x. content st i = Some x \<and> indistinct r x" "entry i r"
proof -
  have "rel_option indistinct (Some r) (content st i)" using assms unfolding models_def by metis
  then show "\<exists>x. content st i = Some x \<and> indistinct r x" by (cases "content st i") auto
  show "entry i r" using assms by (simp add: models_def)
qed

lemma models_upd:
  assumes "models st A" "inv st'" "content st' = (content st)(i \<mapsto> x)" "indistinct r x" "entry i r"
  shows "models st' (A(i \<mapsto> r))"
  using assms by (auto simp: models_def)

lemma rec_ok_rule:
  assumes "models st A" "exact_run r" "Validate r = None" "A (RunID r) = None"
    and k: "\<And>st'. models st' (A(RunID r \<mapsto> NormalizeCapture r)) \<Longrightarrow> content st' (RunID r) = Some (canon r) \<Longrightarrow> k st'"
  shows "rec_ok ops r k st"
proof -
  have "content st (RunID r) = None" using models_None [OF assms(1)] assms(4) by simp
  then obtain st' where st': "Record r st = (None, st')" "inv st'" "content st' = (content st)(RunID r \<mapsto> canon r)"
    using record_fresh models_inv [OF assms(1)] assms(2,3) exact_storable by blast
  have "models st' (A(RunID r \<mapsto> NormalizeCapture r))"
    using models_upd [OF assms(1) st'(2,3) canon_reads [OF assms(2)]] assms(2,3) by (simp add: entry_def)
  with st' k show ?thesis by (simp add: rec_ok_def)
qed

lemma rec_any_rule:
  assumes "models st A" "exact_run r" "Validate r = None" "A (RunID r) = None"
    and k: "\<And>st'. models st' (A(RunID r \<mapsto> NormalizeCapture r)) \<Longrightarrow> k st'"
  shows "rec_any ops r k st"
  using rec_ok_rule [OF assms(1-4), of k] k
  by (auto simp: rec_ok_def rec_any_def split: prod.splits option.splits)

lemma rec_retry_rule:
  assumes "models st A" "content st (RunID r') = Some (canon r)" "exact_run r" "retryable r"
    and "NormalizeCapture r' = NormalizeCapture r" "Validate r = None" "k st"
  shows "rec_ok ops r' k st"
proof -
  have "Validate r' = None" using assms(5,6) Validate_NormalizeCapture by metis
  then show ?thesis using record_known [OF models_inv [OF assms(1)] _ assms(2)] canon_retry [OF assms(3-5)] assms(7)
    by (simp add: rec_ok_def)
qed

lemma record_conflicts:
  assumes "models st A" "A (RunID r) = Some r0" "Status r0 \<noteq> Status r \<or> Seed r0 \<noteq> Seed r" "Validate r = None"
  shows "Record r st = (Some ErrConflict, st)"
proof -
  obtain x where x: "content st (RunID r) = Some x" "indistinct r0 x" using models_Some [OF assms(1,2)] by blast
  then have "\<not> same x r" using same_content [of x r] assms(3) indistinct_fields [OF x(2)] by metis
  then show ?thesis using record_known [OF models_inv [OF assms(1)] assms(4) x(1)] by simp
qed

lemma rec_conflict_rule:
  assumes "models st A" "A (RunID r) = Some r0" "Status r0 \<noteq> Status r \<or> Seed r0 \<noteq> Seed r" "Validate r = None" "k st"
  shows "rec_err ops r (\<lambda>e. is_conflict e) k st"
  using record_conflicts [OF assms(1-4)] assms(5) by (simp add: rec_err_def errors_Is_def)

lemma rec_invalid_rule:
  assumes "models st A" "Validate r = Some v" "k st" "P (Invalid v)"
  shows "rec_err ops r P k st"
  using record_invalid [OF models_inv [OF assms(1)] assms(2)] assms(3,4) by (simp add: rec_err_def)

lemma get_ok_rule:
  assumes "models st A" "A i = Some r" "\<And>x. indistinct r x \<Longrightarrow> k x st"
  shows "get_ok ops i k st"
  using models_Some(1) [OF assms(1,2)] assms(3) get_law [OF models_inv [OF assms(1)], of i] by (auto simp: get_ok_def)

lemma get_err_rule:
  assumes "models st A" "A i = None" "P ErrNotFound" "k st"
  shows "get_err ops i P k st"
  using models_None [OF assms(1), of i] assms(2-) get_law [OF models_inv [OF assms(1)], of i] by (simp add: get_err_def)

lemma upd_ok_rule:
  assumes "models st A" "A i = Some r" "applyPatch now r p = Inr u" "exact_run u"
    and k: "\<And>v st'. indistinct u v \<Longrightarrow> models st' (A(i \<mapsto> u)) \<Longrightarrow> k v st'"
  shows "upd_ok ops now i p k st"
proof -
  obtain x where x: "content st i = Some x" "indistinct r x" using models_Some [OF assms(1,2)] by blast
  obtain v where v: "applyPatch now x p = Inr v" "indistinct u v" using applyPatch_indistinct(2) [OF x(2) assms(3)] by blast
  obtain st' y where st': "Update now i p st = (Inr v, st')" "inv st'" "content st' = (content st)(i \<mapsto> y)" "eqv (canon v) y"
    using update_ok [OF models_inv [OF assms(1)] x(1) v(1)] by blast
  have r: "entry i r" using models_Some(2) [OF assms(1,2)] .
  have norm: "NormalizeCapture u = u"
    using r by (intro NormalizeCapture_cong [OF applyPatch_frame(2) [OF assms(3)]]) (simp add: entry_def)
  have u: "entry i u"
    using r assms(4) norm applyPatch_frame(1) [OF assms(3)] applyPatch_valid [OF assms(3)] unfolding entry_def by metis
  have "exact_run v" using assms(4) exact_run_face [OF indistinct_face [OF v(2)]] by simp
  moreover have "indistinct u (NormalizeCapture v)"
    using v(2) face_NormalizeCapture_cong [OF indistinct_face [OF v(2)]] unfolding norm by (simp add: indistinct_def)
  ultimately have "indistinct u y" using canon_reads [of v] eqv_reads [OF st'(4)] indistinct_trans by blast
  then have "models st' (A(i \<mapsto> u))" by (rule models_upd [OF assms(1) st'(2,3) _ u])
  then show ?thesis using k [OF v(2)] st'(1) by (simp add: upd_ok_def)
qed

lemma upd_err_rule:
  assumes "models st A" "A i = Some r" "applyPatch now r p = Inl e" "P e" "k st"
  shows "upd_err ops now i p P k st"
proof -
  obtain x where x: "content st i = Some x" "indistinct r x" using models_Some [OF assms(1,2)] by blast
  have "Update now i p st = (Inl e, st)"
    using update_error [OF models_inv [OF assms(1)] x(1) applyPatch_indistinct(1) [OF x(2) assms(3)]] .
  then show ?thesis using assms(4,5) by (simp add: upd_err_def)
qed

lemma upd_missing_rule:
  assumes "models st A" "A i = None" "P ErrNotFound" "k st"
  shows "upd_err ops now i p P k st"
  using update_missing [OF models_inv [OF assms(1)]] models_None [OF assms(1)] assms(2-) by (simp add: upd_err_def)

end

end
