(* ===== verification/Conformance_Paging.thy ===== *)
theory Conformance_Paging
  imports Conformance_Rules
begin

text \<open>
  Listings and paging for the suite: what a listing returns in terms of the reference model, and
  what a traversal visits while others record, before, between and behind its fetches.
\<close>

section \<open>Records by others\<close>

lemma traverse_under_Cons:
  "traverse_under s during (bs # fs) q st =
     (case during q (seen_at s bs st) of
        Inl e \<Rightarrow> None
      | Inr pg \<Rightarrow>
          (case pg_Next pg of
             None \<Rightarrow> Some [pg_Runs pg]
           | Some c \<Rightarrow> map_option ((#) (pg_Runs pg))
               (traverse_under s during fs (q\<lparr>q_After := Some c\<rparr>) (snd (rec_errs s (concat bs) st)))))"
  by simp

declare traverse_under.simps(2) [simp del]

lemma list_all2_last: "list_all2 P xs ys \<Longrightarrow> xs \<noteq> [] \<Longrightarrow> P (last xs) (last ys)"
  by (induction rule: list_all2_induct) auto

lemma last_take_in:
  assumes "0 < k" "k < length xs"
  shows "last (take k xs) \<in> set xs"
proof -
  have "take k xs \<noteq> []" using assms by auto
  then show ?thesis using last_in_set in_set_takeD by fast
qed

lemma map_le_ran: "A \<subseteq>\<^sub>m B \<Longrightarrow> ran A \<subseteq> ran B"
  by (force simp: map_le_def ran_def dom_def)

lemma sorted_take_drop_last:
  assumes "sorted_wrt list_less xs" "0 < k" "k < length xs" "sorted_wrt list_less ys"
    and "\<And>y. y \<in> set ys \<Longrightarrow> list_less (last (take k xs)) y"
  shows "sorted_wrt list_less (take k xs @ ys)"
proof -
  let ?t = "take k xs"
  have ne: "?t \<noteq> []" using assms(2,3) by auto
  have t: "sorted_wrt list_less ?t" using assms(1) by (simp add: sorted_wrt_take)
  then have "sorted_wrt list_less (butlast ?t @ [last ?t])" using ne by simp
  then have "x = last ?t \<or> list_less x (last ?t)" if "x \<in> set (butlast ?t @ [last ?t])" for x
    using that unfolding sorted_wrt_append by auto
  moreover have "set (butlast ?t @ [last ?t]) = set ?t" using arg_cong [OF append_butlast_last_id [OF ne], of set] .
  ultimately have early: "x = last ?t \<or> list_less x (last ?t)" if "x \<in> set ?t" for x using that by blast
  have "list_less x y" if "x \<in> set ?t" "y \<in> set ys" for x y
    using early [OF that(1)] assms(5) [OF that(2)] by (auto simp: list_less_key)
  then show ?thesis using t assms(4) by (simp add: sorted_wrt_append)
qed

text \<open>What is recorded after the first statement of the first of some fetches.\<close>

definition later_runs :: "run list list \<Rightarrow> run list list list \<Rightarrow> run list" where
  "later_runs bs fs = concat (drop 1 bs) @ concat (concat fs)"

lemma later_runs_Cons: "later_runs bs (bs' # fs) = (concat (drop 1 bs) @ concat (take 1 bs')) @ later_runs bs' fs"
  by (cases bs') (simp_all add: later_runs_def)

lemma filter_length_mono: "(\<And>x. P x \<Longrightarrow> Q x) \<Longrightarrow> length (filter P xs) \<le> length (filter Q xs)"
  by (induction xs) auto

text \<open>Whether a run sorts after one of a listing.\<close>

definition behind :: "run list \<Rightarrow> run \<Rightarrow> bool" where
  "behind xs r \<longleftrightarrow> (\<exists>x \<in> set xs. list_less x r)"

text \<open>The cursor a page of \<open>xs\<close> ends with, and the query that continues after it.\<close>

abbreviation next_query :: "query \<Rightarrow> run list \<Rightarrow> query" where
  "next_query q xs \<equiv> q\<lparr>q_After := Some \<lparr>c_StartedAt = StartedAt (last (take (nat (q_Limit q)) xs)),
     c_RunID = RunID (last (take (nat (q_Limit q)) xs))\<rparr>\<rparr>"

context run_store
begin

abbreviation store_record where
  "store_record \<equiv> \<lparr>so_Record = Record, so_Update = Update, so_Get = Get, so_List = ListRuns\<rparr>"

text \<open>Whatever is recorded, and with whatever result: nothing is lost, and what is new was sent.\<close>

lemma rec_errs_effect:
  assumes "inv st"
  shows "inv (snd (rec_errs store_record rs st)) \<and>
    content st \<subseteq>\<^sub>m content (snd (rec_errs store_record rs st)) \<and>
    ran (content (snd (rec_errs store_record rs st))) \<subseteq> ran (content st) \<union> canon ` set rs"
  using assms
proof (induction rs arbitrary: st)
  case (Cons r rs)
  obtain e st' where r: "Record r st = (e, st')" "inv st'"
    "content st' = content st \<or> content st (RunID r) = None \<and> content st' = (content st)(RunID r \<mapsto> canon r)"
    using store_record_effect [OF Cons.prems] by blast
  have le: "content st \<subseteq>\<^sub>m content st'" using r(3) by (auto simp: map_le_def dom_def)
  have ran: "ran (content st') \<subseteq> insert (canon r) (ran (content st))" using r(3) by (auto simp: ran_def split: if_splits)
  note IH = Cons.IH [OF r(2)]
  show ?case using IH map_le_trans [OF le] ran by (auto simp: r(1) split: prod.split)
qed simp

lemma rec_errs_append: "snd (rec_errs s (xs @ ys) st) = snd (rec_errs s ys (snd (rec_errs s xs st)))"
  by (induction xs arbitrary: st) (simp_all add: split_beta)

text \<open>The stores that the statements of one listing see, and the one after it.\<close>

lemma seen_at_later:
  assumes "inv st"
  shows "inv (seen_at store_record bs st k)" "content (seen_at store_record bs st 0) \<subseteq>\<^sub>m content (seen_at store_record bs st k)"
    and "content st \<subseteq>\<^sub>m content (seen_at store_record bs st 0)"
    and "ran (content (seen_at store_record bs st 0)) \<subseteq> ran (content st) \<union> canon ` set (concat (take 1 bs))"
proof -
  have split: "concat (take (Suc k) bs) = concat (take 1 bs) @ concat (take k (drop 1 bs))" for k
    by (cases bs) (simp_all add: drop_Cons')
  let ?one = "snd (rec_errs store_record (concat (take 1 bs)) st)"
  note one = rec_errs_effect [OF assms, of "concat (take 1 bs)"]
  have at: "seen_at store_record bs st k = snd (rec_errs store_record (concat (take k (drop 1 bs))) ?one)" for k
    by (simp only: seen_at_def split rec_errs_append)
  show "inv (seen_at store_record bs st k)" "content (seen_at store_record bs st 0) \<subseteq>\<^sub>m content (seen_at store_record bs st k)"
    "content st \<subseteq>\<^sub>m content (seen_at store_record bs st 0)"
    "ran (content (seen_at store_record bs st 0)) \<subseteq> ran (content st) \<union> canon ` set (concat (take 1 bs))"
    using one rec_errs_effect [of ?one "concat (take k (drop 1 bs))"] by (simp_all add: at)
qed

lemma after_listing:
  assumes "inv st" and st': "st' = snd (rec_errs store_record (concat bs) st)"
  shows "inv st'" "content (seen_at store_record bs st 0) \<subseteq>\<^sub>m content st'"
    "ran (content st') \<subseteq> ran (content (seen_at store_record bs st 0)) \<union> canon ` set (concat (drop 1 bs))"
proof -
  have "concat bs = concat (take 1 bs) @ concat (drop 1 bs)" by (cases bs) simp_all
  then have "st' = snd (rec_errs store_record (concat (drop 1 bs)) (seen_at store_record bs st 0))"
    by (simp add: st' seen_at_def rec_errs_append)
  then show "inv st'" "content (seen_at store_record bs st 0) \<subseteq>\<^sub>m content st'"
    "ran (content st') \<subseteq> ran (content (seen_at store_record bs st 0)) \<union> canon ` set (concat (drop 1 bs))"
    using rec_errs_effect [OF seen_at_later(1) [OF assms(1)]] by blast+
qed

lemma list_after_ok:
  assumes "is_listing q A xs" "0 < k" "k < length xs"
    and "after_ok (q\<lparr>q_After := Some \<lparr>c_StartedAt = StartedAt (last (take k xs)), c_RunID = RunID (last (take k xs))\<rparr>\<rparr>) x"
  shows "list_less (last (take k xs)) x" "after_ok q x"
proof -
  show less: "list_less (last (take k xs)) x"
    using assms(4) by (simp add: after_ok_def isAfterCursor_key cursor_key_of_run list_less_key)
  have "after_ok q (last (take k xs))" using assms(1) last_take_in [OF assms(2,3)] by (auto simp: is_listing_def)
  then show "after_ok q x" using less
    by (auto simp: after_ok_def isAfterCursor_key list_less_key split: option.splits)
qed

text \<open>The listing that the next fetch finds: the rest of this one, and what came behind the cursor.\<close>

lemma listing_continues:
  assumes L: "is_listing q A xs" and k: "0 < k" "k < length xs" and le: "A \<subseteq>\<^sub>m B" and ran: "ran B \<subseteq> ran A \<union> canon ` set new"
    and ys: "is_listing (q\<lparr>q_After := Some \<lparr>c_StartedAt = StartedAt (last (take k xs)), c_RunID = RunID (last (take k xs))\<rparr>\<rparr>) B ys"
  shows "set (drop k xs) \<subseteq> set ys"
    and "x \<in> set ys \<Longrightarrow> x \<in> set (drop k xs) \<or> behind xs x \<and> x \<in> canon ` set new"
    and "behind ys x \<Longrightarrow> behind xs x"
    and "length ys \<le> length (drop k xs) + length (filter (\<lambda>r. behind xs (canon r)) new)"
proof -
  let ?q = "q\<lparr>q_After := Some \<lparr>c_StartedAt = StartedAt (last (take k xs)), c_RunID = RunID (last (take k xs))\<rparr>\<rparr>"
  have drop: "set (drop k xs) = {r. r \<in> ran A \<and> query_match ?q r \<and> after_ok ?q r}"
    using listing_drop [OF L k] by (auto simp: is_listing_def ran_def)
  have set: "set ys = {r. r \<in> ran B \<and> query_match ?q r \<and> after_ok ?q r}" using ys by (auto simp: is_listing_def ran_def)
  have l: "last (take k xs) \<in> set xs" by (rule last_take_in [OF k])
  have "ran A \<subseteq> ran B" by (rule map_le_ran [OF le])
  then show "set (drop k xs) \<subseteq> set ys" unfolding drop set by blast
  have less: "list_less (last (take k xs)) x" if "x \<in> set ys" for x
    using list_after_ok(1) [OF L k] that by (simp add: set)
  show new: "x \<in> set (drop k xs) \<or> behind xs x \<and> x \<in> canon ` set new" if x: "x \<in> set ys" for x
  proof -
    have "behind xs x" using less [OF x] l by (auto simp: behind_def)
    then show ?thesis using x ran unfolding drop set by blast
  qed
  show "behind xs x" if b: "behind ys x"
  proof -
    obtain y where "y \<in> set ys" "list_less y x" using b by (auto simp: behind_def)
    then have "list_less (last (take k xs)) x" using less [of y] by (auto simp: list_less_key)
    with l show ?thesis by (auto simp: behind_def)
  qed
  let ?f = "filter (\<lambda>r. behind xs (canon r)) new"
  have "distinct ys" using ys listing_irrefl unfolding is_listing_def by blast
  then have "length ys = card (set ys)" by (simp add: distinct_card)
  also have "\<dots> \<le> card (set (drop k xs) \<union> canon ` set ?f)"
    by (rule card_mono) (use new in auto)
  also have "\<dots> \<le> card (set (drop k xs)) + card (canon ` set ?f)" by (rule card_Un_le)
  also have "card (canon ` set ?f) \<le> card (set ?f)" by (rule card_image_le) simp
  also have "card (set ?f) \<le> length ?f" by (rule card_length)
  also have "card (set (drop k xs)) \<le> length (drop k xs)" by (rule card_length)
  finally show "length ys \<le> length (drop k xs) + length ?f" by simp
qed

text \<open>
  What a traversal visits, in terms of the listing \<open>xs\<close> it starts with, what is recorded meanwhile and
  what is stored in the end: all of \<open>xs\<close>, in order, and besides only later rows behind one of \<open>xs\<close>.
\<close>

definition visits :: "query \<Rightarrow> run list \<Rightarrow> run list \<Rightarrow> (string \<Rightarrow> run option) \<Rightarrow> run list \<Rightarrow> bool" where
  "visits q xs new F vs \<longleftrightarrow> sorted_wrt list_less vs \<and> set xs \<subseteq> set vs \<and> set vs \<subseteq> ran F
     \<and> (\<forall>x \<in> set vs. after_ok q x \<and> (x \<in> set xs \<or> behind xs x \<and> query_match q x \<and> x \<in> canon ` set new))"

lemma visits_last: "is_listing q A xs \<Longrightarrow> ran A \<subseteq> ran F \<Longrightarrow> visits q xs new F xs"
  by (auto simp: visits_def is_listing_def ran_def)

lemma visits_more:
  assumes L: "is_listing q A xs" and k: "0 < k" "k < length xs" and le: "A \<subseteq>\<^sub>m B" and ran: "ran B \<subseteq> ran A \<union> canon ` set new"
    and ys: "is_listing (q\<lparr>q_After := Some \<lparr>c_StartedAt = StartedAt (last (take k xs)), c_RunID = RunID (last (take k xs))\<rparr>\<rparr>) B ys"
    and F: "ran A \<subseteq> ran F"
    and rest: "visits (q\<lparr>q_After := Some \<lparr>c_StartedAt = StartedAt (last (take k xs)), c_RunID = RunID (last (take k xs))\<rparr>\<rparr>) ys new' F vs"
  shows "visits q xs (new @ new') F (take k xs @ vs)"
proof -
  note cont = listing_continues [OF L k le ran ys]
  have l: "last (take k xs) \<in> set xs" by (rule last_take_in [OF k])
  have split: "set xs = set (take k xs) \<union> set (drop k xs)" by (metis append_take_drop_id set_append)
  have sorted: "sorted_wrt list_less xs" and sub: "set xs \<subseteq> ran F"
    using L F by (auto simp: is_listing_def ran_def)
  have old: "after_ok q x" if "x \<in> set xs" for x using that L by (simp add: is_listing_def)
  have vs: "list_less (last (take k xs)) x" "after_ok q x" "query_match q x"
      "x \<in> set ys \<or> behind ys x \<and> x \<in> canon ` set new'" if "x \<in> set vs" for x
  proof -
    show "list_less (last (take k xs)) x" "after_ok q x"
      using list_after_ok [OF L k] rest that by (simp_all add: visits_def)
    have "query_match q x" if "x \<in> set ys" using ys that by (simp add: is_listing_def)
    then show "query_match q x" "x \<in> set ys \<or> behind ys x \<and> x \<in> canon ` set new'"
      using rest \<open>x \<in> set vs\<close> unfolding visits_def by auto
  qed
  have "x \<in> set xs \<or> behind xs x \<and> x \<in> canon ` set (new @ new')" if x: "x \<in> set vs" for x
    using vs(4) [OF x] cont(2,3) [of x] split by auto
  moreover have "sorted_wrt list_less (take k xs @ vs)"
    by (rule sorted_take_drop_last [OF sorted k _ vs(1)]) (use rest in \<open>simp_all add: visits_def\<close>)
  moreover have "set xs \<subseteq> set (take k xs @ vs)" using cont(1) rest split by (auto simp: visits_def)
  moreover have "set (take k xs @ vs) \<subseteq> ran F" using sub split rest by (auto simp: visits_def)
  ultimately show ?thesis using old vs(2,3) split unfolding visits_def by auto
qed

text \<open>What is stored is visited at most once.\<close>

lemma visited_once:
  assumes "inv st" "sorted_wrt list_less xs" "set xs \<subseteq> ran (content st)"
  shows "distinct (map RunID xs)"
proof -
  have "content st (RunID x) = Some x" if "x \<in> set xs" for x
    using that assms(3) stored [OF assms(1), of _ x] by (auto simp: ran_def)
  then have "inj_on RunID (set xs)" by (metis inj_onI option.inject)
  then show ?thesis using assms(2) listing_irrefl by (simp add: distinct_map)
qed

lemma stored_ids_distinct: "inv st \<Longrightarrow> is_listing q (content st) xs \<Longrightarrow> distinct (map RunID xs)"
  by (rule visited_once) (auto simp: is_listing_def ran_def)

end

section \<open>Following the cursor while others record\<close>

context spanning_store
begin

lemma fetch_listing:
  assumes "inv st" "listable q"
  shows "\<exists>xs. is_listing q (content (seen_at store_record bs st 0)) xs
    \<and> during q (seen_at store_record bs st) = Inr (paginate xs (q_Limit q))"
  using during_law seen_at_later [OF assms(1)] assms(2) by blast

text \<open>
  However others record, the traversal visits the whole listing as it was at the first statement of
  the first fetch, and besides it only what was recorded later behind one of its rows; it never goes back.
\<close>

lemma traverse_under_visits:
  assumes "inv st" "listable q" "0 < q_Limit q" "is_listing q (content (seen_at store_record bs st 0)) xs"
    and "length xs + length (filter (\<lambda>r. behind xs (canon r)) (later_runs bs fs)) \<le> length fs"
    and F: "F = content (snd (rec_errs store_record (concat (concat (bs # fs))) st))"
  shows "\<exists>pages. traverse_under store_record during (bs # fs) q st = Some pages \<and> visits q xs (later_runs bs fs) F (concat pages)"
  using assms
proof (induction fs arbitrary: bs q st xs)
  case Nil
  have "xs = []" using Nil.prems(5) by simp
  then have "during q (seen_at store_record bs st) = Inr (paginate [] (q_Limit q))"
    using fetch_listing [OF Nil.prems(1,2)] listing_unique [OF Nil.prems(4)] by blast
  moreover have "paginate [] (q_Limit q) = \<lparr>pg_Runs = [], pg_Next = None\<rparr>" using Nil.prems(3) by (simp add: paginate_def)
  ultimately show ?case using \<open>xs = []\<close> by (simp add: traverse_under_Cons visits_def)
next
  case (Cons bs' fs)
  let ?C = "content (seen_at store_record bs st 0)" and ?k = "nat (q_Limit q)"
  let ?st = "snd (rec_errs store_record (concat bs) st)" let ?C' = "content (seen_at store_record bs' ?st 0)"
  have page: "during q (seen_at store_record bs st) = Inr (paginate xs (q_Limit q))"
    using fetch_listing [OF Cons.prems(1,2)] listing_unique [OF Cons.prems(4)] by blast
  note aft = after_listing [OF Cons.prems(1) refl, of bs]
  note seen = seen_at_later [OF aft(1), of bs']
  have F: "F = content (snd (rec_errs store_record (concat (concat (bs' # fs))) ?st))"
    unfolding Cons.prems(6) by (simp only: concat.simps concat_append rec_errs_append)
  have "content ?st \<subseteq>\<^sub>m F" unfolding F using rec_errs_effect [OF aft(1)] by blast
  then have ranF: "ran ?C \<subseteq> ran F" using map_le_ran map_le_trans [OF aft(2)] by blast
  show ?case
  proof (cases "int (length xs) \<le> q_Limit q")
    case True
    then have "traverse_under store_record during (bs # bs' # fs) q st = Some [xs]"
      using page by (simp add: traverse_under_Cons paginate_def)
    then show ?thesis using visits_last [OF Cons.prems(4) ranF] by simp
  next
    case False
    let ?q = "next_query q xs" let ?new = "concat (drop 1 bs) @ concat (take 1 bs')"
    have k: "0 < ?k" "?k < length xs" using Cons.prems(3) False by linarith+
    obtain i where "?C i = Some (last (take ?k xs))"
      using last_take_in [OF k] Cons.prems(4) by (auto simp: is_listing_def)
    then have q': "listable ?q" by (rule listable_next [OF seen_at_later(1) [OF Cons.prems(1)] Cons.prems(2)])
    obtain ys where ys: "is_listing ?q ?C' ys" using fetch_listing [OF aft(1) q'] by blast
    have le: "?C \<subseteq>\<^sub>m ?C'" by (rule map_le_trans [OF aft(2) seen(3)])
    have ran: "ran ?C' \<subseteq> ran ?C \<union> canon ` set ?new" using aft(3) seen(4) unfolding set_append image_Un by blast
    have later: "later_runs bs (bs' # fs) = ?new @ later_runs bs' fs" by (rule later_runs_Cons)
    note cont = listing_continues [OF Cons.prems(4) k le ran ys]
    have "length (filter (\<lambda>r. behind ys (canon r)) (later_runs bs' fs)) \<le> length (filter (\<lambda>r. behind xs (canon r)) (later_runs bs' fs))"
      by (rule filter_length_mono) (rule cont(3))
    then have len: "length ys + length (filter (\<lambda>r. behind ys (canon r)) (later_runs bs' fs)) \<le> length fs"
      using Cons.prems(5) cont(4) k unfolding later filter_append length_append by simp
    have lim: "0 < q_Limit ?q" using Cons.prems(3) by simp
    obtain pages where pages: "traverse_under store_record during (bs' # fs) ?q ?st = Some pages"
      "visits ?q ys (later_runs bs' fs) F (concat pages)"
      using Cons.IH [OF aft(1) q' lim ys len F] by blast
    have "traverse_under store_record during (bs # bs' # fs) q st = Some (take ?k xs # pages)"
      using page pages(1) False Cons.prems(3) by (simp add: traverse_under_Cons [of _ _ bs] paginate_def Let_def)
    moreover have "visits q xs (later_runs bs (bs' # fs)) F (concat (take ?k xs # pages))"
      unfolding later concat.simps by (rule visits_more [OF Cons.prems(4) k le ran ys ranF pages(2)])
    ultimately show ?thesis by blast
  qed
qed

text \<open>When what is recorded later sorts before all of it, exactly the listing comes back.\<close>

lemma traverse_under_snapshot:
  assumes "inv st" "listable q" "0 < q_Limit q" "is_listing q (content (seen_at store_record bs st 0)) xs"
    and "length xs \<le> length fs" and newer: "\<And>r x. r \<in> set (later_runs bs fs) \<Longrightarrow> x \<in> set xs \<Longrightarrow> list_key (canon r) \<le> list_key x"
  shows "\<exists>pages. traverse_under store_record during (bs # fs) q st = Some pages \<and> concat pages = xs"
proof -
  have none: "\<not> behind xs (canon r)" if "r \<in> set (later_runs bs fs)" for r
    using newer [OF that] by (auto simp: behind_def list_less_key not_less)
  then have "filter (\<lambda>r. behind xs (canon r)) (later_runs bs fs) = []" by (simp add: filter_empty_conv)
  then have len: "length xs + length (filter (\<lambda>r. behind xs (canon r)) (later_runs bs fs)) \<le> length fs" using assms(5) by simp
  obtain pages where pages: "traverse_under store_record during (bs # fs) q st = Some pages"
    "sorted_wrt list_less (concat pages)" "set xs \<subseteq> set (concat pages)"
    "\<forall>x \<in> set (concat pages). x \<in> set xs \<or> behind xs x \<and> x \<in> canon ` set (later_runs bs fs)"
    using traverse_under_visits [OF assms(1-4) len refl] unfolding visits_def by blast
  then have "set (concat pages) = set xs" using none by blast
  moreover have "sorted_wrt list_less xs" using assms(4) by (simp add: is_listing_def)
  ultimately show ?thesis using pages(1,2) sorted_listing_unique by blast
qed

end

section \<open>Recording in the reference model\<close>

lemma fresh_rest: "distinct (map RunID (r # rs)) \<Longrightarrow> s \<in> set rs \<Longrightarrow> RunID s \<noteq> RunID r"
  by (metis distinct.simps(2) image_eqI list.map(2) set_map)

definition ref_record :: "run \<Rightarrow> (string \<Rightarrow> run option) \<Rightarrow> string \<Rightarrow> run option" where
  "ref_record r A = (if A (RunID r) = None then A(RunID r \<mapsto> NormalizeCapture r) else A)"

lemma ref_record_fresh: "A (RunID r) = None \<Longrightarrow> ref_record r A = A(RunID r \<mapsto> NormalizeCapture r)"
  by (simp add: ref_record_def)

section \<open>Listings in terms of the reference model\<close>

context conforming_store
begin

lemma is_listing_models:
  assumes "models st A" "is_listing q (content st) xs"
  shows "\<exists>zs. is_listing q A zs \<and> list_all2 indistinct zs xs"
proof -
  let ?h = "\<lambda>x. the (A (RunID x))"
  have h: "A (RunID x) = Some (?h x) \<and> indistinct (?h x) x" if x: "x \<in> set xs" for x
  proof -
    obtain i where i: "content st i = Some x" using x assms(2) by (auto simp: is_listing_def)
    then obtain r where r: "A i = Some r" using models_None [OF assms(1), of i] by force
    then have "indistinct r x" "RunID r = i" using models_Some [OF assms(1) r] i by (auto simp: entry_def)
    then show ?thesis using r indistinct_fields by force
  qed
  have "sorted_wrt list_less (map ?h xs)"
  proof -
    have "sorted_wrt list_less xs" using assms(2) by (simp add: is_listing_def)
    then show ?thesis unfolding sorted_wrt_map
      by (rule sorted_wrt_mono_rel [rotated]) (metis h indistinct_face list_key_face list_less_key)
  qed
  moreover have "set (map ?h xs) = {r. (\<exists>i. A i = Some r) \<and> query_match q r \<and> after_ok q r}"
  proof (intro set_eqI iffI)
    fix r assume "r \<in> set (map ?h xs)"
    then obtain x where x: "x \<in> set xs" "r = ?h x" by auto
    have "face x = face r" using h [OF x(1)] x(2) indistinct_face by blast
    moreover have "query_match q x" "after_ok q x" using assms(2) x(1) by (auto simp: is_listing_def)
    ultimately show "r \<in> {r. (\<exists>i. A i = Some r) \<and> query_match q r \<and> after_ok q r}"
      using h [OF x(1)] x(2) query_match_face after_ok_face by blast
  next
    fix r assume "r \<in> {r. (\<exists>i. A i = Some r) \<and> query_match q r \<and> after_ok q r}"
    then obtain i where r: "A i = Some r" "query_match q r" "after_ok q r" by blast
    obtain x where x: "content st i = Some x" "indistinct r x" using models_Some(1) [OF assms(1) r(1)] by blast
    then have "query_match q x" "after_ok q x"
      using r query_match_face [OF indistinct_face [OF x(2)]] after_ok_face [OF indistinct_face [OF x(2)]] by simp_all
    then have "x \<in> set xs" using assms(2) x(1) by (auto simp: is_listing_def)
    moreover have "RunID x = i" using x(2) models_Some(2) [OF assms(1) r(1)] indistinct_fields [OF x(2)] by (simp add: entry_def)
    ultimately show "r \<in> set (map ?h xs)" using r(1) by force
  qed
  ultimately have "is_listing q A (map ?h xs)" by (simp add: is_listing_def)
  moreover have "list_all2 indistinct (map ?h xs) xs" using h by (auto simp: list_all2_map1 intro: list_all2_all_nthI)
  ultimately show ?thesis by blast
qed

lemma list_models:
  assumes "models st A" "exact_query q"
  shows "\<exists>zs xs. is_listing q A zs \<and> is_listing q (content st) xs \<and> list_all2 indistinct zs xs
    \<and> ListRuns q st = Inr (paginate xs (q_Limit q))"
  using list_law [OF models_inv [OF assms(1)] exact_listable [OF assms(2)]] is_listing_models [OF assms(1)] by blast

lemma indistinct_ids: "list_all2 indistinct zs xs \<Longrightarrow> map RunID xs = map RunID zs"
  by (induction rule: list_all2_induct) (auto simp: indistinct_def face_eq)

text \<open>A listing that fits in one page.\<close>

lemma list_ok_rule:
  assumes "models st A" "exact_query q" "is_listing q A zs" "q_Limit q \<le> 0 \<or> int (length zs) \<le> q_Limit q"
    and k: "\<And>pg. list_all2 indistinct zs (pg_Runs pg) \<Longrightarrow> ids pg = map RunID zs \<Longrightarrow> pg_Next pg = None \<Longrightarrow> k pg st"
  shows "list_ok ops q k st"
proof -
  obtain xs where xs: "list_all2 indistinct zs xs" "ListRuns q st = Inr (paginate xs (q_Limit q))"
    using list_models [OF assms(1,2)] listing_unique [OF assms(3)] by blast
  have "k (paginate xs (q_Limit q)) st"
  proof (rule k)
    have "paginate xs (q_Limit q) = \<lparr>pg_Runs = xs, pg_Next = None\<rparr>"
      using assms(4) list_all2_lengthD [OF xs(1)] by (auto simp: paginate_def)
    then show "list_all2 indistinct zs (pg_Runs (paginate xs (q_Limit q)))" "pg_Next (paginate xs (q_Limit q)) = None"
      "ids (paginate xs (q_Limit q)) = map RunID zs"
      using xs(1) indistinct_ids [OF xs(1)] by (simp_all add: ids_def)
  qed
  then show ?thesis by (simp add: list_ok_def xs(2))
qed

text \<open>A listing cut off at the limit.\<close>

lemma list_more_rule:
  assumes "models st A" "exact_query q" "is_listing q A zs" "0 < q_Limit q" "q_Limit q < int (length zs)"
    and k: "\<And>pg c. ids pg = map RunID (take (nat (q_Limit q)) zs) \<Longrightarrow> pg_Next pg = Some c \<Longrightarrow>
      cursor_key c = list_key (last (take (nat (q_Limit q)) zs)) \<Longrightarrow> in_int64 (c_StartedAt c) \<Longrightarrow> k pg st"
  shows "list_ok ops q k st"
proof -
  obtain xs where xs: "is_listing q (content st) xs" "list_all2 indistinct zs xs" "ListRuns q st = Inr (paginate xs (q_Limit q))"
    using list_models [OF assms(1,2)] listing_unique [OF assms(3)] by blast
  let ?n = "nat (q_Limit q)" let ?l = "last (take ?n xs)" let ?z = "last (take ?n zs)"
  have len: "length xs = length zs" using list_all2_lengthD [OF xs(2)] by simp
  have n: "0 < ?n" "?n < length xs" using assms(4,5) len by linarith+
  have "take ?n zs \<noteq> []" using n len by auto
  then have zl: "indistinct ?z ?l" by (rule list_all2_last [OF list_all2_takeI [OF xs(2)]])
  have "?z \<in> set zs" using last_take_in [of ?n zs] n len by simp
  then obtain i where "A i = Some ?z" using assms(3) by (auto simp: is_listing_def)
  then have "exact_run ?z" using models_Some(2) [OF assms(1)] by (simp add: entry_def)
  then have "exact_run ?l" unfolding exact_run_face [OF indistinct_face [OF zl]] .
  then have l: "list_key ?l = list_key ?z" "in_int64 (StartedAt ?l)"
    by (simp_all add: list_key_face [OF indistinct_face [OF zl]] exact_run_def)
  have "paginate xs (q_Limit q) = \<lparr>pg_Runs = take ?n xs, pg_Next = Some \<lparr>c_StartedAt = StartedAt ?l, c_RunID = RunID ?l\<rparr>\<rparr>"
    using assms(4,5) len by (simp add: paginate_def Let_def)
  moreover have "map RunID (take ?n xs) = map RunID (take ?n zs)" using indistinct_ids [OF xs(2)] by (simp only: take_map [symmetric])
  ultimately show ?thesis
    using k [of "paginate xs (q_Limit q)" "\<lparr>c_StartedAt = StartedAt ?l, c_RunID = RunID ?l\<rparr>"] l
    by (simp add: list_ok_def xs(3) ids_def cursor_key_of_run)
qed

section \<open>Recording a list of runs\<close>

lemma rec_all_rule:
  assumes "models st A" "\<And>r. r \<in> set rs \<Longrightarrow> exact_run r \<and> Validate r = None" "distinct (map RunID rs)"
    and "\<And>r. r \<in> set rs \<Longrightarrow> A (RunID r) = None"
    and k: "\<And>st'. models st' (fold ref_record rs A) \<Longrightarrow> k st'"
  shows "rec_all ops rs k st" "rec_each ops rs k st"
proof -
  have "rec_all ops rs k st \<and> rec_each ops rs k st"
    using assms
  proof (induction rs arbitrary: st A)
    case (Cons r rs)
    have fresh: "A (RunID r) = None" "exact_run r" "Validate r = None" using Cons.prems(2,4) by simp_all
    have next_ok: "rec_all ops rs k st' \<and> rec_each ops rs k st'" if "models st' (A(RunID r \<mapsto> NormalizeCapture r))" for st'
    proof (rule Cons.IH [OF that])
      show "(A(RunID r \<mapsto> NormalizeCapture r)) (RunID s) = None" if "s \<in> set rs" for s
        using fresh_rest [OF Cons.prems(3) that] Cons.prems(4) that by simp
      show "k st''" if "models st'' (fold ref_record rs (A(RunID r \<mapsto> NormalizeCapture r)))" for st''
        using Cons.prems(5) [of st''] that by (simp add: ref_record_fresh [of A r, OF fresh(1)])
    qed (use Cons.prems in auto)
    show ?case
      using rec_ok_rule [OF Cons.prems(1) fresh(2,3,1)] rec_any_rule [OF Cons.prems(1) fresh(2,3,1)] next_ok by auto
  qed simp
  then show "rec_all ops rs k st" "rec_each ops rs k st" by blast+
qed

lemma ref_record_ran:
  assumes "distinct (map RunID rs)" "\<And>r. r \<in> set rs \<Longrightarrow> A (RunID r) = None"
  shows "(\<exists>i. fold ref_record rs A i = Some z) \<longleftrightarrow> (\<exists>i. A i = Some z) \<or> z \<in> NormalizeCapture ` set rs"
  using assms
proof (induction rs arbitrary: A)
  case (Cons r rs)
  have fresh: "A (RunID r) = None" using Cons.prems(2) by simp
  define B where "B = A(RunID r \<mapsto> NormalizeCapture r)"
  have "(\<exists>i. B i = Some z) \<longleftrightarrow> (\<exists>i. A i = Some z) \<or> z = NormalizeCapture r"
    using fresh unfolding B_def by (auto split: if_splits) (metis option.distinct(1))+
  moreover have "B (RunID s) = None" if "s \<in> set rs" for s
    using fresh_rest [OF Cons.prems(1) that] Cons.prems(2) that by (simp add: B_def)
  ultimately have "(\<exists>i. fold ref_record rs B i = Some z) \<longleftrightarrow> (\<exists>i. A i = Some z) \<or> z = NormalizeCapture r \<or> z \<in> NormalizeCapture ` set rs"
    using Cons.IH [of B] Cons.prems(1) by auto
  then show ?case by (simp add: ref_record_fresh [of A r, OF fresh] B_def)
qed simp

text \<open>What a listing of freshly recorded runs is.\<close>

lemma is_listing_recorded:
  assumes "distinct (map RunID rs)"
  shows "is_listing q (fold ref_record rs Map.empty) zs \<longleftrightarrow>
    sorted_wrt list_less zs \<and> set zs = {z \<in> NormalizeCapture ` set rs. query_match q z \<and> after_ok q z}"
  using ref_record_ran [OF assms, of Map.empty] by (auto simp: is_listing_def)

end

end
