(* ===== verification/Conformance_Suite.thy ===== *)
theory Conformance_Suite
  imports Conformance_Paging
begin

text \<open>
  Every subtest of \<open>RunConformance\<close> passes on every \<open>conforming_store\<close>.
\<close>

section \<open>The runs of the suite\<close>

definition clock_range :: "clock \<Rightarrow> bool" where
  "clock_range now \<longleftrightarrow> (\<forall>n. 0 \<le> t_ns (now n) \<and> t_ns (now n) \<le> 2 ^ 62)"

text \<open>The clock shows a time between 1970 and 2116 and never runs backwards.\<close>

definition clock_ok :: "clock \<Rightarrow> bool" where
  "clock_ok now \<longleftrightarrow> clock_range now \<and> (\<forall>m n. m \<le> n \<longrightarrow> t_ns (now m) \<le> t_ns (now n))"

lemma clock_okD:
  assumes "clock_ok now"
  shows "0 \<le> t_ns (now n)" "t_ns (now n) \<le> 4611686018427387904" "m \<le> n \<Longrightarrow> t_ns (now m) \<le> t_ns (now n)"
  using assms by (simp_all add: clock_ok_def clock_range_def)

lemma t_ns_add [simp]: "t_ns (add t d) = t_ns t + d"
  by (simp add: add_def)

lemma clock_in_int64: 
  assumes "clock_range now"
  shows "\<bar>d\<bar> \<le> 2305843009213693952 \<Longrightarrow> in_int64 (add (now n) d)" "in_int64 (now n)"
proof -
  have "0 \<le> t_ns (now n)" "t_ns (now n) \<le> 4611686018427387904" using assms by (simp_all add: clock_range_def)
  then show "\<bar>d\<bar> \<le> 2305843009213693952 \<Longrightarrow> in_int64 (add (now n) d)" "in_int64 (now n)"
    by (simp_all add: in_int64_def abs_le_iff)
qed

lemma base_in_int64:
  "\<bar>d\<bar> \<le> 2305843009213693952 \<Longrightarrow> in_int64 (add base_2024 d)" "in_int64 base_2024"
  by (simp_all add: in_int64_def base_2024_def abs_le_iff)

lemma mk_simps [simp]:
  "Project (mk i p t) = p" "GitCommit (mk i p t) = ''c'' @ i" "GitDirty (mk i p t) = False" "ConfigHash (mk i p t) = ''cfg''"
  "Seed (mk i p t) = 0" "Params (mk i p t) = None" "RunID (mk i p t) = i" "FingerprintVersion (mk i p t) = CurrentFingerprintVersion"
  "SubmitterClaim (mk i p t) = []" "JobID (mk i p t) = []" "Status (mk i p t) = StatusSucceeded" "StartedAt (mk i p t) = t"
  "EndedAt (mk i p t) = None" "Metrics (mk i p t) = None" "Capture (mk i p t) = None"
  by (simp_all add: mk_def zero_run_def Let_def)

lemma recompute_simps [simp]:
  "Project (recompute r) = Project r" "GitCommit (recompute r) = GitCommit r" "GitDirty (recompute r) = GitDirty r"
  "ConfigHash (recompute r) = ConfigHash r" "Seed (recompute r) = Seed r" "Params (recompute r) = Params r"
  "RunID (recompute r) = RunID r" "FingerprintVersion (recompute r) = FingerprintVersion r"
  "SubmitterClaim (recompute r) = SubmitterClaim r" "JobID (recompute r) = JobID r" "Status (recompute r) = Status r"
  "StartedAt (recompute r) = StartedAt r" "EndedAt (recompute r) = EndedAt r" "Metrics (recompute r) = Metrics r"
  "Capture (recompute r) = Capture r"
  by (simp_all add: recompute_def)

lemma capture_of_simps [simp]: "Client (capture_of c a) = c" "Attempted (capture_of c a) = Some a"
  by (simp_all add: capture_of_def)

lemma NormalizeCapture_none: "Capture r = None \<Longrightarrow> NormalizeCapture r = r"
  by (simp add: NormalizeCapture_def)

lemma NormalizeCapture_one: "Capture r = Some (capture_of c [f]) \<Longrightarrow> NormalizeCapture r = r"
  by (simp add: NormalizeCapture_def capture_of_def)

lemma TrimSpace_ne: "list_all visible s \<Longrightarrow> s \<noteq> [] \<Longrightarrow> TrimSpace s \<noteq> []"
  by (simp add: TrimSpace_visible)

lemma suite_run_valid:
  assumes "GitCommit r = ''c'' @ i" "list_all visible i" "Project r \<noteq> []" "list_all visible (Project r)"
    and "\<not> GitDirty r" "ValidStatus (Status r)" "EndedAt r = None" "pred_option (\<lambda>c. set (slice (Attempted c)) \<subseteq> set CaptureFields) (Capture r)"
  shows "Validate r = None"
proof -
  have "TrimSpace (GitCommit r) \<noteq> []" unfolding assms(1) by (rule TrimSpace_ne) (simp_all add: assms(2) visible_def)
  then show ?thesis using assms TrimSpace_ne by (simp add: Validate_None_iff option.pred_set)
qed

lemma suite_run_exact:
  "exact_run r \<longleftrightarrow> in_int64 (StartedAt r) \<and> pred_option (\<lambda>c. distinct (slice (Attempted c))) (Capture r)"
  if "EndedAt r = None" "FingerprintVersion r = CurrentFingerprintVersion"
  using that by (simp add: exact_run_def)

definition suite_run :: "run \<Rightarrow> bool" where
  "suite_run r \<longleftrightarrow> exact_run r \<and> Validate r = None"

lemma suite_mk [simp]:
  assumes "list_all visible i" "p \<noteq> []" "list_all visible p" "in_int64 t"
  shows "suite_run (mk i p t)"
  using suite_run_valid [of "mk i p t" i] assms by (simp add: suite_run_def suite_run_exact)

text \<open>Evaluating a query on a run of the suite.\<close>

lemmas match_simps = exact_query_def query_match_def after_ok_def query_p_def empty_query_def IsZero_def Before_def zero_time_def zero_ns_def

lemmas order_simps = list_less_def Equal_def After_def

context conforming_store
begin

lemma suite_listing:
  assumes "distinct (map RunID rs)" "sorted_wrt list_less zs"
    and "set zs = set (filter (\<lambda>z. query_match q z \<and> after_ok q z) (map NormalizeCapture rs))"
  shows "is_listing q (fold ref_record rs Map.empty) zs"
  unfolding is_listing_recorded [OF assms(1)] using assms(2-) by (auto simp: image_iff)

lemma suite_records:
  assumes "models st Map.empty" "distinct (map RunID rs)" "list_all suite_run rs"
    and "\<And>st'. models st' (fold ref_record rs Map.empty) \<Longrightarrow> k st'"
  shows "rec_all ops rs k st" "rec_each ops rs k st"
  using rec_all_rule [OF assms(1) _ assms(2), of k] assms(3,4) by (auto simp: suite_run_def list_all_iff)

text \<open>The subtests that record some runs and look at one listing.\<close>

lemma suite_list:
  assumes "models st' (fold ref_record rs Map.empty)" "distinct (map RunID rs)" "sorted_wrt list_less zs"
    and "set zs = set (filter (\<lambda>z. query_match q z \<and> after_ok q z) (map NormalizeCapture rs))" "exact_query q"
    and "q_Limit q \<le> 0 \<or> int (length zs) \<le> q_Limit q"
    and "\<And>pg. list_all2 indistinct zs (pg_Runs pg) \<Longrightarrow> ids pg = map RunID zs \<Longrightarrow> pg_Next pg = None \<Longrightarrow> k pg st'"
  shows "list_ok ops q k st'"
  using suite_listing [OF assms(2-4)] assms(6,7) by (rule list_ok_rule [OF assms(1,5)])

lemma suite_get_unknown:
  assumes "models st Map.empty"
  shows "t_get_unknown ops now st"
  unfolding t_get_unknown_def by (rule get_err_rule [OF assms]) (simp_all add: errors_Is_def passed_def)

lemma again_rule: "(\<And>k. k st \<Longrightarrow> f k st) \<Longrightarrow> k st \<Longrightarrow> again n f k st"
  by (induction n) simp_all

lemma suite_records_list:
  assumes "models st Map.empty" "distinct (map RunID rs)" "list_all suite_run rs" "sorted_wrt list_less zs"
    and "set zs = set (filter (\<lambda>z. query_match q z \<and> after_ok q z) (map NormalizeCapture rs))" "exact_query q"
    and "q_Limit q \<le> 0 \<or> int (length zs) \<le> q_Limit q"
    and "\<And>pg st'. ids pg = map RunID zs \<Longrightarrow> pg_Next pg = None \<Longrightarrow> k pg st'"
  shows "rec_all ops rs (list_ok ops q k) st" "rec_each ops rs (list_ok ops q k) st"
  by (rule suite_records [OF assms(1-3)], rule suite_list [OF _ assms(2,4-7)], assumption, rule assms(8), assumption+)+

lemma suite_newest_first:
  assumes "models st Map.empty" "clock_range now"
  shows "t_newest_first ops now st"
  unfolding t_newest_first_def
proof (rule suite_records(1) [OF assms(1)])
  fix st'
  let ?rs = "[mk ''old'' ''p'' (add (now 0) (- 2 * hour_ns)), mk ''new'' ''p'' (now 0), mk ''mid'' ''p'' (add (now 0) (- hour_ns))]"
  assume m: "models st' (fold ref_record ?rs Map.empty)"
  show "again 20 (\<lambda>k. list_ok ops query_p (\<lambda>pg. check (ids pg = [''new'', ''mid'', ''old'']) (check (pg_Next pg = None) k))) passed st'"
  proof (rule again_rule)
    fix k assume "k st'"
    show "list_ok ops query_p (\<lambda>pg. check (ids pg = [''new'', ''mid'', ''old'']) (check (pg_Next pg = None) k)) st'"
      by (rule suite_list [OF m, where zs = "[mk ''new'' ''p'' (now 0), mk ''mid'' ''p'' (add (now 0) (- hour_ns)), mk ''old'' ''p'' (add (now 0) (- 2 * hour_ns))]"])
        (auto simp: order_simps match_simps NormalizeCapture_none check_def \<open>k st'\<close>)
  qed (simp add: passed_def)
qed (simp_all add: clock_in_int64 [OF assms(2)] visible_def)

lemma suite_project_filter:
  assumes "models st Map.empty" "clock_range now"
  shows "t_project_filter ops now st"
  unfolding t_project_filter_def
  by (rule suite_records_list(2) [OF assms(1), where zs = "[mk ''a'' ''alpha'' (now 0)]"])
    (auto simp: clock_in_int64 [OF assms(2)] visible_def order_simps match_simps NormalizeCapture_none check_def passed_def)

lemma suite_exact_page:
  assumes "models st Map.empty" "clock_range now"
  shows "t_exact_page ops now st"
  unfolding t_exact_page_def old_and_new_def
  by (rule suite_records_list(2) [OF assms(1), where zs = "[mk ''new'' ''p'' (now 0), mk ''old'' ''p'' (add (now 0) (- hour_ns))]"])
    (auto simp: clock_in_int64 [OF assms(2)] visible_def order_simps match_simps NormalizeCapture_none check_def passed_def ids_def dest: map_eq_imp_length_eq)

lemma suite_since_until:
  assumes "models st Map.empty"
  shows "t_since_until ops now st"
  unfolding t_since_until_def
  by (rule suite_records_list(2) [OF assms(1), where zs = "[mk ''mid'' ''p'' (add base_2024 hour_ns), mk ''at-since'' ''p'' base_2024]"])
    (auto simp: base_in_int64 visible_def order_simps match_simps NormalizeCapture_none check_def passed_def, auto simp: base_2024_def)

lemma suite_since_until_filters:
  assumes "models st Map.empty"
  shows "t_since_until_filters ops now st"
  unfolding t_since_until_filters_def
  by (rule suite_records_list(2) [OF assms(1), where zs = "[mk ''alpha-in'' ''alpha'' base_2024]"])
    (auto simp: base_in_int64 visible_def order_simps match_simps NormalizeCapture_none check_def passed_def, auto simp: base_2024_def)

lemma rec_ok_two: "rec_ok s a (rec_ok s b k) = rec_all s [a, b] k"
  by simp

lemma suite_attribution_filter:
  assumes "models st Map.empty" "clock_range now"
  shows "t_attribution_filter ops now st"
proof -
  let ?a = "recompute ((mk ''a'' ''p'' (now 0))\<lparr>SubmitterClaim := ''alice'', JobID := ''ci-1''\<rparr>)"
  let ?b = "recompute ((mk ''b'' ''p'' (add (now 0) (- minute_ns)))\<lparr>SubmitterClaim := ''bob'', JobID := ''ci-2''\<rparr>)"
  have ok: "suite_run ?a" "suite_run ?b"
    using suite_run_valid [of ?a "''a''"] suite_run_valid [of ?b "''b''"]
    by (simp_all add: suite_run_def suite_run_exact clock_in_int64 [OF assms(2)] visible_def)
  have two: "list_ok ops (query_p\<lparr>q_JobID := ''ci-2''\<rparr>) (\<lambda>pg. check (ids pg = [''b'']) passed) st'"
    if "models st' (fold ref_record [?a, ?b] Map.empty)" for st'
    by (rule suite_list [OF that, where zs = "[?b]"])
      (auto simp: order_simps match_simps NormalizeCapture_none check_def passed_def)
  have one: "list_ok ops (query_p\<lparr>q_SubmitterClaim := ''alice''\<rparr>) (\<lambda>pg. check (ids pg = [''a''])
      (list_ok ops (query_p\<lparr>q_JobID := ''ci-2''\<rparr>) (\<lambda>pg. check (ids pg = [''b'']) passed))) st'"
    if "models st' (fold ref_record [?a, ?b] Map.empty)" for st'
    by (rule suite_list [OF that, where zs = "[?a]"])
      (auto simp: order_simps match_simps NormalizeCapture_none check_def two [OF that, unfolded match_simps, simplified])
  show ?thesis
    unfolding t_attribution_filter_def Let_def rec_ok_two
    by (rule suite_records(1) [OF assms(1)]) (use ok one in simp_all)
qed

lemma suite_capture_filter:
  assumes "models st Map.empty" "clock_range now"
  shows "t_capture_filter ops now st"
proof -
  let ?a = "recompute ((mk ''a'' ''p'' (now 0))\<lparr>Capture := Some (capture_of ''runledger-py/0.1.0'' [''host''])\<rparr>)"
  let ?b = "recompute ((mk ''b'' ''p'' (add (now 0) (- minute_ns)))\<lparr>Capture := Some (capture_of ''rlctl/0.1.0'' [''host''])\<rparr>)"
  have ok: "suite_run ?a" "suite_run ?b"
    using suite_run_valid [of ?a "''a''"] suite_run_valid [of ?b "''b''"]
    by (simp_all add: suite_run_def suite_run_exact clock_in_int64 [OF assms(2)] visible_def CaptureFields_def)
  have norm: "NormalizeCapture ?a = ?a" "NormalizeCapture ?b = ?b" by (simp_all add: NormalizeCapture_one)
  show ?thesis
    unfolding t_capture_filter_def Let_def rec_ok_two
    by (rule suite_records_list(1) [OF assms(1), where zs = "[?a]"])
      (auto simp: ok [simplified] norm [simplified] order_simps match_simps check_def passed_def)
qed

lemma suite_limit_cursor:
  assumes "models st Map.empty" "clock_range now"
  shows "t_limit_cursor ops now st"
  unfolding t_limit_cursor_def
proof (rule suite_records(2) [OF assms(1)])
  let ?old = "mk ''old'' ''p'' (add (now 0) (- hour_ns))" and ?new = "mk ''new'' ''p'' (now 0)"
  let ?last = "\<lambda>pg. list_ok ops (query_p\<lparr>q_Limit := 1, q_After := pg_Next pg\<rparr>) (\<lambda>nxt. check (ids nxt = [''old'']) (check (pg_Next nxt = None) passed))"
  fix st' assume m: "models st' (fold ref_record (old_and_new now) Map.empty)"
  show "list_ok ops (query_p\<lparr>q_Limit := 1\<rparr>) (\<lambda>pg. check (ids pg = [''new'']) (check (pg_Next pg \<noteq> None) (?last pg))) st'"
  proof (rule list_more_rule [OF m])
    show "is_listing (query_p\<lparr>q_Limit := 1\<rparr>) (fold ref_record (old_and_new now) Map.empty) [?new, ?old]"
      by (rule suite_listing) (auto simp: old_and_new_def order_simps match_simps NormalizeCapture_none)
    fix pg c
    assume pg: "ids pg = map RunID (take (nat (q_Limit (query_p\<lparr>q_Limit := 1\<rparr>))) [?new, ?old])" "pg_Next pg = Some c"
      "cursor_key c = list_key (last (take (nat (q_Limit (query_p\<lparr>q_Limit := 1\<rparr>))) [?new, ?old]))" "in_int64 (c_StartedAt c)"
    have key: "cursor_key c = list_key ?new" using pg(3) by simp
    have "after_ok (query_p\<lparr>q_Limit := 1, q_After := Some c\<rparr>) ?old" "\<not> after_ok (query_p\<lparr>q_Limit := 1, q_After := Some c\<rparr>) ?new"
      by (simp_all add: after_ok_def isAfterCursor_key key, simp_all add: list_key_def)
    then have "?last pg st'" unfolding pg(2)
      by (intro suite_list [OF m, where zs = "[?old]"])
        (use pg(4) in \<open>auto simp: old_and_new_def query_match_def query_p_def empty_query_def exact_query_def IsZero_def zero_time_def
          NormalizeCapture_none check_def passed_def\<close>)
    then show "check (ids pg = [''new'']) (check (pg_Next pg \<noteq> None) (?last pg)) st'" using pg(1,2) by (simp add: check_def)
  qed (simp_all add: match_simps)
qed (simp_all add: old_and_new_def clock_in_int64 [OF assms(2)] visible_def)

section \<open>Recording\<close>

lemma suite_record_one:
  assumes "models st Map.empty" "suite_run r" "RunID r = ''a''"
    and "\<And>st'. models st' [''a'' \<mapsto> NormalizeCapture r] \<Longrightarrow> content st' ''a'' = Some (canon r) \<Longrightarrow> k st'"
  shows "rec_ok ops r k st"
  using assms by (intro rec_ok_rule [OF assms(1)]) (simp_all add: suite_run_def)

lemma suite_mk_a [simp]: "clock_range now \<Longrightarrow> suite_run (mk ''a'' ''p'' (now n))"
  by (simp add: clock_in_int64 visible_def)

lemma retryable_mk [simp]: "retryable (mk i p t)"
  by (simp add: retryable_def no_nan_def map_keys_sorted_def)

lemma suite_record_twice:
  assumes "models st Map.empty" "clock_range now"
  shows "t_record_twice ops now st"
  unfolding t_record_twice_def Let_def
proof (rule suite_record_one [OF assms(1) suite_mk_a [OF assms(2)]])
  fix st'
  assume m: "models st' [''a'' \<mapsto> NormalizeCapture (mk ''a'' ''p'' (now 0))]" "content st' ''a'' = Some (canon (mk ''a'' ''p'' (now 0)))"
  show "rec_ok ops (mk ''a'' ''p'' (now 0)) passed st'"
    using suite_mk_a [OF assms(2), of 0] m(2) by (intro rec_retry_rule [OF m(1), where r = "mk ''a'' ''p'' (now 0)"]) (simp_all add: suite_run_def passed_def)
qed simp

lemma suite_record_conflict:
  assumes "models st Map.empty" "clock_range now"
  shows "t_record_conflict ops now st"
  unfolding t_record_conflict_def Let_def
proof (rule suite_record_one [OF assms(1) suite_mk_a [OF assms(2)]])
  fix st' assume m: "models st' [''a'' \<mapsto> NormalizeCapture (mk ''a'' ''p'' (now 0))]"
  show "rec_err ops ((mk ''a'' ''p'' (now 0))\<lparr>Status := StatusFailed\<rparr>) is_conflict passed st'"
    by (rule rec_conflict_rule [OF m, of _ "NormalizeCapture (mk ''a'' ''p'' (now 0))"])
      (simp_all add: passed_def status_defs, rule suite_run_valid [where i = "''a''"], simp_all add: visible_def status_defs ValidStatus_def validStatuses_def)
qed simp

lemma suite_record_invalid:
  assumes "models st Map.empty"
  shows "t_record_invalid ops now st"
  unfolding t_record_invalid_def
  by (rule rec_invalid_rule [OF assms, of _ ProjectRequired]) (simp_all add: Validate_def zero_run_def passed_def)

section \<open>Capture declarations\<close>

lemma sorted_captures:
  "sort [''host'', ''device'', ''framework_version''] = [''device'', ''framework_version'', ''host'']"
  "sort [''framework_version'', ''device'', ''host''] = [''device'', ''framework_version'', ''host'']"
  by code_simp+

lemma by_run_id_other: "i \<notin> RunID ` set xs \<Longrightarrow> fmlookup (foldl (\<lambda>m r. fmupd (RunID r) r m) m xs) i = fmlookup m i"
  by (induction xs arbitrary: m) auto

lemma by_run_id_lookup:
  "distinct (map RunID xs) \<Longrightarrow> x \<in> set xs \<Longrightarrow> fmlookup (foldl (\<lambda>m r. fmupd (RunID r) r m) m xs) (RunID x) = Some x"
  by (induction xs arbitrary: m) (auto simp: by_run_id_other)

lemma list_all2_member: "list_all2 P xs ys \<Longrightarrow> x \<in> set xs \<Longrightarrow> \<exists>y \<in> set ys. P x y"
  by (induction rule: list_all2_induct) auto

lemma capture_at_indistinct:
  assumes "list_all2 indistinct zs (pg_Runs pg)" "distinct (map RunID zs)" "z \<in> set zs"
  shows "\<exists>x. indistinct z x \<and> capture_at (by_run_id pg) (RunID z) = Capture x"
proof -
  obtain x where x: "x \<in> set (pg_Runs pg)" "indistinct z x" using list_all2_member [OF assms(1,3)] by blast
  have "distinct (map RunID (pg_Runs pg))" using assms(2) indistinct_ids [OF assms(1)] by simp
  then have "fmlookup (by_run_id pg) (RunID x) = Some x" unfolding by_run_id_def using x(1) by (rule by_run_id_lookup)
  moreover have "RunID x = RunID z" using indistinct_fields [OF x(2)] by simp
  ultimately show ?thesis using x(2) by (auto simp: capture_at_def)
qed

lemma capture_indistinct:
  assumes "indistinct r x" "Capture r = Some c"
  shows "\<exists>d. Capture x = Some d \<and> Client d = Client c \<and> slice (Attempted d) = slice (Attempted c)"
  using Capture_face(2) [OF indistinct_face [OF assms(1)] assms(2)] .

lemma suite_capture_reordered:
  assumes "models st Map.empty" "clock_range now"
  shows "t_capture_reordered ops now st"
proof -
  let ?r = "recompute ((mk ''a'' ''p'' (now 0))\<lparr>Capture := Some (capture_of [] [''host'', ''device'', ''framework_version''])\<rparr>)"
  let ?s = "?r\<lparr>Capture := Some (capture_of [] [''framework_version'', ''device'', ''host''])\<rparr>"
  have ok: "suite_run ?r"
    using suite_run_valid [of ?r "''a''"]
    by (simp add: suite_run_def suite_run_exact clock_in_int64 [OF assms(2)] visible_def CaptureFields_def)
  have norm: "NormalizeCapture ?s = NormalizeCapture ?r"
    by (simp add: NormalizeCapture_def sorted_captures)
  have retry: "retryable ?r" by (simp add: retryable_def no_nan_def map_keys_sorted_def)
  show ?thesis unfolding t_capture_reordered_def Let_def
  proof (rule suite_record_one [OF assms(1) ok])
    fix st' assume m: "models st' [''a'' \<mapsto> NormalizeCapture ?r]" "content st' ''a'' = Some (canon ?r)"
    show "rec_ok ops ?s passed st'"
      using ok retry norm m(2) by (intro rec_retry_rule [OF m(1), where r = ?r]) (simp_all add: suite_run_def passed_def)
  qed simp
qed

lemma suite_capture_roundtrip:
  assumes "models st Map.empty" "clock_range now"
  shows "t_capture_roundtrip ops now st"
proof -
  let ?r = "recompute ((mk ''a'' ''p'' (now 0))\<lparr>Capture := Some (capture_of ''runledger-py/0.1.0'' [''host'', ''device'', ''framework_version''])\<rparr>)"
  let ?u = "mk ''b'' ''p'' (now 1)"
  let ?a = "NormalizeCapture ?r"
  have ok: "suite_run ?r"
    using suite_run_valid [of ?r "''a''"]
    by (simp add: suite_run_def suite_run_exact clock_in_int64 [OF assms(2)] visible_def CaptureFields_def)
  have ok': "suite_run ?u" by (simp add: clock_in_int64 [OF assms(2)] visible_def)
  have cap: "Capture ?a = Some (capture_of ''runledger-py/0.1.0'' [''device'', ''framework_version'', ''host''])"
    by (simp add: NormalizeCapture_def sorted_captures)
  have norm: "NormalizeCapture ?u = ?u" by (simp add: NormalizeCapture_none)
  let ?A = "fold ref_record [?r, ?u] Map.empty"
  have A: "?A ''a'' = Some ?a" "?A ''b'' = Some ?u" by (simp_all add: ref_record_def NormalizeCapture_none)
  define kl where "kl = list_ok ops query_p (\<lambda>pg.
       check (case capture_at (by_run_id pg) ''a'' of None \<Rightarrow> False | Some c \<Rightarrow> length (slice (Attempted c)) = 3)
        (check (capture_at (by_run_id pg) ''b'' = None) passed))"
  have listed: "kl st'" if m: "models st' ?A" for st'
  proof -
    obtain zs where zs: "is_listing query_p ?A zs" using list_models [OF m, of query_p] by (auto simp: match_simps)
    have set: "set zs = {?a, ?u}"
    proof -
      have "set zs = {z \<in> NormalizeCapture ` set [?r, ?u]. query_match query_p z \<and> after_ok query_p z}"
        using zs is_listing_recorded [of "[?r, ?u]"] by simp
      also have "\<dots> = {?a, ?u}" by (auto simp: NormalizeCapture_none match_simps)
      finally show ?thesis .
    qed
    show ?thesis unfolding kl_def
    proof (rule list_ok_rule [OF m _ zs])
      fix pg :: page assume pg: "list_all2 indistinct zs (pg_Runs pg)"
      have "distinct zs" using zs listing_irrefl by (simp add: is_listing_def)
      then have dist: "distinct (map RunID zs)" by (auto simp: distinct_map set inj_on_def)
      obtain x where x: "indistinct ?a x" "capture_at (by_run_id pg) ''a'' = Capture x"
        using capture_at_indistinct [OF pg dist, of ?a] by (auto simp: set)
      obtain y where y: "indistinct ?u y" "capture_at (by_run_id pg) ''b'' = Capture y"
        using capture_at_indistinct [OF pg dist, of ?u] by (auto simp: set)
      show "check (case capture_at (by_run_id pg) ''a'' of None \<Rightarrow> False | Some c \<Rightarrow> length (slice (Attempted c)) = 3)
          (check (capture_at (by_run_id pg) ''b'' = None) passed) st'"
        using capture_indistinct [OF x(1) cap] Capture_face(1) [OF indistinct_face [OF y(1)]]
        by (auto simp: check_def passed_def x(2) y(2))
    qed (simp_all add: match_simps)
  qed
  have got_b: "get_ok ops ''b'' (\<lambda>got'. check (Capture got' = None) kl) st'" if m: "models st' ?A" for st'
    by (rule get_ok_rule [OF m A(2)]) (simp add: check_def listed [OF m] Capture_face(1) [OF indistinct_face])
  have "get_ok ops ''a'' (\<lambda>got. check (case Capture got of None \<Rightarrow> False
             | Some c \<Rightarrow> Client c = ''runledger-py/0.1.0'' \<and> slice (Attempted c) = [''device'', ''framework_version'', ''host''])
        (get_ok ops ''b'' (\<lambda>got'. check (Capture got' = None) kl))) st'" if m: "models st' ?A" for st'
    by (rule get_ok_rule [OF m A(1)]) (use capture_indistinct [OF _ cap] in \<open>force simp: check_def got_b [OF m]\<close>)
  then show ?thesis unfolding t_capture_roundtrip_def Let_def rec_ok_two kl_def [symmetric]
    by (intro suite_records(1) [OF assms(1)]) (use ok ok' in simp_all)
qed

end

end
