(* ===== verification/Conformance_Updates.thy ===== *)
theory Conformance_Updates
  imports Conformance_Suite
begin

text \<open>
  The subtests of \<open>RunConformance\<close> that patch a run, on every \<open>conforming_store\<close>.
\<close>

section \<open>Patches of the suite\<close>

lemma applyPatch_accepts:
  assumes "checkIdentityUnchanged r p = None" "\<not> Terminal (Status r)" "Validate r = None" "ValidStatus (Status r)"
    and "set_if (p_Status p) (Status r) = s" "s = Status r \<or> legalTransitions (Status r) s"
    and "\<And>t. EndedAt (patch_fields now r p s) = Some t \<Longrightarrow> t_ns (StartedAt r) \<le> t_ns t"
  shows "applyPatch now r p = Inr (patch_fields now r p s)"
proof -
  have s: "ValidStatus s" using assms(4,6) by (auto simp: legalTransitions_def)
  then have "\<not> (case p_Status p of None \<Rightarrow> False | Some s \<Rightarrow> \<not> ValidStatus s)"
    and "\<not> (differs (p_Status p) (Status r) \<and> \<not> legalTransitions (Status r) (the (p_Status p)))"
    using assms(5,6) by (cases "p_Status p"; auto)+
  moreover have "Validate (patch_fields now r p s) = None"
    using assms(3,7) s by (simp add: Validate_None_iff)
  ultimately show ?thesis using assms(1,2,5) by (simp add: applyPatch_def Let_def)
qed

lemma patch_fields_EndedAt:
  "EndedAt (patch_fields now r p s) =
     (case p_EndedAt p of Some t \<Rightarrow> Some t
      | None \<Rightarrow> (case EndedAt r of Some t \<Rightarrow> Some t | None \<Rightarrow> if Terminal s then Some now else None))"
  by (simp add: patch_fields_def Let_def split: option.splits)

lemma patch_fields_strings [simp]:
  "JobID (patch_fields now r p s) = set_if (p_JobID p) (JobID r)"
  "SubmitterClaim (patch_fields now r p s) = set_if (p_SubmitterClaim p) (SubmitterClaim r)"
  by (simp_all add: patch_fields_def Let_def)

lemma patch_simps [simp]:
  "p_Project empty_patch = None" "p_GitCommit empty_patch = None" "p_GitDirty empty_patch = None" "p_ConfigHash empty_patch = None"
  "p_DatasetVersion empty_patch = None" "p_ModelVersion empty_patch = None" "p_Seed empty_patch = None" "p_Params empty_patch = None"
  "p_Status empty_patch = None" "p_EndedAt empty_patch = None" "p_CheckpointURI empty_patch = None" "p_Host empty_patch = None"
  "p_Device empty_patch = None" "p_FrameworkVersion empty_patch = None" "p_SubmitterClaim empty_patch = None" "p_JobID empty_patch = None"
  "p_Metrics empty_patch = None"
  by (simp_all add: empty_patch_def)

lemma statuses_distinct [simp]:
  "StatusCreated \<noteq> StatusRunning" "StatusCreated \<noteq> StatusSucceeded" "StatusRunning \<noteq> StatusSucceeded"
  "StatusRunning \<noteq> StatusCreated" "StatusSucceeded \<noteq> StatusCreated" "StatusSucceeded \<noteq> StatusRunning"
  "StatusCancelled \<noteq> StatusSucceeded" "\<not> ValidStatus ''bogus''"
  by (simp_all add: status_defs ValidStatus_def validStatuses_def)

lemma metrics_lit_get [simp]: "map_get (metrics_lit k v) i = (if i = k then Some v else None)"
  by (simp add: metrics_lit_def)

lemma metrics_lit_keys [simp]: "map_keys_sorted (metrics_lit k v) = [k]"
  by (simp add: metrics_lit_def map_keys_sorted_def fmap_of_list.rep_eq sorted_list_of_fset.rep_eq)

lemma metric_constants [simp]:
  "\<not> is_nan f0_1" "\<not> is_nan f0_2" "\<not> is_nan f0_4" "\<not> is_nan f0_5" "\<not> is_nan f0_9" "\<not> is_nan f1_0" "\<not> f64_eq f0_4 f0_9"
  by code_simp+

text \<open>What a read of a metric gives on a run that is indistinct from one with a known value.\<close>

lemma metric_at_indistinct:
  assumes "indistinct r x" "map_get (Metrics r) k = Some v" "\<not> is_nan v"
  shows "f64_eq (metric_at (Metrics x) k) v"
proof -
  have "rel_option same_value (Some v) (map_get (Metrics x) k)" using assms(1,2) unfolding indistinct_def by metis
  then show ?thesis using assms(3)
    by (cases "map_get (Metrics x) k") (auto simp: metric_at_def same_value_def f64_eq_def)
qed

lemma EndedAt_indistinct:
  assumes "indistinct r x" "EndedAt r = Some t"
  shows "\<exists>u. EndedAt x = Some u \<and> t_ns u = t_ns t"
  using indistinct_fields [OF assms(1)] assms(2) by (cases "EndedAt x") auto

text \<open>The run that finished with a loss of 0.4, and what follows.\<close>

definition finished :: "clock \<Rightarrow> run" where
  "finished now = patch_fields (now 1) (running_with_loss now) finish_with_loss StatusSucceeded"

lemma finished_simps:
  "Status (finished now) = StatusSucceeded" "map_get (Metrics (finished now)) k = (if k = ''loss'' then Some f0_4 else None)"
  "EndedAt (finished now) = Some (now 1)" "GitCommit (finished now) = ''ca''"
  by (simp_all add: finished_def running_with_loss_def finish_with_loss_def status_patch_def patch_fields_get_metric patch_fields_EndedAt)

context conforming_store
begin

lemma suite_upd_accept:
  assumes m: "models st [''a'' \<mapsto> r]"
    and "checkIdentityUnchanged r p = None" "\<not> Terminal (Status r)" "ValidStatus (Status r)"
    and "set_if (p_Status p) (Status r) = s" "s = Status r \<or> legalTransitions (Status r) s"
    and ended: "\<And>t. EndedAt (patch_fields now r p s) = Some t \<Longrightarrow> in_int64 t \<and> t_ns (StartedAt r) \<le> t_ns t"
    and u: "u = patch_fields now r p s"
    and k: "\<And>v st'. indistinct u v \<Longrightarrow> models st' [''a'' \<mapsto> u] \<Longrightarrow> k v st'"
  shows "upd_ok ops now ''a'' p k st"
proof (rule upd_ok_rule [OF m])
  have r: "entry ''a'' r" using models_Some(2) [OF m, of "''a''"] by simp
  show "applyPatch now r p = Inr (patch_fields now r p s)"
    using r ended by (intro applyPatch_accepts) (use assms(2-6) in \<open>auto simp: entry_def\<close>)
  have "pred_option in_int64 (EndedAt (patch_fields now r p s))" using ended by (cases "EndedAt (patch_fields now r p s)") auto
  then show "exact_run (patch_fields now r p s)" using r by (simp add: entry_def exact_run_def)
qed (use k u in simp_all)

lemma suite_upd_refuse:
  assumes "models st [''a'' \<mapsto> r]" "applyPatch now r p = Inl e" "P e" "k st"
  shows "upd_err ops now ''a'' p P k st"
  using assms(2-4) by (intro upd_err_rule [OF assms(1), where r = r]) simp_all

lemma suite_update_unknown:
  assumes "models st Map.empty"
  shows "t_update_unknown ops now st"
  unfolding t_update_unknown_def by (rule upd_missing_rule [OF assms]) (simp_all add: errors_Is_def passed_def)

lemma suite_lifecycle:
  assumes "models st Map.empty" "clock_ok now"
  shows "t_lifecycle ops now st"
  unfolding t_lifecycle_def
proof (rule suite_record_one [OF assms(1)])
  have range: "clock_range now" using assms(2) by (simp add: clock_ok_def)
  let ?r = "(mk ''a'' ''p'' (now 0))\<lparr>Status := StatusCreated\<rparr>"
  show "suite_run ?r" using suite_run_valid [of ?r "''a''"]
    by (simp add: suite_run_def suite_run_exact clock_in_int64 [OF range] visible_def)
  let ?p = "(status_patch StatusSucceeded)\<lparr>p_EndedAt := Some (now 2), p_Metrics := metrics_lit ''loss'' f0_1\<rparr>"
  define u where "u = patch_fields (now 1) ?r (status_patch StatusRunning) StatusRunning"
  define w where "w = patch_fields (now 3) u ?p StatusSucceeded"
  have w: "Status w = StatusSucceeded" "map_get (Metrics w) ''loss'' = Some f0_1" "EndedAt w = Some (now 2)"
    by (simp_all add: w_def patch_fields_get_metric patch_fields_EndedAt)
  have seen: "Status x = StatusSucceeded \<and> f64_eq (metric_at (Metrics x) ''loss'') f0_1" if "indistinct w x" for x
    using metric_at_indistinct [OF that w(2)] indistinct_fields [OF that] w(1) by simp
  let ?reread = "get_ok ops ''a'' (\<lambda>reGot. check (Status reGot = StatusSucceeded \<and> f64_eq (metric_at (Metrics reGot) ''loss'') f0_1) passed)"
  let ?finish = "upd_ok ops (now 3) ''a'' ?p (\<lambda>got.
        check (Status got = StatusSucceeded \<and> f64_eq (metric_at (Metrics got) ''loss'') f0_1)
       (check (case EndedAt got of None \<Rightarrow> False | Some t \<Rightarrow> Equal t (now 2)) ?reread))"
  have read: "?reread st'" if "models st' [''a'' \<mapsto> w]" for st'
    by (rule get_ok_rule [OF that, where r = w]) (simp_all add: check_def passed_def seen)
  have fin: "?finish st'" if "models st' [''a'' \<mapsto> u]" for st'
  proof (rule suite_upd_accept [OF that, where s = StatusSucceeded and u = w])
    fix v st'' assume v: "indistinct w v" and "models st'' [''a'' \<mapsto> w]"
    then show "check (Status v = StatusSucceeded \<and> f64_eq (metric_at (Metrics v) ''loss'') f0_1)
       (check (case EndedAt v of None \<Rightarrow> False | Some t \<Rightarrow> Equal t (now 2)) ?reread) st''"
      using seen [OF v] read EndedAt_indistinct [OF v w(3)] by (auto simp: check_def Equal_def)
  qed (use w clock_okD(3) [OF assms(2), of 0 2] in \<open>simp_all add: w_def u_def checkIdentityUnchanged_def status_patch_def legalTransitions_def clock_in_int64 [OF range]\<close>)
  show "upd_ok ops (now 1) ''a'' (status_patch StatusRunning) (\<lambda>got. check (Status got = StatusRunning) ?finish) st'"
    if m: "models st' [''a'' \<mapsto> NormalizeCapture ?r]" for st'
  proof (rule suite_upd_accept [OF m [unfolded NormalizeCapture_none [of ?r, simplified]], where s = StatusRunning and u = u])
    fix v st'' assume v: "indistinct u v" and "models st'' [''a'' \<mapsto> u]"
    then show "check (Status v = StatusRunning) ?finish st''"
      using fin indistinct_fields [OF v] by (simp add: check_def) (simp add: u_def)
  qed (simp_all add: u_def checkIdentityUnchanged_def status_patch_def legalTransitions_def patch_fields_EndedAt)
qed simp

text \<open>The other subtests start from one run under the id \<open>a\<close>.\<close>

lemma suite_start:
  assumes "models st Map.empty" "clock_ok now"
    and r: "RunID r = ''a''" "GitCommit r = ''ca''" "Project r = ''p''" "\<not> GitDirty r" "ValidStatus (Status r)" "EndedAt r = None"
      "StartedAt r = now 0" "FingerprintVersion r = CurrentFingerprintVersion" "NormalizeCapture r = r"
      "pred_option (\<lambda>c. distinct (slice (Attempted c)) \<and> set (slice (Attempted c)) \<subseteq> set CaptureFields) (Capture r)"
    and k: "\<And>st'. models st' [''a'' \<mapsto> r] \<Longrightarrow> k st'"
  shows "rec_ok ops r k st"
proof (rule suite_record_one [OF assms(1)])
  have range: "clock_range now" using assms(2) by (simp add: clock_ok_def)
  show "suite_run r" using suite_run_valid [of r "''a''"] r clock_in_int64(2) [OF range, of 0]
    by (cases "Capture r") (simp_all add: suite_run_def suite_run_exact visible_def)
  show "k st'" if "models st' [''a'' \<mapsto> NormalizeCapture r]" for st' using k that r(9) by simp
qed (rule r(1))

lemma suite_get:
  assumes "models st [''a'' \<mapsto> r]" "\<And>x. indistinct r x \<Longrightarrow> k x st"
  shows "get_ok ops ''a'' k st"
  using assms(2) by (intro get_ok_rule [OF assms(1), where r = r]) simp_all

text \<open>A patch that leaves a running run running, or finishes it, at time \<open>now n\<close>.\<close>

lemma suite_upd:
  assumes m: "models st [''a'' \<mapsto> r]" and now: "clock_ok now" and r: "Status r = StatusRunning" "EndedAt r = None" "StartedAt r = now 0"
    and p: "checkIdentityUnchanged r p = None" "p_EndedAt p = None" "set_if (p_Status p) StatusRunning = s"
      "s = StatusRunning \<or> s = StatusSucceeded"
    and u: "u = patch_fields (now n) r p s"
    and k: "\<And>v st'. indistinct u v \<Longrightarrow> models st' [''a'' \<mapsto> u] \<Longrightarrow> k v st'"
  shows "upd_ok ops (now n) ''a'' p k st"
proof (rule suite_upd_accept [OF m])
  show "in_int64 t \<and> t_ns (StartedAt r) \<le> t_ns t" if "EndedAt (patch_fields (now n) r p s) = Some t" for t
    using that clock_okD(3) [OF now, of 0 n] now clock_in_int64(2) [of now n] r(2,3) p(2)
    by (auto simp: patch_fields_EndedAt clock_ok_def split: if_splits)
qed (use r p u k in \<open>auto simp: legalTransitions_def\<close>)

lemmas patch_eval = checkIdentityUnchanged_def status_patch_def check_def passed_def

lemma suite_update_keeps_capture:
  assumes "models st Map.empty" "clock_ok now"
  shows "t_update_keeps_capture ops now st"
  unfolding t_update_keeps_capture_def Let_def
proof (rule suite_start [OF assms])
  let ?r = "recompute ((mk ''a'' ''p'' (now 0))\<lparr>Status := StatusRunning, Capture := Some (capture_of ''runledger-py/0.1.0'' [''host''])\<rparr>)"
  let ?p = "empty_patch\<lparr>p_Status := Some StatusSucceeded\<rparr>"
  fix st' assume m: "models st' [''a'' \<mapsto> ?r]"
  show "upd_ok ops (now 1) ''a'' ?p (\<lambda>got. check (case Capture got of None \<Rightarrow> False | Some c \<Rightarrow> Client c = ''runledger-py/0.1.0'') passed) st'"
  proof (rule suite_upd [OF m assms(2) _ _ _ _ _ _ _ refl])
    fix v st'' assume "indistinct (patch_fields (now 1) ?r ?p StatusSucceeded) v"
    then show "check (case Capture v of None \<Rightarrow> False | Some c \<Rightarrow> Client c = ''runledger-py/0.1.0'') passed st''"
      using capture_indistinct by (force simp: patch_eval)
  qed (simp_all add: patch_eval)
qed (simp_all add: NormalizeCapture_one CaptureFields_def)

lemma suite_attribution_patched:
  assumes "models st Map.empty" "clock_ok now"
  shows "t_attribution_patched ops now st"
  unfolding t_attribution_patched_def
proof (rule suite_start [OF assms])
  let ?r = "recompute ((mk ''a'' ''p'' (now 0))\<lparr>Status := StatusRunning, SubmitterClaim := ''alice''\<rparr>)"
  let ?p = "empty_patch\<lparr>p_JobID := Some ''ci-42''\<rparr>"
  define u where "u = patch_fields (now 1) ?r ?p StatusRunning"
  let ?read = "get_ok ops ''a'' (\<lambda>reGot. check (JobID reGot = ''ci-42'') passed)"
  let ?patch = "upd_ok ops (now 1) ''a'' ?p (\<lambda>got. check (JobID got = ''ci-42'' \<and> SubmitterClaim got = ''alice'') ?read)"
  have seen: "JobID x = ''ci-42''" "SubmitterClaim x = ''alice''" if "indistinct u x" for x
    using indistinct_fields [OF that] by (simp_all add: u_def)
  have read: "?read st'" if "models st' [''a'' \<mapsto> u]" for st'
    by (rule suite_get [OF that]) (simp add: patch_eval seen)
  fix st' assume m: "models st' [''a'' \<mapsto> ?r]"
  have "?patch st'"
    by (rule suite_upd [OF m assms(2), where s = StatusRunning and u = u])
      (simp_all add: u_def [symmetric] seen read checkIdentityUnchanged_def check_def, simp_all add: u_def)
  then show "get_ok ops ''a'' (\<lambda>got. check (SubmitterClaim got = ''alice'' \<and> JobID got = []) ?patch) st'"
    using indistinct_fields by (intro suite_get [OF m]) (force simp: check_def)
qed (simp_all add: NormalizeCapture_none)

lemma suite_unfinished_no_end:
  assumes "models st Map.empty" "clock_ok now"
  shows "t_unfinished_no_end ops now st"
  unfolding t_unfinished_no_end_def
proof (rule suite_start [OF assms])
  let ?r = "recompute ((mk ''a'' ''p'' (now 0))\<lparr>Status := StatusRunning\<rparr>)"
  fix st' assume m: "models st' [''a'' \<mapsto> ?r]"
  show "get_ok ops ''a'' (\<lambda>got. check (EndedAt got = None) passed) st'"
    using EndedAt_face(1) indistinct_face by (intro suite_get [OF m]) (force simp: patch_eval)
qed (simp_all add: NormalizeCapture_none)

lemma suite_terminal_defaults_end:
  assumes "models st Map.empty" "clock_ok now"
  shows "t_terminal_defaults_end ops now st"
  unfolding t_terminal_defaults_end_def
proof (rule suite_start [OF assms])
  let ?r = "recompute ((mk ''a'' ''p'' (now 0))\<lparr>Status := StatusRunning\<rparr>)"
  define u where "u = patch_fields (now 2) ?r (status_patch StatusSucceeded) StatusSucceeded"
  have u: "EndedAt u = Some (now 2)" by (simp add: u_def patch_fields_EndedAt status_patch_def)
  fix st' assume m: "models st' [''a'' \<mapsto> ?r]"
  show "upd_ok ops (now 2) ''a'' (status_patch StatusSucceeded) (\<lambda>got.
        case EndedAt got of
          None \<Rightarrow> (\<lambda>st. False)
        | Some t \<Rightarrow>
            check (\<not> (Before t (add (now 1) (- 5 * second_ns)) \<or> After t (add (now 3) (5 * second_ns))))
           (get_ok ops ''a'' (\<lambda>reGot. check (case EndedAt reGot of None \<Rightarrow> False | Some u \<Rightarrow> Equal u t) passed))) st'"
  proof (rule suite_upd [OF m assms(2), where s = StatusSucceeded and u = u])
    fix v st'' assume v: "indistinct u v" "models st'' [''a'' \<mapsto> u]"
    obtain t where t: "EndedAt v = Some t" "t_ns t = t_ns (now 2)" using EndedAt_indistinct [OF v(1) u] by blast
    have "get_ok ops ''a'' (\<lambda>reGot. check (case EndedAt reGot of None \<Rightarrow> False | Some u \<Rightarrow> Equal u t) passed) st''"
      using EndedAt_indistinct [OF _ u] t(2) by (intro suite_get [OF v(2)]) (force simp: patch_eval Equal_def)
    moreover have "\<not> (Before t (add (now 1) (- 5 * second_ns)) \<or> After t (add (now 3) (5 * second_ns)))"
      using clock_okD(3) [OF assms(2), of 1 2] clock_okD(3) [OF assms(2), of 2 3] t(2) by (simp add: Before_def After_def)
    ultimately show "(case EndedAt v of
          None \<Rightarrow> (\<lambda>st. False)
        | Some t \<Rightarrow>
            check (\<not> (Before t (add (now 1) (- 5 * second_ns)) \<or> After t (add (now 3) (5 * second_ns))))
           (get_ok ops ''a'' (\<lambda>reGot. check (case EndedAt reGot of None \<Rightarrow> False | Some u \<Rightarrow> Equal u t) passed))) st''"
      by (simp add: t(1) check_def)
  qed (simp_all add: patch_eval u_def)
qed (simp_all add: NormalizeCapture_none)

lemma suite_metrics_merge:
  assumes "models st Map.empty" "clock_ok now"
  shows "t_metrics_merge ops now st"
  unfolding t_metrics_merge_def
proof (rule suite_start [OF assms])
  let ?r = "recompute ((mk ''a'' ''p'' (now 0))\<lparr>Status := StatusRunning, Metrics := metrics_lit ''loss'' f1_0\<rparr>)"
  let ?p = "empty_patch\<lparr>p_Metrics := metrics_lit ''acc'' f0_5\<rparr>" and ?q = "empty_patch\<lparr>p_Metrics := metrics_lit ''loss'' f0_2\<rparr>"
  define u where "u = patch_fields (now 1) ?r ?p StatusRunning"
  define w where "w = patch_fields (now 2) u ?q StatusRunning"
  have u: "map_get (Metrics u) ''loss'' = Some f1_0" "map_get (Metrics u) ''acc'' = Some f0_5"
    by (simp_all add: u_def patch_fields_get_metric)
  have w: "map_get (Metrics w) ''loss'' = Some f0_2" "map_get (Metrics w) ''acc'' = Some f0_5"
    by (simp_all add: w_def patch_fields_get_metric u)
  let ?second = "upd_ok ops (now 2) ''a'' ?q (\<lambda>got. check (f64_eq (metric_at (Metrics got) ''loss'') f0_2 \<and> f64_eq (metric_at (Metrics got) ''acc'') f0_5) passed)"
  have second: "?second st'" if "models st' [''a'' \<mapsto> u]" for st'
  proof (rule suite_upd [OF that assms(2), where s = StatusRunning and u = w])
    fix v st'' assume "indistinct w v"
    then show "check (f64_eq (metric_at (Metrics v) ''loss'') f0_2 \<and> f64_eq (metric_at (Metrics v) ''acc'') f0_5) passed st''"
      using w metric_at_indistinct [of w v] by (simp add: check_def passed_def)
  qed (simp_all add: w_def, simp_all add: u_def patch_fields_EndedAt checkIdentityUnchanged_def)
  fix st' assume m: "models st' [''a'' \<mapsto> ?r]"
  show "upd_ok ops (now 1) ''a'' ?p
      (\<lambda>got. check (f64_eq (metric_at (Metrics got) ''loss'') f1_0 \<and> f64_eq (metric_at (Metrics got) ''acc'') f0_5) ?second) st'"
  proof (rule suite_upd [OF m assms(2), where s = StatusRunning and u = u])
    fix v st'' assume "indistinct u v" "models st'' [''a'' \<mapsto> u]"
    then show "check (f64_eq (metric_at (Metrics v) ''loss'') f1_0 \<and> f64_eq (metric_at (Metrics v) ''acc'') f0_5) ?second st''"
      using u metric_at_indistinct [of u v] second by (simp add: check_def)
  qed (simp_all add: u_def checkIdentityUnchanged_def)
qed (simp_all add: NormalizeCapture_none)

lemma suite_identity_refused:
  assumes "models st Map.empty" "clock_ok now"
  shows "t_identity_refused ops now st"
  unfolding t_identity_refused_def Let_def
proof (rule suite_start [OF assms])
  let ?r = "(mk ''a'' ''p'' (now 0))\<lparr>Status := StatusRunning\<rparr>"
  let ?same = "empty_patch\<lparr>p_GitCommit := Some (GitCommit ?r), p_Status := Some (Status ?r)\<rparr>"
  fix st' assume m: "models st' [''a'' \<mapsto> ?r]"
  have "upd_ok ops (now 2) ''a'' ?same (\<lambda>_. passed) st'"
    by (rule suite_upd [OF m assms(2), where s = StatusRunning and u = "patch_fields (now 2) ?r ?same StatusRunning"])
      (simp_all add: patch_eval)
  then show "upd_err ops (now 1) ''a'' (empty_patch\<lparr>p_GitCommit := Some ''different-commit''\<rparr>) is_conflict
      (upd_ok ops (now 2) ''a'' ?same (\<lambda>_. passed)) st'"
    by (intro suite_upd_refuse [OF m, where e = ErrIdentityConflict])
      (simp_all add: applyPatch_def checkIdentityUnchanged_def errors_Is_def)
qed (simp_all add: NormalizeCapture_none)

lemma suite_illegal_transition:
  assumes "models st Map.empty" "clock_ok now"
  shows "t_illegal_transition ops now st"
  unfolding t_illegal_transition_def
proof (rule suite_start [OF assms])
  fix st' assume m: "models st' [''a'' \<mapsto> (mk ''a'' ''p'' (now 0))\<lparr>Status := StatusCreated\<rparr>]"
  show "upd_err ops (now 1) ''a'' (status_patch StatusSucceeded) is_conflict passed st'"
    by (rule suite_upd_refuse [OF m, where e = ErrIllegalTransition])
      (simp_all add: applyPatch_def patch_eval errors_Is_def legalTransitions_def)
qed (simp_all add: NormalizeCapture_none)

lemma suite_unknown_status:
  assumes "models st Map.empty" "clock_ok now"
  shows "t_unknown_status ops now st"
  unfolding t_unknown_status_def
proof (rule suite_start [OF assms])
  fix st' assume m: "models st' [''a'' \<mapsto> (mk ''a'' ''p'' (now 0))\<lparr>Status := StatusCreated\<rparr>]"
  show "upd_err ops (now 1) ''a'' (status_patch ''bogus'') (\<lambda>e. \<not> is_conflict e) passed st'"
    by (rule suite_upd_refuse [OF m, where e = "UnknownStatus ''bogus''"])
      (simp_all add: applyPatch_def patch_eval errors_Is_def)
qed (simp_all add: NormalizeCapture_none)

text \<open>On a finished run every patch that asks for something else is refused.\<close>

lemma suite_upd_frozen:
  assumes "models st [''a'' \<mapsto> r]" "Terminal (Status r)" "\<not> isNoopPatch r p"
    and "checkIdentityUnchanged r p = None" "\<And>s. p_Status p = Some s \<Longrightarrow> ValidStatus s" "k st"
  shows "upd_err ops now ''a'' p is_conflict k st"
  using assms(2-6) by (intro suite_upd_refuse [OF assms(1), where e = ErrIllegalTransition])
    (auto simp: applyPatch_def errors_Is_def split: option.splits)

lemma suite_terminal_frozen:
  assumes "models st Map.empty" "clock_ok now"
  shows "t_terminal_frozen ops now st"
  unfolding t_terminal_frozen_def
proof (rule suite_start [OF assms])
  let ?r = "mk ''a'' ''p'' (now 0)"
  fix st' assume m: "models st' [''a'' \<mapsto> ?r]"
  have uri: "CheckpointURI ?r = []" by (simp add: mk_def zero_run_def Let_def)
  have later: "upd_err ops (now 2) ''a'' (status_patch StatusCancelled) is_conflict passed st'"
    by (rule suite_upd_frozen [OF m]) (auto simp: isNoopPatch_def patch_eval)
  show "upd_err ops (now 1) ''a'' (empty_patch\<lparr>p_CheckpointURI := Some ''s3://bucket/ckpt''\<rparr>) is_conflict
      (upd_err ops (now 2) ''a'' (status_patch StatusCancelled) is_conflict passed) st'"
    by (rule suite_upd_frozen [OF m]) (simp_all add: isNoopPatch_def checkIdentityUnchanged_def uri later)
qed (simp_all add: NormalizeCapture_none)

lemma suite_finish:
  assumes "models st Map.empty" "clock_ok now"
    and k: "\<And>v st'. indistinct (finished now) v \<Longrightarrow> models st' [''a'' \<mapsto> finished now] \<Longrightarrow> k v st'"
  shows "rec_ok ops (running_with_loss now) (upd_ok ops (now 1) ''a'' finish_with_loss k) st"
proof (rule suite_start [OF assms(1,2)])
  fix st' assume m: "models st' [''a'' \<mapsto> running_with_loss now]"
  show "upd_ok ops (now 1) ''a'' finish_with_loss k st'"
    by (rule suite_upd [OF m assms(2), where s = StatusSucceeded, OF _ _ _ _ _ _ _ finished_def])
      (use k in \<open>simp_all add: running_with_loss_def finish_with_loss_def patch_eval\<close>)
qed (simp_all add: running_with_loss_def NormalizeCapture_none)

lemma suite_terminal_other_metric:
  assumes "models st Map.empty" "clock_ok now"
  shows "t_terminal_other_metric ops now st"
  unfolding t_terminal_other_metric_def
  by (rule suite_finish [OF assms], rule suite_upd_frozen)
    (auto simp: finished_simps isNoopPatch_def checkIdentityUnchanged_def passed_def)

lemma suite_terminal_new_metric:
  assumes "models st Map.empty" "clock_ok now"
  shows "t_terminal_new_metric ops now st"
  unfolding t_terminal_new_metric_def
  by (rule suite_finish [OF assms], rule suite_upd_frozen)
    (auto simp: finished_simps isNoopPatch_def checkIdentityUnchanged_def passed_def)

lemma suite_terminal_retry:
  assumes "models st Map.empty" "clock_ok now"
  shows "t_terminal_retry ops now st"
  unfolding t_terminal_retry_def
proof (rule suite_finish [OF assms])
  fix first st' assume first: "indistinct (finished now) first" and m: "models st' [''a'' \<mapsto> finished now]"
  have "isNoopPatch (finished now) finish_with_loss"
    unfolding finished_def by (rule isNoop_after_patch)
      (simp_all add: finish_with_loss_def status_patch_def no_nan_def)
  then have again: "applyPatch (now 2) (finished now) finish_with_loss = Inr (finished now)"
    by (simp add: applyPatch_def finished_simps finish_with_loss_def patch_eval)
  have "entry ''a'' (finished now)" using models_Some(2) [OF m, of "''a''"] by simp
  then have ex: "exact_run (finished now)" by (simp add: entry_def)
  show "upd_ok ops (now 2) ''a'' finish_with_loss (\<lambda>second.
         check (Status second = StatusSucceeded \<and> f64_eq (metric_at (Metrics second) ''loss'') f0_4)
        (check (case (EndedAt second, EndedAt first) of (Some t, Some u) \<Rightarrow> Equal t u | _ \<Rightarrow> False) passed)) st'"
  proof (rule upd_ok_rule [OF m _ again ex])
    fix second st'' assume second: "indistinct (finished now) second"
    obtain t u where "EndedAt second = Some t" "t_ns t = t_ns (now 1)" "EndedAt first = Some u" "t_ns u = t_ns (now 1)"
      using EndedAt_indistinct [OF second finished_simps(3)] EndedAt_indistinct [OF first finished_simps(3)] by blast
    moreover have "Status second = StatusSucceeded" using indistinct_fields [OF second] by (simp add: finished_simps)
    moreover have "f64_eq (metric_at (Metrics second) ''loss'') f0_4"
      by (rule metric_at_indistinct [OF second]) (simp_all add: finished_simps)
    ultimately show "check (Status second = StatusSucceeded \<and> f64_eq (metric_at (Metrics second) ''loss'') f0_4)
        (check (case (EndedAt second, EndedAt first) of (Some t, Some u) \<Rightarrow> Equal t u | _ \<Rightarrow> False) passed) st''"
      by (simp add: check_def passed_def Equal_def)
  qed simp
qed

end

end
