(* ===== verification/Conformance_Concurrency.thy ===== *)
theory Conformance_Concurrency
  imports Conformance_Updates
begin

text \<open>
  The subtests of \<open>RunConformance\<close> with goroutines, and those that page: whatever the order in which
  the calls reach the store, on every \<open>conforming_store\<close>.
\<close>

section \<open>Writers of one run id\<close>

context conforming_store
begin

lemma record_new:
  assumes "models st A" "suite_run r" "A (RunID r) = None"
  shows "\<exists>st'. Record r st = (None, st') \<and> models st' (A(RunID r \<mapsto> NormalizeCapture r)) \<and> content st' (RunID r) = Some (canon r)"
  using rec_ok_rule [OF assms(1) _ _ assms(3), where k = "\<lambda>st'. models st' (A(RunID r \<mapsto> NormalizeCapture r)) \<and> content st' (RunID r) = Some (canon r)"]
    assms(2)
  by (auto simp: rec_ok_def suite_run_def split: prod.splits option.splits)

lemma record_again:
  assumes "models st A" "content st (RunID r) = Some (canon r)" "suite_run r" "retryable r"
  shows "Record r st = (None, st)"
  using record_known [OF models_inv [OF assms(1)] _ assms(2)] canon_retry [of r r] assms(3,4) by (simp add: suite_run_def)

lemma rec_errs_same: "(\<And>r. r \<in> set rs \<Longrightarrow> Record r st = (e, st)) \<Longrightarrow> rec_errs ops rs st = (replicate (length rs) e, st)"
  by (induction rs) auto

lemma one_row:
  assumes "models st [''a'' \<mapsto> r]" "Project r = ''p''"
  shows "list_ok ops query_p (\<lambda>pg. check (length (pg_Runs pg) = 1) passed) st"
proof (rule list_ok_rule [OF assms(1), where zs = "[r]"])
  show "is_listing query_p [''a'' \<mapsto> r] [r]"
    using assms(2) by (auto simp: is_listing_def match_simps split: if_splits)
qed (auto simp: match_simps check_def passed_def dest: list_all2_lengthD)

lemma suite_concurrent_identical:
  assumes "models st Map.empty" "clock_range now"
  shows "t_concurrent_identical ops now st"
proof -
  let ?r = "mk ''a'' ''p'' (now 0)"
  note ok = suite_mk_a [OF assms(2), of 0]
  obtain st' where st': "Record ?r st = (None, st')" "models st' [''a'' \<mapsto> NormalizeCapture ?r]" "content st' (RunID ?r) = Some (canon ?r)"
    using record_new [OF assms(1) ok] by auto
  have "Record ?r st' = (None, st')" by (rule record_again [OF st'(2,3) ok]) simp
  then have "rec_errs ops (replicate 63 ?r) st' = (replicate 63 None, st')" using rec_errs_same [of "replicate 63 ?r" st' None] by simp
  moreover have "replicate 64 ?r = ?r # replicate 63 ?r" by (simp flip: replicate_Suc)
  ultimately have "rec_errs ops (replicate 64 ?r) st = (None # replicate 63 None, st')" using st'(1) by (simp del: replicate.simps)
  then show ?thesis using one_row [OF st'(2)] by (simp add: t_concurrent_identical_def list_all_iff del: replicate.simps)
qed

lemma suite_concurrent_conflicting:
  assumes "models st Map.empty" "clock_range stamp" "distinct order" "set order = {..<64}"
  shows "t_concurrent_conflicting stamp order ops now st"
proof -
  let ?c = "conflicting_run stamp"
  have len: "length order = 64" using assms(3,4) distinct_card by fastforce
  then obtain i rest where order: "order = i # rest" by (cases order) auto
  have run: "suite_run (?c j)" "RunID (?c j) = ''a''" "NormalizeCapture (?c j) = ?c j" "Project (?c j) = ''p''" for j
    using suite_run_valid [of "?c j" "''a''"] clock_in_int64(2) [OF assms(2)]
    by (simp_all add: conflicting_run_def suite_run_def suite_run_exact visible_def NormalizeCapture_none)
  obtain st' where st': "Record (?c i) st = (None, st')" "models st' [''a'' \<mapsto> ?c i]"
    using record_new [OF assms(1) run(1) [of i]] run(2,3) by auto
  have "Record (?c j) st' = (Some ErrConflict, st')" if j: "j \<in> set rest" for j
  proof (rule record_conflicts [OF st'(2), of _ "?c i"])
    have "i < 64" "j < 64" "i \<noteq> j" using assms(3,4) j order by auto
    then have "(word_of_int (int i) :: 64 word) \<noteq> word_of_int (int j)"
      by (simp add: word_of_nat_eq_iff take_bit_nat_eq_self)
    then show "Status (?c i) \<noteq> Status (?c j) \<or> Seed (?c i) \<noteq> Seed (?c j)" by (simp add: conflicting_run_def)
    show "Validate (?c j) = None" using run(1) by (simp add: suite_run_def)
  qed (simp add: run(2))
  then have "rec_errs ops (map ?c rest) st' = (replicate (length rest) (Some ErrConflict), st')"
    using rec_errs_same [of "map ?c rest"] by auto
  then have "rec_errs ops (map ?c order) st = (None # replicate 63 (Some ErrConflict), st')"
    using st'(1) len by (simp add: order)
  moreover have "get_ok ops ''a'' (\<lambda>got. list_ok ops query_p (\<lambda>pg. check (length (pg_Runs pg) = 1) passed)) st'"
    by (rule suite_get [OF st'(2)]) (rule one_row [OF st'(2) run(4)])
  ultimately show ?thesis
    by (simp add: t_concurrent_conflicting_def list_all_iff errors_Is_def filter_replicate del: replicate.simps)
qed

section \<open>Reading while runs are written\<close>

lemma is_digit_visible: "is_digit c \<Longrightarrow> visible c"
  by (auto simp: is_digit_def digit_val_def visible_def Let_def split: if_splits)

lemma itoa_visible: "list_all visible (itoa n)"
  using itoa_is_digit is_digit_visible by (auto simp: list_all_iff)

lemma written_run_ok:
  assumes "clock_range stamp"
  shows "suite_run (written_run stamp i)" "RunID (written_run stamp i) = ''run-'' @ itoa i"
    "NormalizeCapture (written_run stamp i) = written_run stamp i"
  using clock_in_int64(2) [OF assms] itoa_visible
  by (simp_all add: written_run_def visible_def NormalizeCapture_none)

lemma written_intact:
  assumes "clock_range stamp" "indistinct (written_run stamp i) x"
  shows "intact x"
proof -
  have "Validate x = None" using Validate_face [OF indistinct_face [OF assms(2)]] written_run_ok(1) [OF assms(1)]
    by (simp add: suite_run_def)
  moreover have "Fingerprint (written_run stamp i) \<noteq> []"
    by (simp add: written_run_def mk_def Let_def Compute_def Compute_ranged_def length_greater_0_conv [symmetric] del: length_greater_0_conv)
  ultimately show ?thesis using indistinct_fields [OF assms(2)] by (simp add: intact_def written_run_def)
qed

lemma written_page_intact:
  assumes "models st A" "clock_range stamp" "\<And>i r. A i = Some r \<Longrightarrow> \<exists>j. r = written_run stamp j"
    and "is_listing query_p (content (seen_at ops (map (map (written_run stamp)) wss) st 0)) xs"
  shows "list_all intact xs"
proof -
  let ?bs = "map (map (written_run stamp)) wss"
  have "intact x" if x: "x \<in> set xs" for x
  proof -
    have "x \<in> ran (content (seen_at ops ?bs st 0))" using x assms(4) by (auto simp: is_listing_def ran_def)
    then have "x \<in> ran (content st) \<or> x \<in> canon ` set (concat (take 1 ?bs))"
      using seen_at_later(4) [OF models_inv [OF assms(1)]] by blast
    moreover have "set (concat (take 1 ?bs)) \<subseteq> range (written_run stamp)" by (auto dest!: in_set_takeD)
    ultimately consider (old) i where "content st i = Some x" | (new) j where "x = canon (written_run stamp j)"
      by (auto simp: ran_def)
    then show ?thesis
    proof cases
      case old
      then obtain r where r: "A i = Some r" using models_None [OF assms(1), of i] by force
      then have "indistinct r x" using models_Some(1) [OF assms(1) r] old by auto
      then show ?thesis using assms(3) [OF r] written_intact [OF assms(2)] by auto
    next
      case new
      have "exact_run (written_run stamp j)" using written_run_ok(1) [OF assms(2)] by (simp add: suite_run_def)
      then show ?thesis
        using canon_reads [of "written_run stamp j"] written_run_ok(3) [OF assms(2)] written_intact [OF assms(2)] new by simp
    qed
  qed
  then show ?thesis by (simp add: list_all_iff)
qed

lemma written_ids: "clock_range stamp \<Longrightarrow> distinct (map RunID (map (written_run stamp) is)) = distinct is"
  by (simp add: comp_def written_run_ok(2) distinct_map inj_on_def)

lemma suite_events:
  assumes "models st A" "clock_range stamp" "\<And>i r. A i = Some r \<Longrightarrow> \<exists>j. r = written_run stamp j"
    and "distinct (writes es)" "\<And>i. i \<in> set (writes es) \<Longrightarrow> A (''run-'' @ itoa i) = None"
    and k: "\<And>st'. models st' (fold ref_record (map (written_run stamp) (writes es)) A) \<Longrightarrow> k st'"
  shows "run_events ops during stamp es k st"
  using assms
proof (induction es arbitrary: st A rule: writes.induct)
  case (2 wss es)
  let ?w = "written_run stamp" let ?bs = "map (map ?w) wss" let ?A = "fold ref_record (map ?w (concat wss)) A"
  note w = written_run_ok [OF "2.prems"(2)]
  have bs: "concat ?bs = map ?w (concat wss)" by (simp add: map_concat)
  obtain xs where xs: "is_listing query_p (content (seen_at ops ?bs st 0)) xs"
      "during query_p (seen_at ops ?bs st) = Inr (paginate xs (q_Limit query_p))"
    using fetch_listing [OF models_inv [OF "2.prems"(1)], of query_p] exact_listable [of query_p] by (auto simp: match_simps)
  have "rec_all ops (map ?w (concat wss)) (run_events ops during stamp es k) st"
  proof (rule rec_all_rule(1) [OF "2.prems"(1)])
    show "exact_run r \<and> Validate r = None" if "r \<in> set (map ?w (concat wss))" for r
      using that w(1) by (auto simp: suite_run_def)
    show ids: "distinct (map RunID (map ?w (concat wss)))" using "2.prems"(4) by (simp only: written_ids [OF "2.prems"(2)] writes.simps) simp
    show fresh: "A (RunID r) = None" if "r \<in> set (map ?w (concat wss))" for r
    proof -
      obtain j where "j \<in> set (concat wss)" "r = ?w j" using \<open>r \<in> set (map ?w (concat wss))\<close> unfolding set_map by blast
      then show ?thesis using "2.prems"(5) [of j] w(2) by simp
    qed
    fix st' assume m: "models st' ?A"
    have ran: "(\<exists>i. ?A i = Some z) \<longleftrightarrow> (\<exists>i. A i = Some z) \<or> z \<in> NormalizeCapture ` set (map ?w (concat wss))" for z
      using ref_record_ran [of "map ?w (concat wss)" A z, OF ids] fresh by blast
    show "run_events ops during stamp es k st'"
    proof (rule "2.IH" [OF m "2.prems"(2)])
      show "\<exists>j. r = ?w j" if "?A i = Some r" for i r using ran [of r] that "2.prems"(3) w(3) by auto
      show "?A (''run-'' @ itoa i) = None" if i: "i \<in> set (writes es)" for i
      proof (rule ccontr)
        assume "?A (''run-'' @ itoa i) \<noteq> None"
        then obtain z where z: "?A (''run-'' @ itoa i) = Some z" by blast
        then have id: "RunID z = ''run-'' @ itoa i" using models_Some(2) [OF m] by (simp add: entry_def)
        from z ran [of z] consider (old) j where "A j = Some z" | (new) j where "j \<in> set (concat wss)" "z = ?w j"
          using w(3) by auto
        then show False
        proof cases
          case old
          then have "j = ''run-'' @ itoa i" using models_Some(2) [OF "2.prems"(1)] id by (simp add: entry_def)
          then show False using "2.prems"(5) [of i] i old by simp
        next
          case new
          then show False using id w(2) "2.prems"(4) i by auto
        qed
      qed
      show "k st''" if "models st'' (fold ref_record (map ?w (writes es)) ?A)" for st''
        using "2.prems"(6) [of st''] that by simp
    qed (use "2.prems"(4) in simp)
  qed
  moreover have "pg_Runs (paginate xs (q_Limit query_p)) = xs" by (simp add: paginate_def match_simps)
  ultimately show ?case
    using xs(2) written_page_intact [OF "2.prems"(1-3) xs(1)] by (simp add: Let_def bs)
next
  case (3 i es)
  note w = written_run_ok [OF "3.prems"(2), of i]
  have fresh: "A (RunID (written_run stamp i)) = None" using "3.prems"(5) w by simp
  obtain st' where st': "Record (written_run stamp i) st = (None, st')" "models st' (A(RunID (written_run stamp i) \<mapsto> written_run stamp i))"
    using record_new [OF "3.prems"(1) w(1) fresh] w(3) by auto
  have "run_events ops during stamp es k st'"
  proof (rule "3.IH" [OF st'(2) "3.prems"(2)])
    show "k st''" if "models st'' (fold ref_record (map (written_run stamp) (writes es)) (A(RunID (written_run stamp i) \<mapsto> written_run stamp i)))" for st''
      using "3.prems"(6) [of st''] that ref_record_fresh [of A "written_run stamp i", OF fresh] w(3) by simp
  qed (use "3.prems"(3,4,5) w in \<open>auto split: if_splits\<close>)
  then show ?case by (simp add: rec_ok_def st'(1))
qed simp

lemma suite_no_torn_reads:
  assumes "models st Map.empty" "clock_range stamp" "distinct (writes es)" "set (writes es) = {..<64}"
  shows "t_no_torn_reads during stamp es ops now st"
  unfolding t_no_torn_reads_def
proof (rule suite_events [OF assms(1,2) _ assms(3)])
  let ?w = "written_run stamp" let ?A = "fold ref_record (map ?w (writes es)) Map.empty"
  fix st' assume m: "models st' ?A"
  obtain zs where zs: "is_listing query_p ?A zs" using list_models [OF m, of query_p] by (auto simp: match_simps)
  note w = written_run_ok [OF assms(2)]
  have ids: "distinct (map RunID (map ?w (writes es)))" using assms(3) written_ids [OF assms(2)] by blast
  have "set zs = {z \<in> NormalizeCapture ` set (map ?w (writes es)). query_match query_p z \<and> after_ok query_p z}"
    using zs is_listing_recorded [OF ids] by simp
  also have "NormalizeCapture ` set (map ?w (writes es)) = ?w ` {..<64}" by (simp add: image_image w(3) assms(4))
  also have "{z \<in> ?w ` {..<64}. query_match query_p z \<and> after_ok query_p z} = ?w ` {..<64}"
    by (auto simp: match_simps written_run_def)
  finally have "set zs = ?w ` {..<64}" .
  moreover have "inj_on ?w {..<64}" by (rule inj_onI) (metis w(2) append_same_eq append_eq_append_conv itoa_inject same_append_eq)
  moreover have "distinct zs" using zs listing_irrefl by (simp add: is_listing_def)
  ultimately have "length zs = 64" by (metis card_image card_lessThan distinct_card)
  then show "list_ok ops query_p (\<lambda>pg. check (length (pg_Runs pg) = 64) passed) st'"
    by (intro list_ok_rule [OF m _ zs]) (auto simp: match_simps check_def passed_def dest: list_all2_lengthD)
qed simp_all

section \<open>Following the cursor\<close>

lemma suite_window_paging:
  assumes "models st Map.empty"
  shows "t_window_paging ops now st"
proof -
  let ?r = "\<lambda>i. mk (''run-'' @ itoa i) ''p'' (add base_2024 (int i * minute_ns))"
  let ?out = "[mk ''too-early'' ''p'' (add base_2024 (- hour_ns)), mk ''too-late'' ''p'' (add base_2024 hour_ns)]"
  have upt: "[0..<5] = [0, 1, 2, 3, 4 :: nat]" by (simp add: upt_rec)
  have itoa: "itoa 0 = ''0''" "itoa (Suc 0) = ''1''" "itoa 2 = ''2''" "itoa 3 = ''3''" "itoa 4 = ''4''" by code_simp+
  have traversed: "case traverse (\<lambda>q. so_List ops q st') 6 window_query of None \<Rightarrow> False
        | Some pages \<Rightarrow> map RunID (concat pages) = [''run-4'', ''run-3'', ''run-2'', ''run-1'', ''run-0'']"
    if m: "models st' (fold ref_record (map ?r [0..<5] @ ?out) Map.empty)" for st'
  proof -
    have exact: "exact_query window_query" by (simp add: window_query_def match_simps base_in_int64)
    have L: "is_listing window_query (fold ref_record (map ?r [0..<5] @ ?out) Map.empty) (map ?r [4, 3, 2, 1, 0])"
      by (rule suite_listing)
        (simp_all add: upt itoa NormalizeCapture_none order_simps window_query_def match_simps base_2024_def insert_commute)
    obtain xs where xs: "is_listing window_query (content st') xs" "list_all2 indistinct (map ?r [4, 3, 2, 1, 0]) xs"
      using list_models [OF m exact] listing_unique [OF L] by blast
    have "length xs < 6" using list_all2_lengthD [OF xs(2)] by simp
    then obtain pages where "traverse (\<lambda>q. ListRuns q st') 6 window_query = Some pages" "concat pages = xs"
      using traverse_complete [OF models_inv [OF m] exact_listable [OF exact] _ xs(1)] by (auto simp: window_query_def)
    then show ?thesis using indistinct_ids [OF xs(2)] by (simp add: itoa)
  qed
  show ?thesis unfolding t_window_paging_def
    by (rule suite_records(2) [OF assms])
      (use traversed in \<open>simp_all add: upt itoa base_in_int64 visible_def\<close>)
qed

section \<open>Paging while rows are inserted\<close>

lemma concat_batches: "concat (batches now k ns) = map (inserted now) [k..<k + sum_list ns]"
proof (induction ns arbitrary: k)
  case (Cons n ns)
  have "[k..<k + n + sum_list ns] = [k..<k + n] @ [k + n..<k + n + sum_list ns]" by (rule upt_add_eq_append) simp
  with Cons show ?case by (simp add: add.assoc)
qed simp

lemma concat_fetches: "concat (concat (fetches now k nss)) = map (inserted now) [k..<k + sum_list (concat nss)]"
proof (induction nss arbitrary: k)
  case (Cons ns nss)
  have "[k..<k + sum_list ns + sum_list (concat nss)] = [k..<k + sum_list ns] @ [k + sum_list ns..<k + sum_list ns + sum_list (concat nss)]"
    by (rule upt_add_eq_append) simp
  with Cons show ?case by (simp add: concat_batches add.assoc)
qed simp

lemma length_fetches: "length (fetches now k nss) = length nss"
  by (induction nss arbitrary: k) simp_all

text \<open>The rows there at the first statement, and those that come later.\<close>

lemma fetches_first:
  "concat (take 1 (batches now 0 ns)) = map (inserted now) [0..<sum_list (take 1 ns)]"
  by (cases ns) simp_all

lemma fetches_later:
  "later_runs (batches now 0 ns) (fetches now (sum_list ns) nss) =
     map (inserted now) [sum_list (take 1 ns)..<sum_list (concat (ns # nss))]"
proof (cases ns)
  case (Cons n ms)
  have "[n..<n + (sum_list ms + sum_list (concat nss))] =
      [n..<n + sum_list ms] @ [n + sum_list ms..<n + (sum_list ms + sum_list (concat nss))]"
    using upt_add_eq_append [of n "n + sum_list ms" "sum_list (concat nss)"] by (simp add: add.assoc)
  with Cons show ?thesis by (simp add: later_runs_def concat_batches concat_fetches add.assoc)
qed (simp add: later_runs_def concat_fetches)

lemma pre_existing_ids: "distinct (map RunID (map (pre_existing now) [0..<40]))" "list_all (\<lambda>i. list_all visible (''pre-'' @ pad0 3 (itoa i))) [0..<40]"
proof -
  have "distinct (map (\<lambda>i. ''pre-'' @ pad0 3 (itoa i)) [0..<40])" by code_simp
  then show "distinct (map RunID (map (pre_existing now) [0..<40]))" by (simp add: pre_existing_def comp_def del: upt_rec_numeral)
  show "list_all (\<lambda>i. list_all visible (''pre-'' @ pad0 3 (itoa i))) [0..<40]" by code_simp
qed

lemma pre_existing_ok:
  assumes "clock_range now" "i < 40"
  shows "suite_run (pre_existing now i)"
proof -
  have "list_all visible (''pre-'' @ pad0 3 (itoa i))" using pre_existing_ids(2) assms(2) by (auto simp: list_all_iff)
  moreover have "in_int64 (add (now 0) (- (int (i div 2)) * second_ns))"
    by (rule clock_in_int64(1) [OF assms(1)]) (use assms(2) in simp)
  ultimately show ?thesis unfolding pre_existing_def by (intro suite_mk) (simp_all add: visible_def)
qed

text \<open>What is inserted later sorts before what is there.\<close>

lemma inserted_newer:
  assumes "clock_ok now"
  shows "list_key (inserted now i) \<le> list_key (pre_existing now k)" "j < i \<Longrightarrow> list_key (inserted now i) \<le> list_key (inserted now j)"
proof -
  have "''concurrent-'' @ s \<le> ''pre-'' @ t" for s t :: string by (simp add: less_char_def)
  moreover have "t_ns (now 0) - int (k div 2) * second_ns \<le> t_ns (now (Suc i)) + int i * millisecond_ns"
    using clock_okD(3) [OF assms, of 0 "Suc i"] by simp
  ultimately show "list_key (inserted now i) \<le> list_key (pre_existing now k)"
    by (auto simp: list_key_def inserted_def pre_existing_def less_eq_prod_def)
  show "list_key (inserted now i) \<le> list_key (inserted now j)" if "j < i"
    using clock_okD(3) [OF assms, of "Suc j" "Suc i"] that
    by (auto simp: list_key_def inserted_def less_eq_prod_def)
qed

text \<open>The store after the forty rows, and what its listing is made of once a batch came on top.\<close>

lemma pre_existing_read:
  assumes m: "models st (fold ref_record (map (pre_existing now) [0..<40]) Map.empty)" and i: "content st i = Some x"
  shows "\<exists>k < 40. indistinct (pre_existing now k) x \<and> RunID (pre_existing now k) = i"
proof -
  let ?A = "fold ref_record (map (pre_existing now) [0..<40]) Map.empty"
  obtain r where r: "?A i = Some r" using models_None [OF m, of i] i by force
  then have "r \<in> NormalizeCapture ` set (map (pre_existing now) [0..<40])"
    using ref_record_ran [OF pre_existing_ids(1) [of now], of Map.empty r] by auto
  then obtain k where k: "k < 40" "r = pre_existing now k" by (auto simp: pre_existing_def NormalizeCapture_none)
  have x: "indistinct r x" using models_Some(1) [OF m r] i by auto
  then have "RunID r = i" using stored [OF models_inv [OF m] i] indistinct_fields by simp
  with k x show ?thesis by blast
qed

lemma inserted_key:
  assumes "clock_range now" "i \<le> 10 ^ 9"
  shows "list_key (canon (inserted now i)) = list_key (inserted now i)"
proof -
  have "in_int64 (add (now (Suc i)) (int i * millisecond_ns))"
    by (rule clock_in_int64(1) [OF assms(1)]) (use assms(2) in simp)
  then have "exact_run (inserted now i)" by (simp add: inserted_def exact_run_def)
  then show ?thesis
    using list_key_face [OF indistinct_face [OF canon_reads]] by (simp add: inserted_def NormalizeCapture_none)
qed

lemma listing_at_most:
  assumes m: "models st (fold ref_record (map (pre_existing now) [0..<40]) Map.empty)"
    and inv: "inv st'" and L: "is_listing q (content st') xs"
    and ran: "ran (content st') \<subseteq> ran (content st) \<union> canon ` set b"
  shows "length xs \<le> 40 + length b"
proof -
  let ?old = "(\<lambda>k. the (content st (RunID (pre_existing now k)))) ` {..<40 :: nat}"
  have "x \<in> ?old" if "x \<in> ran (content st)" for x
  proof -
    obtain i where i: "content st i = Some x" using \<open>x \<in> ran (content st)\<close> by (auto simp: ran_def)
    from pre_existing_read [OF m i] i show ?thesis by force
  qed
  moreover have "set xs \<subseteq> ran (content st')" using L by (auto simp: is_listing_def ran_def)
  ultimately have "set xs \<subseteq> ?old \<union> canon ` set b" using ran by blast
  then have "card (set xs) \<le> card (?old \<union> canon ` set b)" by (rule card_mono [rotated]) simp
  also have "\<dots> \<le> card ?old + card (canon ` set b)" by (rule card_Un_le)
  also have "card ?old \<le> 40" using card_image_le [of "{..<40 :: nat}"] by (metis card_lessThan finite_lessThan)
  also have "card (canon ` set b) \<le> card (set b)" by (rule card_image_le) simp
  also have "card (set b) \<le> length b" by (rule card_length)
  finally show ?thesis using stored_ids_distinct [OF inv L] by (simp add: distinct_map distinct_card)
qed

lemma suite_inserts:
  assumes m: "models st (fold ref_record (map (pre_existing now) [0..<40]) Map.empty)" and clock: "clock_ok now"
    and "sum_list (concat (ns # nss)) \<le> 10 ^ 9" "40 + sum_list (take 1 ns) \<le> length nss"
  shows "\<exists>pages. traverse_under ops during (fetches now 0 (ns # nss)) (query_p\<lparr>q_Limit := 7\<rparr>) st = Some pages
    \<and> distinct (map RunID (concat pages)) \<and> (\<forall>k < 40. RunID (pre_existing now k) \<in> set (map RunID (concat pages)))"
proof -
  let ?n = "sum_list (take 1 ns)" and ?bs = "batches now 0 ns" and ?fs = "fetches now (sum_list ns) nss"
  let ?q = "query_p\<lparr>q_Limit := 7\<rparr>" and ?b = "map (inserted now) [0..<?n]" and ?pre = "pre_existing now"
  let ?A = "fold ref_record (map ?pre [0..<40]) Map.empty" let ?st = "seen_at ops ?bs st 0"
  have range: "clock_range now" using clock by (simp add: clock_ok_def)
  have inv: "inv ?st" and le: "content st \<subseteq>\<^sub>m content ?st" and ran: "ran (content ?st) \<subseteq> ran (content st) \<union> canon ` set ?b"
    using seen_at_later [OF models_inv [OF m], of ?bs] by (simp_all only: fetches_first)
  have q: "exact_query ?q" by (simp add: match_simps)
  obtain xs where L: "is_listing ?q (content ?st) xs" using list_law [OF inv exact_listable [OF q]] by blast
  have newer: "list_key (canon r) \<le> list_key x" if r: "r \<in> set (later_runs ?bs ?fs)" and x: "x \<in> set xs" for r x
  proof -
    obtain i where "i \<in> {?n..<sum_list (concat (ns # nss))}" and i1: "r = inserted now i"
      using r unfolding fetches_later set_map set_upt by blast
    then have i: "r = inserted now i" "?n \<le> i" "i < sum_list (concat (ns # nss))" by (simp_all only: atLeastLessThan_iff)
    have key: "list_key (canon (inserted now j)) = list_key (inserted now j)" if "j < sum_list (concat (ns # nss))" for j
      by (rule inserted_key [OF range]) (use that assms(3) in simp)
    have "x \<in> ran (content ?st)" using x L by (auto simp: is_listing_def ran_def)
    then consider (old) "x \<in> ran (content st)" | (batch) j where "j < ?n" "x = canon (inserted now j)" using ran by auto
    then show ?thesis
    proof cases
      case old
      then obtain j where "content st j = Some x" by (auto simp: ran_def)
      from pre_existing_read [OF m this] obtain k where "indistinct (?pre k) x" by blast
      then have "list_key x = list_key (?pre k)" using list_key_face [OF indistinct_face] by blast
      then show ?thesis using inserted_newer(1) [OF clock, of i k] key [OF i(3)] i(1) by simp
    next
      case batch
      then show ?thesis using inserted_newer(2) [OF clock, of j i] key [of j] key [OF i(3)] i by simp
    qed
  qed
  have dist: "distinct (map RunID xs)" by (rule stored_ids_distinct [OF inv L])
  have "length xs \<le> 40 + ?n" using listing_at_most [OF m inv L ran] by simp
  then have "length xs \<le> length ?fs" using assms(4) by (simp add: length_fetches)
  then obtain pages where pages: "traverse_under ops during (?bs # ?fs) ?q st = Some pages" "concat pages = xs"
    using traverse_under_snapshot [OF models_inv [OF m] exact_listable [OF q] _ L _ newer] by auto
  have "RunID (?pre k) \<in> set (map RunID xs)" if k: "k < 40" for k
  proof -
    have "\<exists>i. ?A i = Some (?pre k)"
      using ref_record_ran [OF pre_existing_ids(1) [of now], of Map.empty "?pre k"] k
      by (auto simp: image_iff pre_existing_def NormalizeCapture_none intro!: bexI [of _ k])
    then obtain i x where x: "content st i = Some x" "indistinct (?pre k) x" using models_Some(1) [OF m] by blast
    have "content ?st i = Some x" using le x(1) by (metis domI map_le_def)
    moreover have "query_match ?q x" unfolding query_match_face [OF indistinct_face [OF x(2)]]
      by (simp add: match_simps pre_existing_def)
    moreover have "after_ok ?q x" by (simp add: match_simps)
    ultimately have "x \<in> set xs" using L by (auto simp: is_listing_def)
    moreover have "RunID x = RunID (?pre k)" using indistinct_fields [OF x(2)] by simp
    ultimately show ?thesis unfolding set_map by (metis image_eqI)
  qed
  with pages dist show ?thesis by auto
qed

lemma count_list_distinct: "distinct xs \<Longrightarrow> count_list xs x = (if x \<in> set xs then 1 else 0)"
  by (induction xs) auto

lemma suite_paging_under_inserts:
  assumes "models st Map.empty" "clock_ok now" "sum_list (concat nss) \<le> 10 ^ 9" "40 + sum_list (take 1 (hd nss)) < length nss"
  shows "t_paging_under_inserts during nss ops now st"
  unfolding t_paging_under_inserts_def
proof (rule suite_records(1) [OF assms(1) pre_existing_ids(1)])
  obtain ns rest where nss: "nss = ns # rest" using assms(4) by (cases nss) auto
  fix st' assume m: "models st' (fold ref_record (map (pre_existing now) [0..<40]) Map.empty)"
  obtain pages where "traverse_under ops during (fetches now 0 nss) (query_p\<lparr>q_Limit := 7\<rparr>) st' = Some pages"
    "distinct (map RunID (concat pages))" "\<forall>k < 40. RunID (pre_existing now k) \<in> set (map RunID (concat pages))"
    using suite_inserts [OF m assms(2), of ns rest] assms(3,4) nss by auto
  then show "case traverse_under ops during (fetches now 0 nss) (query_p\<lparr>q_Limit := 7\<rparr>) st' of None \<Rightarrow> False
        | Some pages \<Rightarrow> (let seen = map RunID (concat pages)
             in list_all (\<lambda>i. count_list seen (RunID (pre_existing now i)) = 1) [0..<40]
                \<and> list_all (\<lambda>i. count_list seen i \<le> 1) seen)"
    by (simp add: Let_def list_all_iff count_list_distinct del: upt_rec_numeral)
qed (use pre_existing_ok assms(2) in \<open>auto simp: clock_ok_def list_all_iff\<close>)

end

end
