(* ===== verification/Duckdb_Interleaved.thy ===== *)
theory Duckdb_Interleaved
  imports Duckdb_Rules
begin

text \<open>
  Reads of the durable backend while others write. \<open>Get\<close> and \<open>List\<close> send several statements without a lock,
  so each may see a later database; what they return is torn only in the metrics.
\<close>

section \<open>What writers leave alone\<close>

text \<open>A recorded run keeps its row, its parameters and its attempted fields.\<close>

definition keeps :: "tables \<Rightarrow> tables \<Rightarrow> bool" where
  "keeps T T' \<longleftrightarrow> (\<forall>i row. fmlookup (t_runs T) i = Some row \<longrightarrow>
     fmlookup (t_runs T') i \<noteq> None \<and> (\<forall>k. fmlookup (t_params T') (i, k) = fmlookup (t_params T) (i, k))
     \<and> (\<forall>f. (i, f) |\<in>| t_attempted T' \<longleftrightarrow> (i, f) |\<in>| t_attempted T))"

lemma keeps_refl: "keeps T T"
  by (simp add: keeps_def)

lemma keeps_trans: "keeps S T \<Longrightarrow> keeps T U \<Longrightarrow> keeps S U"
  unfolding keeps_def by (metis not_None_eq)

lemma keeps_recorded: "fmlookup (t_runs T) (RunID r) = None \<Longrightarrow> keeps T (recorded r T)"
  unfolding keeps_def by (auto simp: recorded_lookup recorded_attempted) (simp add: recorded_def)

lemma keeps_updated: "keeps T (updated i u p row T)"
  by (simp add: keeps_def)

text \<open>What a page reads of a run whose later statements saw other tables.\<close>

lemma row_run_seen:
  assumes "tab_inv T" "fmlookup (t_runs T) (row_run_id row) = Some row" "keeps T Tp" "keeps T Ta"
  shows "row_run (seen Tp Tm Ta) row = (row_run T row)\<lparr>Metrics := kv_of (t_metrics Tm) (row_run_id row)\<rparr>"
proof -
  let ?i = "row_run_id row"
  have "kv_of (t_params Tp) ?i = kv_of (t_params T) ?i"
    using assms(2,3) by (intro kv_of_eqI) (simp_all add: keeps_def)
  moreover have "keys_of (t_attempted Ta) ?i = keys_of (t_attempted T) ?i"
    using assms(2,4) by (intro keys_of_eqI) (simp_all add: sorted_keys_of distinct_keys_of set_keys_of keeps_def)
  ultimately show ?thesis by (simp add: row_run_def seen_def)
qed

context sql_engine
begin

lemma duck_exec_tables:
  assumes "tab_inv (rel db)"
  shows "keeps (rel db) (rel (duck_exec eng db op'))"
proof (cases op')
  case (OpRecord r)
  let ?r = "NormalizeCapture r"
  show ?thesis
  proof (cases "Validate r = None \<and> tab_content (rel db) (RunID r) = None")
    case True
    then have none: "fmlookup (t_runs (rel db)) (RunID ?r) = None" by (simp add: tab_content_def)
    have rec: "duck_Record eng r db =
        (case in_tx eng (record_statements ?r) db of Inl m \<Rightarrow> (Some (Backend m), db) | Inr db' \<Rightarrow> (None, db'))"
      using True by (simp add: duck_Record_def duck_get_content [OF assms] Let_def errors_Is_def)
    note eff = record_effect [OF assms none]
    show ?thesis
    proof (cases "duck_storable ?r")
      case True
      then obtain db' where "in_tx eng (record_statements ?r) db = Inr db'" "rel db' = recorded ?r (rel db)"
        using in_tx_ok eff by metis
      then show ?thesis using keeps_recorded [OF none] by (simp add: OpRecord duck_exec_def rec)
    next
      case False
      then obtain m where "in_tx eng (record_statements ?r) db = Inl m" using in_tx_violation eff by metis
      then show ?thesis by (simp add: OpRecord duck_exec_def rec keeps_refl)
    qed
  next
    case False
    then have "snd (duck_Record eng r db) = db"
      by (cases "Validate r") (auto simp: duck_Record_def duck_get_content [OF assms] Let_def)
    then show ?thesis by (simp add: OpRecord duck_exec_def keeps_refl)
  qed
next
  case (OpUpdate now i p)
  show ?thesis
  proof (cases "tab_content (rel db) i")
    case None
    then show ?thesis by (simp add: OpUpdate duck_exec_def duck_Update_def duck_get_content [OF assms] keeps_refl)
  next
    case (Some r)
    then obtain row where row: "fmlookup (t_runs (rel db)) i = Some row" by (auto simp: tab_content_def)
    show ?thesis
    proof (cases "applyPatch now r p")
      case (Inl e)
      with Some show ?thesis by (simp add: OpUpdate duck_exec_def duck_Update_def duck_get_content [OF assms] keeps_refl)
    next
      case (Inr u)
      obtain db' where "in_tx eng (update_statements i u p) db = Inr db'" "rel db' = updated i u p row (rel db)"
        using in_tx_ok [OF update_effect [OF row]] by metis
      with Some Inr show ?thesis
        by (simp add: OpUpdate duck_exec_def duck_Update_def duck_get_content [OF assms] keeps_updated)
    qed
  qed
qed

lemma duck_history_tables:
  assumes "tab_inv (rel db)"
  shows "tab_inv (rel (foldl (duck_exec eng) db ops)) \<and> keeps (rel db) (rel (foldl (duck_exec eng) db ops))"
  using assms
proof (induction ops arbitrary: db)
  case (Cons op' ops)
  have "tab_inv (rel (duck_exec eng db op'))" using duck_history(1) [OF Cons.prems, of "[op']"] by simp
  then show ?case using Cons.IH keeps_trans [OF duck_exec_tables [OF Cons.prems, of op']] by simp
qed (simp add: keeps_refl)

lemma metrics_later:
  assumes "tab_inv (rel db)" "fmlookup (t_runs (rel db)) i \<noteq> None"
  shows "\<exists>u. duck_Get eng i db = Inr u \<and> Metrics u = kv_of (t_metrics (rel db)) i"
proof -
  obtain row where row: "fmlookup (t_runs (rel db)) i = Some row" using assms(2) by blast
  then have "row_run_id row = i" using tab_inv_rowD(1) [OF assms(1)] by blast
  then show ?thesis using row by (simp add: duck_Get_Inr [OF assms(1)] tab_content_def row_run_def)
qed

lemma list_at_later:
  assumes inv: "tab_inv (rel db)" "tab_inv (rel dbm)" and q: "duck_listable q"
    and keep: "keeps (rel db) (rel dbp)" "keeps (rel db) (rel dbm)" "keeps (rel db) (rel dba)"
  shows "\<exists>pg pg'. duck_List eng q db = Inr pg \<and> duck_List_at eng q db dbp dbm dba = Inr pg' \<and> pg_Next pg' = pg_Next pg
    \<and> list_all2 (\<lambda>r r'. \<exists>u. duck_Get eng (RunID r) dbm = Inr u \<and> r' = r\<lparr>Metrics := Metrics u\<rparr>) (pg_Runs pg) (pg_Runs pg')"
proof -
  let ?T = "rel db"
  obtain rows n nxt where rows: "\<forall>row \<in> set rows. fmlookup (t_runs ?T) (row_run_id row) = Some row"
    and at: "\<And>dbp dbm dba. duck_List_at eng q db dbp dbm dba =
         Inr \<lparr>pg_Runs = map (row_run (seen (rel dbp) (rel dbm) (rel dba))) (take n rows), pg_Next = nxt\<rparr>"
    using duck_list_at [OF inv(1) q] by blast
  have "\<exists>u. duck_Get eng (RunID (row_run ?T row)) dbm = Inr u \<and>
      row_run (seen (rel dbp) (rel dbm) (rel dba)) row = (row_run ?T row)\<lparr>Metrics := Metrics u\<rparr>" if "row \<in> set (take n rows)" for row
  proof -
    have row: "fmlookup (t_runs ?T) (row_run_id row) = Some row" using rows in_set_takeD [OF that] by blast
    then obtain u where "duck_Get eng (row_run_id row) dbm = Inr u" "Metrics u = kv_of (t_metrics (rel dbm)) (row_run_id row)"
      using metrics_later [OF inv(2), of "row_run_id row"] keep(2) unfolding keeps_def by blast
    then show ?thesis using row_run_seen [OF inv(1) row keep(1,3)] by simp
  qed
  then have "list_all2 (\<lambda>r r'. \<exists>u. duck_Get eng (RunID r) dbm = Inr u \<and> r' = r\<lparr>Metrics := Metrics u\<rparr>)
      (map (row_run ?T) (take n rows)) (map (row_run (seen (rel dbp) (rel dbm) (rel dba))) (take n rows))"
    unfolding list_all2_map1 list_all2_map2 list_all2_same by blast
  then show ?thesis using at by (simp add: duck_List_def)
qed

lemma get_at_later:
  assumes inv: "tab_inv (rel db)" "tab_inv (rel dbm)"
    and keep: "keeps (rel db) (rel dbp)" "keeps (rel db) (rel dbm)" "keeps (rel db) (rel dba)"
    and r: "duck_Get eng i db = Inr r"
  shows "\<exists>u. duck_Get eng i dbm = Inr u \<and> duck_get_at eng i db dbp dbm dba = Inr (r\<lparr>Metrics := Metrics u\<rparr>)"
proof -
  obtain row where row: "fmlookup (t_runs (rel db)) i = Some row" "r = row_run (rel db) row"
    using r by (auto simp: duck_Get_Inr [OF inv(1)] tab_content_def)
  have i: "row_run_id row = i" using tab_inv_rowD(1) [OF inv(1) row(1)] .
  obtain u where u: "duck_Get eng i dbm = Inr u" "Metrics u = kv_of (t_metrics (rel dbm)) i"
    using metrics_later [OF inv(2), of i] keep(2) row(1) by (auto simp: keeps_def)
  have "loadKV (eng_select_params eng i dbp) = Inr (kv_of (t_params (rel dbp)) i)"
    using select_params_law [of i dbp] by (auto simp: loadKV_def intro: kv_rows_eq)
  moreover have "loadKVFloat (eng_select_metrics eng i dbm) = Inr (kv_of (t_metrics (rel dbm)) i)"
    using select_metrics_law [of i dbm] by (auto simp: loadKVFloat_def intro: kv_rows_eq)
  moreover have "loadCaptureAttempted (eng_select_attempted eng i dba) = Inr (nilled (keys_of (t_attempted (rel dba)) i))"
    by (simp add: loadCaptureAttempted_def select_attempted_law nilled_def)
  moreover have "Capture (scan_row row) = None" by (simp add: scan_row_def)
  ultimately have "duck_get_at eng i db dbp dbm dba = Inr (row_run (seen (rel dbp) (rel dbm) (rel dba)) row)"
    using row(1) i by (simp add: duck_get_at_def select_run_law scanRun_def row_run_def seen_def Let_def)
  then show ?thesis using u row_run_seen [OF inv(1) _ keep(1,3), of row "rel dbm"] row i by simp
qed

lemma later_states:
  assumes "tab_inv (rel db)" "dbp = foldl (duck_exec eng) db ops1" "dbm = foldl (duck_exec eng) dbp ops2" "dba = foldl (duck_exec eng) dbm ops3"
  shows "tab_inv (rel dbm)" "keeps (rel db) (rel dbp)" "keeps (rel db) (rel dbm)" "keeps (rel db) (rel dba)"
  using duck_history_tables [OF assms(1), of ops1] duck_history_tables [OF assms(1), of "ops1 @ ops2"]
    duck_history_tables [OF assms(1), of "ops1 @ ops2 @ ops3"] by (simp_all add: assms(2-))

lemmas list_interleaved = list_at_later [OF _ later_states(1) _ later_states(2-)]
lemmas get_interleaved = get_at_later [OF _ later_states(1) later_states(2-)]

end

section \<open>Listing while others write\<close>

text \<open>
  Property C11. However writers get in between the statements of one \<open>List\<close>, it answers, with exactly the runs
  and the cursor its first statement saw, and of each run every field as it was then, except for
  the metrics, which are those of the moment the third statement ran: no identity, provenance, status or capture
  declaration is ever mixed from two versions of a run.
\<close>

theorem duckdb_list_interleaved:
  assumes "sql_engine eng rel relx" "tab_inv (rel db)" "duck_listable q"
    and "dbp = foldl (duck_exec eng) db ops1" "dbm = foldl (duck_exec eng) dbp ops2" "dba = foldl (duck_exec eng) dbm ops3"
  shows "\<exists>pg pg'. duck_List eng q db = Inr pg \<and> duck_List_at eng q db dbp dbm dba = Inr pg' \<and> pg_Next pg' = pg_Next pg
    \<and> list_all2 (\<lambda>r r'. \<exists>u. duck_Get eng (RunID r) dbm = Inr u \<and> r' = r\<lparr>Metrics := Metrics u\<rparr>) (pg_Runs pg) (pg_Runs pg')"
  using sql_engine.list_interleaved [OF assms(1,2) assms(2,4-6) assms(3) assms(2,4-6) assms(2,4-6) assms(2,4-6)] .

text \<open>Between the first and the third statement the run of the example is finished, with a loss.\<close>

definition finishing :: store_op where
  "finishing = OpUpdate sample_now ''run_1'' sample_patch"

lemma sample_listing:
  "duck_listable empty_query"
  "duck_List tab_engine empty_query sample_tables = Inr \<lparr>pg_Runs = [sample_run], pg_Next = None\<rparr>"
proof -
  show q: "duck_listable empty_query" by (simp add: duck_listable_def empty_query_def IsZero_def zero_time_def)
  have "is_listing empty_query [''run_1'' \<mapsto> sample_run] [sample_run]"
    by (auto simp: is_listing_def query_match_def after_ok_def empty_query_def IsZero_def zero_time_def sample_run_def split: if_splits)
  then have "duck_List tab_engine empty_query sample_tables = Inr (paginate [sample_run] (q_Limit empty_query))"
    using tab.duck.list_law [OF sample_tables_inv q] listing_unique by (auto simp: sample_tables_content)
  then show "duck_List tab_engine empty_query sample_tables = Inr \<lparr>pg_Runs = [sample_run], pg_Next = None\<rparr>"
    by (simp add: paginate_def empty_query_def)
qed

lemma finished_run:
  "\<exists>u. duck_Get tab_engine ''run_1'' (duck_exec tab_engine sample_tables finishing) = Inr u
    \<and> Status u = StatusSucceeded \<and> map_get (Metrics u) ''loss'' \<noteq> None"
proof -
  have c: "tab_content sample_tables ''run_1'' = Some sample_run" by (simp add: sample_tables_content)
  obtain T x where T: "duck_Update tab_engine sample_now ''run_1'' sample_patch sample_tables = (Inr sample_done, T)"
      "tab_inv T" "tab_content T = (tab_content sample_tables)(''run_1'' \<mapsto> x)" "duck_eqv (duck_canon sample_done) x"
      "\<forall>k. map_get (Metrics x) k = (if map_get (p_Metrics sample_patch) k \<noteq> None then map_get (p_Metrics sample_patch) k
         else map_get (Metrics sample_run) k)"
    using tab.duck_update_ok [OF sample_tables_inv c sample_patched] by blast
  have "Status x = Status (duck_canon sample_done)" by (rule tab.duck.eqv_fields(7) [OF T(4)])
  then have "Status x = StatusSucceeded" by (simp add: duck_canon_def sample_done_def)
  moreover have "map_get (Metrics x) ''loss'' \<noteq> None" using T(5) by (simp add: sample_patch_def)
  ultimately show ?thesis using T(1-3) by (simp add: finishing_def duck_exec_def tab.duck_Get_Inr)
qed

lemma torn_listing:
  "\<exists>u. duck_Get tab_engine ''run_1'' (duck_exec tab_engine sample_tables finishing) = Inr u
    \<and> duck_List_at tab_engine empty_query sample_tables sample_tables (duck_exec tab_engine sample_tables finishing)
      (duck_exec tab_engine sample_tables finishing) = Inr \<lparr>pg_Runs = [sample_run\<lparr>Metrics := Metrics u\<rparr>], pg_Next = None\<rparr>"
proof -
  let ?db = "duck_exec tab_engine sample_tables finishing"
  have states: "tab_inv ?db" "keeps sample_tables sample_tables" "keeps sample_tables ?db"
    using tab.duck_history_tables [OF sample_tables_inv, of "[finishing]"] by (simp_all add: keeps_refl)
  from tab.list_at_later [OF sample_tables_inv states(1) sample_listing(1) states(2,3,3)]
  obtain pg' where pg': "duck_List_at tab_engine empty_query sample_tables sample_tables ?db ?db = Inr pg'" "pg_Next pg' = None"
    "list_all2 (\<lambda>r r'. \<exists>u. duck_Get tab_engine (RunID r) ?db = Inr u \<and> r' = r\<lparr>Metrics := Metrics u\<rparr>) [sample_run] (pg_Runs pg')"
    by (auto simp: sample_listing(2))
  then show ?thesis by (cases pg') (auto simp: list_all2_Cons1)
qed

theorem duckdb_list_interleaved_witness:
  "\<exists>pg'. duck_List_at tab_engine empty_query sample_tables sample_tables (duck_exec tab_engine sample_tables finishing)
      (duck_exec tab_engine sample_tables finishing) = Inr pg' \<and> pg_Next pg' = None \<and> map RunID (pg_Runs pg') = [''run_1'']"
  using duckdb_list_interleaved [OF tab.sql_engine_axioms sample_tables_inv sample_listing(1), of _ "[]" _ "[finishing]" _ "[]", OF refl refl refl]
  by (auto simp: sample_listing(2) list_all2_Cons1)

text \<open>
  Property C36. The metrics can be torn off the rest: a listing that starts while a run is running and reads the metrics
  after it has finished shows it as running, without an end, but with its final loss. The run
  was never stored like that: before, it had no loss, and after, it is succeeded.
\<close>

theorem duckdb_list_tears:
  "\<exists>x u. duck_List_at tab_engine empty_query sample_tables sample_tables (duck_exec tab_engine sample_tables finishing)
      (duck_exec tab_engine sample_tables finishing) = Inr \<lparr>pg_Runs = [x], pg_Next = None\<rparr>
    \<and> Status x = StatusRunning \<and> EndedAt x = None \<and> map_get (Metrics x) ''loss'' \<noteq> None
    \<and> duck_Get tab_engine ''run_1'' sample_tables = Inr sample_run \<and> map_get (Metrics sample_run) ''loss'' = None
    \<and> duck_Get tab_engine ''run_1'' (duck_exec tab_engine sample_tables finishing) = Inr u \<and> Status u = StatusSucceeded"
proof -
  obtain u where u: "duck_Get tab_engine ''run_1'' (duck_exec tab_engine sample_tables finishing) = Inr u"
    "Status u = StatusSucceeded" "map_get (Metrics u) ''loss'' \<noteq> None" using finished_run by blast
  then have "duck_List_at tab_engine empty_query sample_tables sample_tables (duck_exec tab_engine sample_tables finishing)
      (duck_exec tab_engine sample_tables finishing) = Inr \<lparr>pg_Runs = [sample_run\<lparr>Metrics := Metrics u\<rparr>], pg_Next = None\<rparr>"
    using torn_listing by auto
  then show ?thesis using u sample_tables_Get by (intro exI [of _ "sample_run\<lparr>Metrics := Metrics u\<rparr>"] exI [of _ u]) simp
qed

end
