(* ===== verification/Conformance_Backends.thy ===== *)
theory Conformance_Backends
  imports Conformance_Concurrency Duckdb_Interleaved
begin

text \<open>
  Both backends pass \<open>RunConformance\<close>: the map in memory, and DuckDB over any engine that meets
  \<open>sql_engine\<close>. In the subtests with concurrent readers DuckDB's \<open>List\<close> is its four statements, with writers
  between them. And what a client that follows the cursor sees while others record.
\<close>

section \<open>The suite\<close>

text \<open>
  Every goroutine writes exactly once, in any order and interleaving. The writer of the last subtest
  stops within a thousand million rows, and the list of the fetches is longer than the traversal can be:
  forty rows and those inserted before the first statement.
\<close>

definition schedule_ok :: "schedule \<Rightarrow> bool" where
  "schedule_ok sc \<longleftrightarrow> clock_range (sc_stamp sc)
     \<and> distinct (sc_conflicting sc) \<and> set (sc_conflicting sc) = {..<64}
     \<and> distinct (writes (sc_events sc)) \<and> set (writes (sc_events sc)) = {..<64}
     \<and> sum_list (concat (sc_inserts sc)) \<le> 10 ^ 9 \<and> 40 + sum_list (take 1 (hd (sc_inserts sc))) < length (sc_inserts sc)"

context conforming_store
begin

lemma suite_passes:
  assumes "\<And>j. models (newStore j) Map.empty" "\<And>j. clock_ok (cl j)" "schedule_ok sc"
  shows "RunConformance ops during sc cl newStore"
proof -
  have range: "clock_range (cl j)" for j using assms(2) by (simp add: clock_ok_def)
  note sc = assms(3) [unfolded schedule_ok_def]
  show ?thesis unfolding RunConformance_def subtests_def
    using sc assms(1,2) range
    by (simp add: suite_get_unknown suite_record_twice suite_record_conflict suite_record_invalid suite_newest_first
        suite_project_filter suite_attribution_filter suite_capture_roundtrip suite_capture_filter suite_capture_reordered
        suite_update_keeps_capture suite_concurrent_identical suite_concurrent_conflicting suite_no_torn_reads
        suite_update_unknown suite_lifecycle suite_attribution_patched suite_unfinished_no_end suite_terminal_defaults_end
        suite_metrics_merge suite_identity_refused suite_illegal_transition suite_terminal_frozen suite_terminal_retry
        suite_terminal_other_metric suite_terminal_new_metric suite_unknown_status suite_limit_cursor suite_exact_page
        suite_since_until suite_since_until_filters suite_window_paging suite_paging_under_inserts)
qed

end

section \<open>Memory\<close>

lemma DeepEqual_fields: "DeepEqual x y \<Longrightarrow> Status x = Status y \<and> Seed x = Seed y"
  by (cases x; cases y) (simp add: DeepEqual_def)

text \<open>\<open>List\<close> reads the map under the lock, once.\<close>

definition mem_list_during :: "memory listing" where
  "mem_list_during q sts = mem_List q (sts 0)"

interpretation suite_mem: conforming_store mem_Record mem_Update mem_Get mem_List "\<lambda>m. fmlookup (runs m)" mem_inv
  NormalizeCapture "\<lambda>x r. DeepEqual x (NormalizeCapture r)" "\<lambda>_. True" "(=)" "\<lambda>_. True" mem_list_during
proof (unfold_locales, goal_cases)
  case (1 sts q)
  then show ?case using mem.list_law [of "sts 0" q] by (simp add: mem_list_during_def)
next
  case (4 r r')
  then show ?case by (simp add: no_nan_DeepEqual retryable_def)
next
  case (5 x r)
  then show ?case using DeepEqual_fields [of x "NormalizeCapture r"] by (simp add: NormalizeCapture_def split: option.splits if_splits)
qed simp_all

lemma empty_models_mem: "suite_mem.models NewMemory Map.empty"
  by (simp add: suite_mem.models_def mem_inv_New) (simp add: NewMemory_def)

section \<open>DuckDB\<close>

lemma duck_time_exact: "in_int64 t \<Longrightarrow> t_ns (duck_time t) = t_ns t"
  by (simp add: duck_time_unix unix_utc_UnixNano)

lemma fm_unempty [simp]: "fm (unempty m) = fm m"
  by (simp add: unempty_def)

lemma duck_canon_reads:
  assumes "exact_run r"
  shows "indistinct (NormalizeCapture r) (duck_canon r)"
proof -
  have "face_time (duck_time (StartedAt r)) = face_time (StartedAt r)"
    using assms by (simp add: exact_run_def duck_time_exact face_time_eq)
  moreover have "map_option (face_time \<circ> duck_time) (EndedAt r) = map_option face_time (EndedAt r)"
    using assms by (cases "EndedAt r") (simp_all add: exact_run_def duck_time_exact face_time_eq)
  ultimately have "face (duck_canon r) = face (NormalizeCapture r)"
    unfolding face_NormalizeCapture by (cases "Capture r") (simp_all add: duck_canon_def face_def option.map_comp)
  then show ?thesis by (simp add: indistinct_def face_refl_metrics)
qed

lemma duck_canon_retry:
  assumes "exact_run r" "retryable r"
  shows "runsEqual (duck_canon r) (NormalizeCapture r)"
  using assms by (intro runsEqual_canon) (auto simp: exact_run_def retryable_def option.pred_set)

lemma duck_eqv_reads: "duck_eqv r s \<Longrightarrow> indistinct r s"
proof -
  assume e: "duck_eqv r s"
  have "face x = face (x\<lparr>Metrics := None\<rparr>)" for x by (simp add: face_def)
  then show ?thesis using e unfolding duck_eqv_def indistinct_def by metis
qed

lemma runsEqual_fields: "runsEqual x y \<Longrightarrow> Status x = Status y \<and> Seed x = Seed y"
  by (auto simp: runsEqual_def dest: DeepEqual_fields split: if_splits)

lemma NormalizeCapture_Seed [simp]: "Seed (NormalizeCapture r) = Seed r"
  by (simp add: NormalizeCapture_def split: option.split)

text \<open>The four statements of \<open>List\<close>, each on the database as it finds it.\<close>

definition duck_list_during :: "('db, 'tx) engine \<Rightarrow> 'db listing" where
  "duck_list_during eng q sts = duck_List_at eng q (sts 0) (sts 1) (sts 2) (sts 3)"

text \<open>A row of a run that is still stored unchanged reads the same from any of the databases.\<close>

lemma row_run_unchanged:
  assumes inv: "tab_inv T" and row: "fmlookup (t_runs T) (row_run_id row) = Some row"
    and le: "tab_content T \<subseteq>\<^sub>m tab_content Tp" "tab_content T \<subseteq>\<^sub>m tab_content Tm" "tab_content T \<subseteq>\<^sub>m tab_content Ta"
    and invs: "tab_inv Tp" "tab_inv Tm" "tab_inv Ta"
  shows "row_run (seen Tp Tm Ta) row = row_run T row"
proof -
  have same: "\<exists>row'. row_run_id row' = row_run_id row \<and> row_run T' row' = row_run T row"
    if "tab_content T \<subseteq>\<^sub>m tab_content T'" "tab_inv T'" for T'
  proof -
    have "tab_content T (row_run_id row) = Some (row_run T row)" using row by (simp add: tab_content_def)
    then have "tab_content T' (row_run_id row) = Some (row_run T row)" using that(1) by (metis domI map_le_def)
    then obtain row' where "fmlookup (t_runs T') (row_run_id row) = Some row'" "row_run T' row' = row_run T row"
      by (auto simp: tab_content_def)
    then show ?thesis using tab_inv_rowD(1) [OF that(2)] by blast
  qed
  have "Params (row_run T' x) = kv_of (t_params T') (row_run_id x)" "Metrics (row_run T' x) = kv_of (t_metrics T') (row_run_id x)"
    and capture: "Capture (row_run T' x) = (if row_capture_declared x
        then Some \<lparr>Client = row_capture_client x, Attempted = nilled (keys_of (t_attempted T') (row_run_id x))\<rparr> else None)" for T' x
    by (simp_all add: row_run_def)
  then have "kv_of (t_params Tp) (row_run_id row) = kv_of (t_params T) (row_run_id row)"
    "kv_of (t_metrics Tm) (row_run_id row) = kv_of (t_metrics T) (row_run_id row)"
    using same [OF le(1) invs(1)] same [OF le(2) invs(2)] by metis+
  moreover have "nilled (keys_of (t_attempted Ta) (row_run_id row)) = nilled (keys_of (t_attempted T) (row_run_id row))"
    if "row_capture_declared row"
    using same [OF le(3) invs(3)] capture that by (metis capture_declaration.ext_inject option.inject option.distinct(1))
  ultimately show ?thesis by (simp add: row_run_def seen_def)
qed

sublocale sql_engine \<subseteq> suite: conforming_store "duck_Record eng" "duck_Update eng" "duck_Get eng" "duck_List eng"
  "\<lambda>db. tab_content (rel db)" "\<lambda>db. tab_inv (rel db)" duck_canon "\<lambda>x r. runsEqual x (NormalizeCapture r)"
  duck_storable duck_eqv duck_listable "duck_list_during eng"
proof (unfold_locales, goal_cases)
  case (1 sts q)
  let ?T = "rel (sts 0)"
  obtain rows n nxt where list: "is_listing q (tab_content ?T) (map (row_run ?T) rows)"
      "\<forall>row \<in> set rows. fmlookup (t_runs ?T) (row_run_id row) = Some row"
      "paginate (map (row_run ?T) rows) (q_Limit q) = \<lparr>pg_Runs = map (row_run ?T) (take n rows), pg_Next = nxt\<rparr>"
      "\<And>dbp dbm dba. duck_List_at eng q (sts 0) dbp dbm dba =
         Inr \<lparr>pg_Runs = map (row_run (seen (rel dbp) (rel dbm) (rel dba))) (take n rows), pg_Next = nxt\<rparr>"
    using duck_list_at [of "sts 0" q] 1 by blast
  have "row_run (seen (rel (sts 1)) (rel (sts 2)) (rel (sts 3))) row = row_run ?T row" if "row \<in> set (take n rows)" for row
    using 1 list(2) in_set_takeD [OF that] by (intro row_run_unchanged) blast+
  then have "duck_list_during eng q sts = Inr (paginate (map (row_run ?T) rows) (q_Limit q))"
    by (simp add: duck_list_during_def list(3,4))
  with list(1) show ?case by blast
next
  case (2 r)
  then show ?case
    by (cases "Capture r") (simp_all add: exact_run_def duck_storable_def int32_def CurrentFingerprintVersion_def)
next
  case (4 r r')
  then show ?case using duck_canon_retry by simp
next
  case (5 x r)
  then show ?case using runsEqual_fields [of x "NormalizeCapture r"] by simp
next
  case (6 q)
  then show ?case by (cases "q_After q") (simp_all add: exact_query_def duck_listable_def)
qed (use duck_canon_reads duck_eqv_reads in blast)+

context sql_engine
begin

lemma empty_models_duck: "rel db = empty_tables \<Longrightarrow> suite.models db Map.empty"
  by (simp add: suite.models_def empty_tables_inv empty_tables_content)

lemmas duck_suite_passes = suite.suite_passes [OF empty_models_duck]

end

section \<open>Both backends pass\<close>

text \<open>
  Property C8. The in-process backend passes the conformance suite, all thirty-three subtests, under every
  clock that shows times between 1970 and 2116 and never runs backwards, in whatever order the
  sixty-four concurrent writers come, each once, however their writes interleave with the reader's
  listings, and whatever the writer of the last subtest inserts between two pages, up to a thousand
  million rows.
\<close>

theorem memory_conforms:
  assumes "\<And>j. clock_ok (cl j)" "schedule_ok sc"
  shows "RunConformance mem_ops mem_list_during sc cl (\<lambda>j. NewMemory)"
  unfolding mem_ops_def by (rule suite_mem.suite_passes [OF empty_models_mem assms])

text \<open>A clock that stops, and a schedule: the writers in descending order, a listing after every third write that two others interrupt, and two rows
  inserted before each fetch and one before its last statement.\<close>

definition sample_clock :: "nat \<Rightarrow> clock" where
  "sample_clock j n = add base_2024 (min (int n) 1000)"

definition sample_schedule :: schedule where
  "sample_schedule = \<lparr>sc_stamp = sample_clock 0, sc_conflicting = rev [0..<64],
     sc_events = WriteRun 63 # concat (map (\<lambda>i. [WriteRun (3 * i + 2), ReadAll [[], [3 * i + 1], [], [3 * i]]]) (rev [0..<21])),
     sc_inserts = replicate 50 [2, 0, 0, 1]\<rparr>"

lemma sample_clock_ok: "clock_ok (sample_clock j)"
  by (auto simp: clock_ok_def clock_range_def sample_clock_def base_2024_def min_def)

lemma writes_triples:
  "writes (concat (map (\<lambda>i. [WriteRun (3 * i + 2), ReadAll [[], [3 * i + 1], [], [3 * i]]]) is)) =
     concat (map (\<lambda>i. [3 * i + 2, 3 * i + 1, 3 * i]) is)"
  by (induction "is") simp_all

lemma sample_schedule_ok: "schedule_ok sample_schedule"
proof -
  have "writes (sc_events sample_schedule) = 63 # concat (map (\<lambda>i. [3 * i + 2, 3 * i + 1, 3 * i]) (rev [0..<21]))"
    unfolding sample_schedule_def by (simp only: schedule.simps writes.simps writes_triples)
  also have "\<dots> = rev [0..<64]" by code_simp
  finally have "writes (sc_events sample_schedule) = rev [0..<64]" .
  moreover have "sum_list (concat (sc_inserts sample_schedule)) = 150" unfolding sample_schedule_def schedule.simps by code_simp
  moreover have "clock_range (sc_stamp sample_schedule)"
    using sample_clock_ok [of 0] by (simp add: clock_ok_def sample_schedule_def)
  ultimately show ?thesis
    by (auto simp: schedule_ok_def, simp_all add: sample_schedule_def)
qed

theorem memory_conforms_witness:
  "RunConformance mem_ops mem_list_during sample_schedule sample_clock (\<lambda>j. NewMemory)"
  by (rule memory_conforms [OF sample_clock_ok sample_schedule_ok])

text \<open>
  Property C9. The durable backend passes the same suite, unchanged, over every SQL engine that keeps its
  contract, when each subtest opens a database with empty tables, under the same clocks and
  schedules; the concurrent writers may record between any two of the four statements of each
  listing.
\<close>

theorem duckdb_conforms:
  assumes "sql_engine eng rel relx" "\<And>j. rel (fresh j) = empty_tables" "\<And>j. clock_ok (cl j)" "schedule_ok sc"
  shows "RunConformance (duck_ops eng) (duck_list_during eng) sc cl fresh"
  unfolding duck_ops_def by (rule sql_engine.duck_suite_passes [OF assms])

theorem duckdb_conforms_witness:
  "RunConformance (duck_ops tab_engine) (duck_list_during tab_engine) sample_schedule sample_clock (\<lambda>j. empty_tables)"
  by (rule duckdb_conforms [OF tab.sql_engine_axioms refl sample_clock_ok sample_schedule_ok])

section \<open>Paging while others write\<close>

lemma is_listing_limit: "is_listing (q\<lparr>q_Limit := n\<rparr>) A = is_listing q A"
proof -
  have "query_match (q\<lparr>q_Limit := n\<rparr>) r = query_match q r" for r by (cases "Capture r") (simp_all add: query_match_def)
  then show ?thesis by (intro ext) (simp add: is_listing_def after_ok_def)
qed

context sql_engine
begin

lemma duck_visits:
  assumes "tab_inv (rel db)" "duck_listable q" "0 < q_Limit q"
    and "duck_List eng (q\<lparr>q_Limit := 0\<rparr>) (seen_at (duck_ops eng) bs db 0) = Inr \<lparr>pg_Runs = xs, pg_Next = None\<rparr>"
    and "length xs + length (filter (\<lambda>r. behind xs (duck_canon r)) (later_runs bs fs)) \<le> length fs"
  shows "\<exists>pages. traverse_under (duck_ops eng) (duck_list_during eng) (bs # fs) q db = Some pages
    \<and> sorted_wrt list_less (concat pages) \<and> distinct (map RunID (concat pages)) \<and> set xs \<subseteq> set (concat pages)
    \<and> (\<forall>x \<in> set (concat pages) - set xs. behind xs x \<and> query_match q x \<and> after_ok q x
        \<and> (\<exists>r \<in> set (later_runs bs fs). x = duck_canon r))"
proof -
  let ?db = "seen_at (duck_ops eng) bs db 0" and ?fin = "snd (rec_errs (duck_ops eng) (concat (concat (bs # fs))) db)"
  have inv: "tab_inv (rel ?db)" using duck.seen_at_later(1) [OF assms(1), of bs 0] by (simp add: duck_ops_def)
  have "duck_listable (q\<lparr>q_Limit := 0\<rparr>)" using assms(2) by (simp add: duck_listable_def)
  then obtain ys where ys: "is_listing q (tab_content (rel ?db)) ys" "duck_List eng (q\<lparr>q_Limit := 0\<rparr>) ?db = Inr (paginate ys 0)"
    using duck.list_law [OF inv] by (fastforce simp: is_listing_limit)
  then have "ys = xs" using assms(4) by (simp add: paginate_def)
  with ys(1) have L: "is_listing q (tab_content (rel ?db)) xs" by simp
  obtain pages where pages: "traverse_under (duck_ops eng) (duck_list_during eng) (bs # fs) q db = Some pages"
    "duck.visits q xs (later_runs bs fs) (tab_content (rel ?fin)) (concat pages)"
    using suite.traverse_under_visits [OF assms(1-3) _ assms(5) refl] L unfolding duck_ops_def [symmetric] by blast
  have "tab_inv (rel ?fin)" using duck.rec_errs_effect [OF assms(1)] unfolding duck_ops_def by blast
  then have "distinct (map RunID (concat pages))"
    by (rule duck.visited_once) (use pages(2) in \<open>simp_all add: duck.visits_def\<close>)
  with pages show ?thesis unfolding duck.visits_def by blast
qed

end

text \<open>
  Property C10. Keyset pagination on the durable backend while others record any runs, before each fetch and
  between the statements of each: following the cursors visits every run of the unlimited listing as it
  was at the first statement of the first fetch, in one descending order and no run twice. What it
  visits besides was recorded later, matches the query and sorts after a run of that listing (a
  backdated run); a later run that sorts before all of it is never visited. It ends within as many
  fetches as that listing has rows, plus one for each later run that sorts after one of them, plus one.
\<close>

theorem duckdb_paging_snapshot:
  assumes "sql_engine eng rel relx" "tab_inv (rel db)" "duck_listable q" "0 < q_Limit q"
    and "duck_List eng (q\<lparr>q_Limit := 0\<rparr>) (seen_at (duck_ops eng) bs db 0) = Inr \<lparr>pg_Runs = xs, pg_Next = None\<rparr>"
    and "length xs + length (filter (\<lambda>r. behind xs (duck_canon r)) (later_runs bs fs)) \<le> length fs"
  shows "\<exists>pages. traverse_under (duck_ops eng) (duck_list_during eng) (bs # fs) q db = Some pages
    \<and> sorted_wrt list_less (concat pages) \<and> distinct (map RunID (concat pages)) \<and> set xs \<subseteq> set (concat pages)
    \<and> (\<forall>x \<in> set (concat pages) - set xs. behind xs x \<and> query_match q x \<and> after_ok q x
        \<and> (\<exists>r \<in> set (later_runs bs fs). x = duck_canon r))"
  by (rule sql_engine.duck_visits [OF assms])

text \<open>A run that comes between the first two statements of the first fetch, and one that is backdated to the epoch.\<close>

definition later_run :: run where
  "later_run = sample_run\<lparr>RunID := ''run_2'', StartedAt := \<lparr>t_ns = 2000, t_loc = UTC\<rparr>\<rparr>"

definition backdated_run :: run where
  "backdated_run = sample_run\<lparr>RunID := ''run_3'', StartedAt := \<lparr>t_ns = 0, t_loc = UTC\<rparr>\<rparr>"

lemma sample_tables_listing:
  "duck_List tab_engine (query_p\<lparr>q_Limit := 0\<rparr>) sample_tables = Inr \<lparr>pg_Runs = [sample_run], pg_Next = None\<rparr>"
proof -
  have q: "duck_listable (query_p\<lparr>q_Limit := 0\<rparr>)" by (simp add: duck_listable_def match_simps)
  have "is_listing (query_p\<lparr>q_Limit := 0\<rparr>) [''run_1'' \<mapsto> sample_run] [sample_run]"
    unfolding is_listing_limit by (auto simp: is_listing_def match_simps sample_run_def split: if_splits)
  then have "duck_List tab_engine (query_p\<lparr>q_Limit := 0\<rparr>) sample_tables = Inr (paginate [sample_run] 0)"
    using tab.duck.list_law [OF sample_tables_inv q] listing_unique by (auto simp: sample_tables_content)
  then show ?thesis by (simp add: paginate_def)
qed

theorem duckdb_paging_snapshot_witness:
  "\<exists>pages. traverse_under (duck_ops tab_engine) (duck_list_during tab_engine)
      [[[], [later_run]], [[backdated_run]], []] (query_p\<lparr>q_Limit := 1\<rparr>) sample_tables = Some pages
    \<and> sample_run \<in> set (concat pages) \<and> distinct (map RunID (concat pages))"
proof -
  let ?bs = "[[], [later_run]]" and ?fs = "[[[backdated_run]], []]"
  have "t_ns (StartedAt (duck_canon later_run)) = 2000"
    using duck_time_exact [of "StartedAt later_run"] by (simp add: duck_canon_def later_run_def in_int64_def)
  then have "\<not> behind [sample_run] (duck_canon later_run)"
    by (simp add: behind_def list_less_def Equal_def After_def sample_run_def)
  then have "length [sample_run] + length (filter (\<lambda>r. behind [sample_run] (duck_canon r)) (later_runs ?bs ?fs)) \<le> length ?fs"
    by (simp add: later_runs_def)
  moreover have "duck_List tab_engine (query_p\<lparr>q_Limit := 1, q_Limit := 0\<rparr>) (seen_at (duck_ops tab_engine) ?bs sample_tables 0) =
      Inr \<lparr>pg_Runs = [sample_run], pg_Next = None\<rparr>"
    using sample_tables_listing by (simp add: seen_at_def)
  moreover have "duck_listable (query_p\<lparr>q_Limit := 1\<rparr>)" "0 < q_Limit (query_p\<lparr>q_Limit := 1\<rparr>)"
    by (simp_all add: duck_listable_def match_simps)
  ultimately have "\<exists>pages. traverse_under (duck_ops tab_engine) (duck_list_during tab_engine) (?bs # ?fs) (query_p\<lparr>q_Limit := 1\<rparr>) sample_tables = Some pages
      \<and> distinct (map RunID (concat pages)) \<and> set [sample_run] \<subseteq> set (concat pages)"
    using duckdb_paging_snapshot [OF tab.sql_engine_axioms sample_tables_inv] by blast
  then show ?thesis by auto
qed

end
