(* ===== verification/Memory_Concurrent.thy ===== *)
theory Memory_Concurrent
  imports Memory_Rules
begin

text \<open>
  \<open>memory.go\<close> with its goroutines: each operation as the steps between which others may run, under the
  \<open>sync.RWMutex\<close> of the struct. Whatever the interleaving, the operations behave as the atomic
  functions of \<open>Memory\<close> in the order in which they took the lock, and nobody waits for ever
  with no step to take.
\<close>

section \<open>Operations in steps\<close>

datatype store_call = CRecord run | CUpdate time string patch | CGet string | CList query

datatype store_reply = RRecord "store_error option" | RUpdate "store_error + run" | RGet "store_error + run"
  | RList "store_error + page"

text \<open>
  Where a goroutine is. \<open>Called\<close>: before it has the lock. The rest, up to \<open>Returning\<close>, is inside:
  \<open>Record\<close> looks the id up, then inserts; \<open>Update\<close> reads, patches its copy, then writes; \<open>List\<close> visits
  one run of the map after the other. The result is ready at \<open>Unlocking\<close> (\<open>Lock\<close>) or \<open>RUnlocking\<close> (\<open>RLock\<close>),
  where the deferred unlock runs.
\<close>

datatype goroutine =
    Idle
  | Called store_call
  | Looking run
  | Inserting run
  | Reading time string patch
  | Patching time string patch run
  | Writing string run
  | Unlocking store_reply
  | Fetching string
  | Ranging query "string list" "run list"
  | RUnlocking store_reply
  | Returning store_reply

datatype lock = NoLock | ReadLock | WriteLock

fun held :: "goroutine \<Rightarrow> lock" where
  "held (Looking r) = WriteLock"
| "held (Inserting r) = WriteLock"
| "held (Reading now i p) = WriteLock"
| "held (Patching now i p x) = WriteLock"
| "held (Writing i u) = WriteLock"
| "held (Unlocking rep) = WriteLock"
| "held (Fetching i) = ReadLock"
| "held (Ranging q ids out) = ReadLock"
| "held (RUnlocking rep) = ReadLock"
| "held _ = NoLock"

text \<open>One step inside a critical section: the only accesses to the map.\<close>

fun local_step :: "goroutine \<Rightarrow> memory \<Rightarrow> goroutine \<times> memory" where
  "local_step (Looking r) m =
     (case fmlookup (runs m) (RunID r) of
        Some existing \<Rightarrow> (Unlocking (RRecord (if \<not> DeepEqual existing r then Some ErrConflict else None)), m)
      | None \<Rightarrow> (Inserting r, m))"
| "local_step (Inserting r) m = (Unlocking (RRecord None), m\<lparr>runs := fmupd (RunID r) r (runs m)\<rparr>)"
| "local_step (Reading now i p) m =
     (case fmlookup (runs m) i of
        None \<Rightarrow> (Unlocking (RUpdate (Inl ErrNotFound)), m)
      | Some existing \<Rightarrow> (Patching now i p existing, m))"
| "local_step (Patching now i p existing) m =
     (case applyPatch now existing p of
        Inl e \<Rightarrow> (Unlocking (RUpdate (Inl e)), m)
      | Inr updated \<Rightarrow> (Writing i updated, m))"
| "local_step (Writing i updated) m = (Unlocking (RUpdate (Inr updated)), m\<lparr>runs := fmupd i updated (runs m)\<rparr>)"
| "local_step (Fetching i) m = (RUnlocking (RGet (mem_Get i m)), m)"
| "local_step (Ranging q [] out) m = (RUnlocking (RList (Inr (list_page q out))), m)"
| "local_step (Ranging q (i # ids) out) m =
     (Ranging q ids (let r = the (fmlookup (runs m) i) in if query_match q r then out @ [r] else out), m)"
| "local_step p m = (p, m)"

section \<open>Goroutines and the mutex\<close>

datatype store_event = Invoked nat store_call | Took nat | Returned nat store_reply

record store_system =
  sys_mem :: memory
  sys_writer :: "nat option"
  sys_readers :: "nat set"
  sys_pc :: "nat \<Rightarrow> goroutine"
  sys_trace :: "store_event list"

definition system_start :: "memory \<Rightarrow> store_system" where
  "system_start m = \<lparr>sys_mem = m, sys_writer = None, sys_readers = {}, sys_pc = (\<lambda>g. Idle), sys_trace = []\<rparr>"

text \<open>The goroutine goes on to \<open>p\<close>.\<close>

definition goes :: "nat \<Rightarrow> goroutine \<Rightarrow> store_system \<Rightarrow> store_system" where
  "goes g p s = s\<lparr>sys_pc := (sys_pc s)(g := p)\<rparr>"

definition logs :: "store_event \<Rightarrow> store_system \<Rightarrow> store_system" where
  "logs e s = s\<lparr>sys_trace := sys_trace s @ [e]\<rparr>"

text \<open>Where an operation is once it has the write lock; \<open>Record\<close> has validated and normalised its run before.\<close>

fun enter :: "store_call \<Rightarrow> goroutine" where
  "enter (CRecord r) = Looking (NormalizeCapture r)"
| "enter (CUpdate now i p) = Reading now i p"
| "enter c = Called c"

text \<open>
  A step of goroutine \<open>g\<close>. \<open>Took g\<close> marks the moment at which its operation takes effect: it gets the lock,
  or, for a run that is not valid, returns without it.
  Go lets no new reader overtake a writer that waits; here one may, which adds interleavings and takes none
  away, and where the reader is held back it is that writer who can move.
\<close>

inductive system_step :: "nat \<Rightarrow> store_system \<Rightarrow> store_system \<Rightarrow> bool" for g where
  invoke: "sys_pc s g = Idle \<Longrightarrow> system_step g s (goes g (Called c) (logs (Invoked g c) s))"
| refuse: "sys_pc s g = Called (CRecord r) \<Longrightarrow> Validate r = Some e \<Longrightarrow>
    system_step g s (goes g (Returning (RRecord (Some (Invalid e)))) (logs (Took g) s))"
| lock: "sys_pc s g = Called c \<Longrightarrow> (case c of CRecord r \<Rightarrow> Validate r = None | CUpdate _ _ _ \<Rightarrow> True | _ \<Rightarrow> False) \<Longrightarrow>
    sys_writer s = None \<Longrightarrow> sys_readers s = {} \<Longrightarrow>
    system_step g s (goes g (enter c) (logs (Took g) (s\<lparr>sys_writer := Some g\<rparr>)))"
| rlock_get: "sys_pc s g = Called (CGet i) \<Longrightarrow> sys_writer s = None \<Longrightarrow>
    system_step g s (goes g (Fetching i) (logs (Took g) (s\<lparr>sys_readers := insert g (sys_readers s)\<rparr>)))"
| rlock_list: "sys_pc s g = Called (CList q) \<Longrightarrow> sys_writer s = None \<Longrightarrow>
    distinct ids \<Longrightarrow> set ids = fset (fmdom (runs (sys_mem s))) \<Longrightarrow>
    system_step g s (goes g (Ranging q ids []) (logs (Took g) (s\<lparr>sys_readers := insert g (sys_readers s)\<rparr>)))"
| local: "held (sys_pc s g) \<noteq> NoLock \<Longrightarrow> local_step (sys_pc s g) (sys_mem s) = (p, m) \<Longrightarrow> p \<noteq> sys_pc s g \<Longrightarrow>
    system_step g s (goes g p (s\<lparr>sys_mem := m\<rparr>))"
| unlock: "sys_pc s g = Unlocking rep \<Longrightarrow> system_step g s (goes g (Returning rep) (s\<lparr>sys_writer := None\<rparr>))"
| runlock: "sys_pc s g = RUnlocking rep \<Longrightarrow>
    system_step g s (goes g (Returning rep) (s\<lparr>sys_readers := sys_readers s - {g}\<rparr>))"
| return: "sys_pc s g = Returning rep \<Longrightarrow> system_step g s (goes g Idle (logs (Returned g rep) s))"

inductive_simps system_step_iff: "system_step g s s'"

definition system_reaches :: "store_system \<Rightarrow> store_system \<Rightarrow> bool" where
  "system_reaches = (\<lambda>s s'. \<exists>g. system_step g s s')\<^sup>*\<^sup>*"

section \<open>The atomic store\<close>

text \<open>A client of the atomic store: its call, then the reply the store gave, then nothing.\<close>

datatype client = Quiet | Asked store_call | Told store_reply

fun seq_exec :: "store_call \<Rightarrow> memory \<Rightarrow> store_reply \<times> memory" where
  "seq_exec (CRecord r) m = apfst RRecord (mem_Record r m)"
| "seq_exec (CUpdate now i p) m = apfst RUpdate (mem_Update now i p m)"
| "seq_exec (CGet i) m = (RGet (mem_Get i m), m)"
| "seq_exec (CList q) m = (RList (mem_List q m), m)"

fun atomic_step :: "store_event \<Rightarrow> (nat \<Rightarrow> client) \<times> memory \<Rightarrow> ((nat \<Rightarrow> client) \<times> memory) option" where
  "atomic_step (Invoked g c) (cl, m) = (if cl g = Quiet then Some (cl(g := Asked c), m) else None)"
| "atomic_step (Took g) (cl, m) =
     (case cl g of Asked c \<Rightarrow> (case seq_exec c m of (rep, m') \<Rightarrow> Some (cl(g := Told rep), m')) | _ \<Rightarrow> None)"
| "atomic_step (Returned g rep) (cl, m) = (if cl g = Told rep then Some (cl(g := Quiet), m) else None)"

text \<open>A trace the atomic store can produce: every operation happens at one moment between call and return.\<close>

fun atomic_run :: "store_event list \<Rightarrow> (nat \<Rightarrow> client) \<times> memory \<Rightarrow> ((nat \<Rightarrow> client) \<times> memory) option" where
  "atomic_run [] st = Some st"
| "atomic_run (e # es) st = (case atomic_step e st of None \<Rightarrow> None | Some st' \<Rightarrow> atomic_run es st')"

section \<open>The simulation\<close>

text \<open>What an operation inside its critical section still does, run to the end.\<close>

fun finish :: "goroutine \<Rightarrow> memory \<Rightarrow> store_reply \<times> memory" where
  "finish (Looking r) m =
     (case fmlookup (runs m) (RunID r) of
        Some existing \<Rightarrow> (RRecord (if \<not> DeepEqual existing r then Some ErrConflict else None), m)
      | None \<Rightarrow> (RRecord None, m\<lparr>runs := fmupd (RunID r) r (runs m)\<rparr>))"
| "finish (Inserting r) m = (RRecord None, m\<lparr>runs := fmupd (RunID r) r (runs m)\<rparr>)"
| "finish (Reading now i p) m = apfst RUpdate (mem_Update now i p m)"
| "finish (Patching now i p existing) m =
     (case applyPatch now existing p of
        Inl e \<Rightarrow> (RUpdate (Inl e), m)
      | Inr u \<Rightarrow> (RUpdate (Inr u), m\<lparr>runs := fmupd i u (runs m)\<rparr>))"
| "finish (Writing i u) m = (RUpdate (Inr u), m\<lparr>runs := fmupd i u (runs m)\<rparr>)"
| "finish (Fetching i) m = (RGet (mem_Get i m), m)"
| "finish (Ranging q ids out) m =
     (RList (Inr (list_page q (out @ filter (query_match q) (map (\<lambda>i. the (fmlookup (runs m) i)) ids)))), m)"
| "finish (Unlocking rep) m = (rep, m)"
| "finish (RUnlocking rep) m = (rep, m)"
| "finish p m = (RRecord None, m)"

lemma finish_local: "held p \<noteq> NoLock \<Longrightarrow> local_step p m = (p', m') \<Longrightarrow> finish p' m' = finish p m"
  by (cases "(p, m)" rule: local_step.cases)
    (auto simp: mem_Update_def Let_def split: option.splits sum.splits if_splits)

lemma held_local: "local_step p m = (p', m') \<Longrightarrow> held p' = held p"
  by (cases "(p, m)" rule: local_step.cases) (auto split: option.splits sum.splits)

lemma read_local: "held p = ReadLock \<Longrightarrow> local_step p m = (p', m') \<Longrightarrow> m' = m"
  by (cases "(p, m)" rule: local_step.cases) auto

lemma read_finish: "held p = ReadLock \<Longrightarrow> snd (finish p m) = m"
  by (cases p) simp_all

lemma enter_finish:
  assumes "case c of CRecord r \<Rightarrow> Validate r = None | CUpdate _ _ _ \<Rightarrow> True | _ \<Rightarrow> False"
  shows "finish (enter c) m = seq_exec c m" "held (enter c) = WriteLock"
  using assms by (cases c; auto simp: mem_Record_def Let_def split: option.splits)+

lemma seq_exec_inv: "mem_inv m \<Longrightarrow> mem_inv (snd (seq_exec c m))"
  by (cases c) (simp_all add: mem_inv_Record mem_inv_Update)

text \<open>How a goroutine and its client of the atomic store agree, given the two memories.\<close>

definition agrees :: "memory \<Rightarrow> memory \<Rightarrow> goroutine \<Rightarrow> client \<Rightarrow> bool" where
  "agrees m am p c \<longleftrightarrow>
     (case p of
        Idle \<Rightarrow> c = Quiet
      | Called cl \<Rightarrow> c = Asked cl
      | Returning rep \<Rightarrow> c = Told rep
      | _ \<Rightarrow> \<exists>rep. c = Told rep \<and> finish p m = (rep, am))"

lemma agrees_held: "held p \<noteq> NoLock \<Longrightarrow> agrees m am p c \<longleftrightarrow> (\<exists>rep. c = Told rep \<and> finish p m = (rep, am))"
  by (cases p) (simp_all add: agrees_def)

lemma agrees_free: "held p = NoLock \<Longrightarrow> agrees m am p c = agrees m' am' p c"
  by (cases p) (simp_all add: agrees_def)

definition locks_ok :: "store_system \<Rightarrow> bool" where
  "locks_ok s \<longleftrightarrow> (\<forall>g. sys_writer s = Some g \<longleftrightarrow> held (sys_pc s g) = WriteLock)
     \<and> (\<forall>g. g \<in> sys_readers s \<longleftrightarrow> held (sys_pc s g) = ReadLock) \<and> (sys_writer s \<noteq> None \<longrightarrow> sys_readers s = {})"

definition simulates :: "store_system \<Rightarrow> (nat \<Rightarrow> client) \<times> memory \<Rightarrow> bool" where
  "simulates s st \<longleftrightarrow> locks_ok s \<and> mem_inv (snd st) \<and> (sys_writer s = None \<longrightarrow> snd st = sys_mem s)
     \<and> (\<forall>g. agrees (sys_mem s) (snd st) (sys_pc s g) (fst st g))"

lemmas sys_simps = goes_def logs_def

lemma locks_okD:
  assumes "locks_ok s"
  shows "sys_writer s = Some g \<longleftrightarrow> held (sys_pc s g) = WriteLock" "g \<in> sys_readers s \<longleftrightarrow> held (sys_pc s g) = ReadLock"
    "sys_writer s \<noteq> None \<Longrightarrow> sys_readers s = {}"
  using assms by (auto simp: locks_ok_def)

text \<open>While one goroutine has the write lock no other is inside.\<close>

lemma others_free:
  assumes "locks_ok s" "held (sys_pc s g) = WriteLock" "g' \<noteq> g"
  shows "held (sys_pc s g') = NoLock"
proof -
  have w: "sys_writer s = Some g" using locks_okD(1) [OF assms(1)] assms(2) by simp
  then have "sys_writer s \<noteq> Some g'" "g' \<notin> sys_readers s" using locks_okD(3) [OF assms(1)] assms(3) by auto
  then show ?thesis using locks_okD(1,2) [OF assms(1), of g'] by (cases "held (sys_pc s g')") auto
qed

text \<open>An event of the atomic store, and a goroutine that keeps agreeing.\<close>

lemma simulates_goes:
  assumes sim: "simulates s (cl, am)" and t: "t = goes g p s\<lparr>sys_mem := m, sys_writer := w, sys_readers := R\<rparr>"
    and locks: "locks_ok t" and inv: "mem_inv am'" and m: "w = None \<Longrightarrow> am' = m"
    and self: "agrees m am' p c"
    and others: "\<And>g'. g' \<noteq> g \<Longrightarrow> held (sys_pc s g') \<noteq> NoLock \<Longrightarrow> m = sys_mem s \<and> am' = am"
  shows "simulates t (cl(g := c), am')"
proof -
  have "agrees m am' (sys_pc s g') (cl g')" if "g' \<noteq> g" for g'
  proof (cases "held (sys_pc s g') = NoLock")
    case True
    then show ?thesis using sim agrees_free [OF True, of m am' "cl g'" "sys_mem s" am] by (simp add: simulates_def)
  next
    case False
    then show ?thesis using sim others [OF that False] by (simp add: simulates_def)
  qed
  then show ?thesis using locks inv m self by (auto simp: simulates_def t goes_def)
qed

lemma simulates_trace: "simulates (s\<lparr>sys_trace := es\<rparr>) st = simulates s st"
  by (simp add: simulates_def locks_ok_def)

text \<open>Each step of a goroutine is at most one event of the atomic store.\<close>

abbreviation matched :: "store_system \<Rightarrow> (nat \<Rightarrow> client) \<times> memory \<Rightarrow> store_system \<Rightarrow> bool" where
  "matched s st s' \<equiv> \<exists>es st'. sys_trace s' = sys_trace s @ es \<and> atomic_run es st = Some st' \<and> simulates s' st'"

lemma simulates_event:
  assumes "simulates s (cl, am)" "s' = goes g p s\<lparr>sys_mem := m, sys_writer := w, sys_readers := R, sys_trace := sys_trace s @ es\<rparr>"
    and "locks_ok s'" "mem_inv am'" "w = None \<Longrightarrow> am' = m" "agrees m am' p c"
    and "\<And>g'. g' \<noteq> g \<Longrightarrow> held (sys_pc s g') \<noteq> NoLock \<Longrightarrow> m = sys_mem s \<and> am' = am"
    and "atomic_run es (cl, am) = Some (cl(g := c), am')"
  shows "matched s (cl, am) s'"
proof -
  let ?t = "goes g p s\<lparr>sys_mem := m, sys_writer := w, sys_readers := R\<rparr>"
  have s': "s' = ?t\<lparr>sys_trace := sys_trace s @ es\<rparr>" by (simp add: assms(2))
  have "locks_ok ?t" using assms(3) by (simp add: s' locks_ok_def)
  from simulates_goes [OF assms(1) refl this assms(4-7)] have "simulates s' (cl(g := c), am')"
    by (simp add: s' simulates_trace)
  moreover have "sys_trace s' = sys_trace s @ es" by (simp add: s')
  ultimately show ?thesis using assms(8) by blast
qed

lemma simulatesD:
  assumes "simulates s (cl, am)"
  shows "locks_ok s" "mem_inv am" "sys_writer s = None \<Longrightarrow> am = sys_mem s" "agrees (sys_mem s) am (sys_pc s g) (cl g)"
  using assms by (auto simp: simulates_def)

text \<open>Steps outside the critical sections, and the two ways to get the lock.\<close>

lemma simulates_outside:
  assumes "simulates s (cl, am)" "s' = goes g p (logs e s)" "held (sys_pc s g) = NoLock" "held p = NoLock"
    and "agrees (sys_mem s) am p c" "atomic_step e (cl, am) = Some (cl(g := c), am)"
  shows "matched s (cl, am) s'"
  using simulatesD [OF assms(1)] assms(2-)
  by (intro simulates_event [OF assms(1), where p = p and c = c and am' = am and m = "sys_mem s" and w = "sys_writer s"
      and R = "sys_readers s" and es = "[e]" and g = g]) (auto simp: sys_simps locks_ok_def)

lemma simulates_lock:
  assumes "simulates s (cl, am)" "s' = goes g (enter c) (logs (Took g) (s\<lparr>sys_writer := Some g\<rparr>))" "sys_pc s g = Called c"
    and "case c of CRecord r \<Rightarrow> Validate r = None | CUpdate _ _ _ \<Rightarrow> True | _ \<Rightarrow> False" "sys_writer s = None" "sys_readers s = {}"
  shows "matched s (cl, am) s'"
proof -
  note sim = simulatesD [OF assms(1)]
  obtain rep am' where ex: "seq_exec c am = (rep, am')" by fastforce
  have cl: "cl g = Asked c" using sim(4) [of g] assms(3) by (simp add: agrees_def)
  have none: "held (sys_pc s h) = NoLock" for h
    using locks_okD(1,2) [OF sim(1), of h] assms(5,6) by (cases "held (sys_pc s h)") auto
  show ?thesis using assms ex cl none sim(3) enter_finish(1) [OF assms(4), of am] enter_finish(2) [OF assms(4)]
      seq_exec_inv [OF sim(2), of c]
    by (intro simulates_event [OF assms(1), where p = "enter c" and c = "Told rep" and am' = am' and m = "sys_mem s"
        and w = "Some g" and R = "sys_readers s" and es = "[Took g]" and g = g])
      (auto simp: sys_simps agrees_held locks_ok_def)
qed

lemma simulates_rlock:
  assumes "simulates s (cl, am)" "s' = goes g p (logs (Took g) (s\<lparr>sys_readers := insert g (sys_readers s)\<rparr>))"
    and "sys_pc s g = Called c" "sys_writer s = None" "held p = ReadLock" "finish p am = seq_exec c am" "snd (seq_exec c am) = am"
  shows "matched s (cl, am) s'"
proof -
  note sim = simulatesD [OF assms(1)]
  obtain rep where ex: "seq_exec c am = (rep, am)" using assms(7) by (cases "seq_exec c am") simp
  have cl: "cl g = Asked c" using sim(4) [of g] assms(3) by (simp add: agrees_def)
  show ?thesis using assms(2-) ex cl sim(1-3)
    by (intro simulates_event [OF assms(1), where p = p and c = "Told rep" and am' = am and m = "sys_mem s"
        and w = "sys_writer s" and R = "insert g (sys_readers s)" and es = "[Took g]" and g = g])
      (auto simp: sys_simps agrees_held locks_ok_def)
qed

text \<open>Steps inside, and the two ways out.\<close>

lemma simulates_local:
  assumes "simulates s (cl, am)" "s' = goes g p (s\<lparr>sys_mem := m\<rparr>)" "held (sys_pc s g) \<noteq> NoLock"
    and l: "local_step (sys_pc s g) (sys_mem s) = (p, m)"
  shows "matched s (cl, am) s'"
proof -
  note sim = simulatesD [OF assms(1)]
  obtain rep where rep: "cl g = Told rep" "finish (sys_pc s g) (sys_mem s) = (rep, am)"
    using sim(4) [of g] assms(3) by (auto simp: agrees_held)
  have h: "held p = held (sys_pc s g)" by (rule held_local [OF l])
  have f: "finish p m = (rep, am)" using finish_local [OF assms(3) l] rep(2) by simp
  have kept: "m = sys_mem s" if "held (sys_pc s g) = ReadLock" using read_local [OF that l] .
  have others: "m = sys_mem s" if "g' \<noteq> g" "held (sys_pc s g') \<noteq> NoLock" for g'
    using others_free [OF sim(1) _ that(1)] that(2) kept assms(3) by (cases "held (sys_pc s g)") auto
  have w: "am = m" if "sys_writer s = None"
    using locks_okD(1) [OF sim(1), of g] that assms(3) sim(3) kept by (cases "held (sys_pc s g)") auto
  have "locks_ok s'" using sim(1) h by (simp add: assms(2) sys_simps locks_ok_def)
  then show ?thesis using rep f h assms(2,3) w others sim(2)
    by (intro simulates_event [OF assms(1), where p = p and c = "Told rep" and am' = am and m = m
        and w = "sys_writer s" and R = "sys_readers s" and es = "[]" and g = g])
      (auto simp: sys_simps agrees_held fun_upd_idem)
qed

lemma simulates_unlock:
  assumes "simulates s (cl, am)" "sys_pc s g = Unlocking rep" "s' = goes g (Returning rep) (s\<lparr>sys_writer := None\<rparr>)"
  shows "matched s (cl, am) s'"
proof -
  note sim = simulatesD [OF assms(1)]
  have cl: "cl g = Told rep" "am = sys_mem s" using sim(4) [of g] assms(2) by (auto simp: agrees_def)
  have wr: "held (sys_pc s g) = WriteLock" by (simp add: assms(2))
  have "locks_ok s'" using sim(1) others_free [OF sim(1) wr] locks_okD(3) [OF sim(1)] locks_okD(1) [OF sim(1), of g] wr
    by (auto simp: assms(3) sys_simps locks_ok_def)
  then show ?thesis using cl sim(2) assms(3) others_free [OF sim(1) wr]
    by (intro simulates_event [OF assms(1), where p = "Returning rep" and c = "Told rep" and am' = am and m = "sys_mem s"
        and w = None and R = "sys_readers s" and es = "[]" and g = g])
      (auto simp: sys_simps agrees_def fun_upd_idem)
qed

lemma simulates_runlock:
  assumes "simulates s (cl, am)" "sys_pc s g = RUnlocking rep" "s' = goes g (Returning rep) (s\<lparr>sys_readers := sys_readers s - {g}\<rparr>)"
  shows "matched s (cl, am) s'"
proof -
  note sim = simulatesD [OF assms(1)]
  have cl: "cl g = Told rep" "am = sys_mem s" using sim(4) [of g] assms(2) by (auto simp: agrees_def)
  have "locks_ok s'" using sim(1) assms(2) by (auto simp: assms(3) sys_simps locks_ok_def)
  then show ?thesis using cl sim(2) assms(3)
    by (intro simulates_event [OF assms(1), where p = "Returning rep" and c = "Told rep" and am' = am and m = "sys_mem s"
        and w = "sys_writer s" and R = "sys_readers s - {g}" and es = "[]" and g = g])
      (auto simp: sys_simps agrees_def fun_upd_idem)
qed

lemma simulates_step:
  assumes "system_step g s s'" "simulates s (cl, am)"
  shows "matched s (cl, am) s'"
proof -
  note sim = simulatesD [OF assms(2)]
  show ?thesis using assms(1)
  proof cases
    case (invoke c)
    then show ?thesis using sim(4) [of g]
      by (intro simulates_outside [OF assms(2) invoke(1), where c = "Asked c"]) (simp_all add: agrees_def)
  next
    case (refuse r e)
    then show ?thesis using sim(4) [of g]
      by (intro simulates_outside [OF assms(2) refuse(1), where c = "Told (RRecord (Some (Invalid e)))"])
        (simp_all add: agrees_def mem_Record_def)
  next
    case (lock c)
    then show ?thesis by (intro simulates_lock [OF assms(2)])
  next
    case (rlock_get i)
    then show ?thesis by (intro simulates_rlock [OF assms(2) rlock_get(1,2)]) (auto simp: rlock_get)
  next
    case (rlock_list q ids)
    have "Inr (list_page q (filter (query_match q) (map (\<lambda>i. the (fmlookup (runs am) i)) ids))) = mem_List q am"
      using mem_List_any_order [OF sim(2) rlock_list(4)] rlock_list(3,5) sim(3) by (simp add: mem_List_ranged_def)
    then show ?thesis by (intro simulates_rlock [OF assms(2) rlock_list(1,2)]) (auto simp: rlock_list)
  next
    case (local p m)
    then show ?thesis by (intro simulates_local [OF assms(2)])
  next
    case (unlock rep)
    then show ?thesis by (intro simulates_unlock [OF assms(2)])
  next
    case (runlock rep)
    then show ?thesis by (intro simulates_runlock [OF assms(2)])
  next
    case (return rep)
    then show ?thesis using sim(4) [of g]
      by (intro simulates_outside [OF assms(2) return(1), where c = Quiet]) (simp_all add: agrees_def)
  qed
qed

lemma atomic_run_append:
  "atomic_run (es @ fs) st = (case atomic_run es st of None \<Rightarrow> None | Some st' \<Rightarrow> atomic_run fs st')"
  by (induction es arbitrary: st) (auto split: option.splits)

lemma system_simulated:
  assumes "system_reaches (system_start NewMemory) s"
  shows "\<exists>st. atomic_run (sys_trace s) (\<lambda>g. Quiet, NewMemory) = Some st \<and> simulates s st"
  using assms unfolding system_reaches_def
proof (induction rule: rtranclp_induct)
  case base
  show ?case by (simp add: system_start_def simulates_def locks_ok_def mem_inv_New agrees_def)
next
  case (step s t)
  then obtain g cl am where "system_step g s t" "atomic_run (sys_trace s) (\<lambda>g. Quiet, NewMemory) = Some (cl, am)" "simulates s (cl, am)"
    by auto
  with simulates_step show ?case by (fastforce simp: atomic_run_append)
qed

section \<open>Properties\<close>

text \<open>
  Property C6. The in-process backend is linearizable: however its goroutines interleave, step by step, and in
  whatever order \<open>List\<close> visits the map, the calls and replies are those of the atomic store in the order
  in which the operations got the lock, each at one moment between its call and its return; and when
  nobody holds the write lock the map is the atomic store's.
\<close>

theorem memory_linearizable:
  assumes "system_reaches (system_start NewMemory) s"
  shows "\<exists>cl am. atomic_run (sys_trace s) (\<lambda>g. Quiet, NewMemory) = Some (cl, am)
    \<and> (sys_writer s = None \<longrightarrow> am = sys_mem s)
    \<and> (\<forall>g rep. sys_pc s g = Returning rep \<longrightarrow> cl g = Told rep)"
proof -
  obtain cl am where run: "atomic_run (sys_trace s) (\<lambda>g. Quiet, NewMemory) = Some (cl, am)" and sim: "simulates s (cl, am)"
    using system_simulated [OF assms] by auto
  have told: "cl g = Told rep" if "sys_pc s g = Returning rep" for g rep
    using simulatesD(4) [OF sim, of g] that by (simp add: agrees_def)
  show ?thesis
    by (intro exI [of _ cl] exI [of _ am] conjI allI impI run) (use simulatesD(3) [OF sim] told in blast)+
qed

text \<open>
  Two goroutines, one recording and one reading; the reader calls while the writer is between its look-up
  and its insertion.
\<close>

lemma reach_step: "system_reaches s0 s \<Longrightarrow> system_step g s s' \<Longrightarrow> system_reaches s0 s'"
  unfolding system_reaches_def by (rule rtranclp.rtrancl_into_rtrancl) blast+

definition sample_called :: store_system where
  "sample_called = goes 0 (Looking sample_run) (logs (Took 0) ((goes 0 (Called (CRecord sample_run))
     (logs (Invoked 0 (CRecord sample_run)) (system_start NewMemory)))\<lparr>sys_writer := Some 0\<rparr>))"

definition sample_inserting :: store_system where
  "sample_inserting = goes 1 (Called (CGet ''run_1'')) (logs (Invoked 1 (CGet ''run_1'')) (goes 0 (Inserting sample_run) sample_called))"

lemma sample_called_reached: "system_reaches (system_start NewMemory) sample_called"
proof -
  have norm: "NormalizeCapture sample_run = sample_run" by (simp add: NormalizeCapture_def sample_run_def zero_run_def)
  have "system_reaches (system_start NewMemory) (system_start NewMemory)" by (simp add: system_reaches_def)
  from reach_step [OF this system_step.invoke [of _ 0 "CRecord sample_run"]]
  have "system_reaches (system_start NewMemory)
      (goes 0 (Called (CRecord sample_run)) (logs (Invoked 0 (CRecord sample_run)) (system_start NewMemory)))"
    by (simp add: system_start_def)
  from reach_step [OF this system_step.lock [of _ 0 "CRecord sample_run"]] show ?thesis
    by (simp add: sample_called_def norm Validate_sample_run sys_simps system_start_def)
qed

lemma sample_inserting_reached: "system_reaches (system_start NewMemory) sample_inserting"
proof -
  let ?s = "goes 0 (Inserting sample_run) sample_called"
  have "system_step 0 sample_called (goes 0 (Inserting sample_run) (sample_called\<lparr>sys_mem := NewMemory\<rparr>))"
    by (rule system_step.local) (simp_all add: sample_called_def sys_simps system_start_def NewMemory_def)
  moreover have "sample_called\<lparr>sys_mem := NewMemory\<rparr> = sample_called" by (simp add: sample_called_def sys_simps system_start_def)
  ultimately have "system_reaches (system_start NewMemory) ?s" using reach_step [OF sample_called_reached] by simp
  moreover have "system_step 1 ?s sample_inserting" unfolding sample_inserting_def
    by (rule system_step.invoke) (simp add: sample_called_def sys_simps system_start_def)
  ultimately show ?thesis by (rule reach_step)
qed

theorem memory_linearizable_witness:
  "\<exists>cl am. atomic_run [Invoked 0 (CRecord sample_run), Took 0, Invoked 1 (CGet ''run_1'')] (\<lambda>g. Quiet, NewMemory) = Some (cl, am)"
proof -
  have "sys_trace sample_inserting = [Invoked 0 (CRecord sample_run), Took 0, Invoked 1 (CGet ''run_1'')]"
    by (simp add: sample_inserting_def sample_called_def sys_simps system_start_def)
  with memory_linearizable [OF sample_inserting_reached] show ?thesis by metis
qed

section \<open>Progress\<close>

lemma local_moves:
  assumes "held p \<noteq> NoLock" "\<And>rep. p \<noteq> Unlocking rep" "\<And>rep. p \<noteq> RUnlocking rep"
  shows "fst (local_step p m) \<noteq> p"
  using assms by (cases "(p, m)" rule: local_step.cases) (auto split: option.split sum.split)

lemma inside_moves:
  assumes "held (sys_pc s g) \<noteq> NoLock"
  shows "\<exists>s'. system_step g s s'"
proof (cases "\<exists>rep. sys_pc s g = Unlocking rep \<or> sys_pc s g = RUnlocking rep")
  case True
  then show ?thesis using system_step.unlock system_step.runlock by metis
next
  case False
  obtain p m where pm: "local_step (sys_pc s g) (sys_mem s) = (p, m)" by fastforce
  moreover have "p \<noteq> sys_pc s g" using local_moves [OF assms, of "sys_mem s"] False pm by auto
  ultimately show ?thesis using system_step.local [OF assms] by blast
qed

lemma lock_free_or_held:
  assumes "locks_ok s" "sys_writer s \<noteq> None \<or> sys_readers s \<noteq> {}"
  shows "\<exists>h. held (sys_pc s h) \<noteq> NoLock"
proof (cases "sys_writer s")
  case None
  then obtain h where "h \<in> sys_readers s" using assms(2) by auto
  then have "held (sys_pc s h) = ReadLock" using locks_okD(2) [OF assms(1)] by simp
  then show ?thesis by (metis lock.distinct(1))
next
  case (Some h)
  then have "held (sys_pc s h) = WriteLock" using locks_okD(1) [OF assms(1)] by simp
  then show ?thesis by (metis lock.distinct(3))
qed

text \<open>A goroutine that waits for a free lock gets it.\<close>

lemma called_moves:
  assumes "sys_pc s g = Called c" "sys_writer s = None" "sys_readers s = {}"
  shows "\<exists>s'. system_step g s s'"
proof (cases c)
  case (CRecord r)
  with assms system_step.refuse [of s g r] system_step.lock [of s g c] show ?thesis
    by (cases "Validate r") (simp_all, blast+)
next
  case (CList q)
  then show ?thesis
    using system_step.rlock_list [of s g q "sorted_list_of_fset (fmdom (runs (sys_mem s)))"] assms by auto
next
  case (CGet i)
  with assms system_step.rlock_get [of s g i] show ?thesis by auto
qed (use assms system_step.lock [of s g c] in auto)

text \<open>
  Property C25. There is no deadlock: in whatever state the goroutines have reached, if one of them is in the middle
  of an operation then some goroutine that is can take a step.
\<close>

theorem memory_no_deadlock:
  assumes "system_reaches (system_start NewMemory) s" "sys_pc s g \<noteq> Idle"
  shows "\<exists>h s'. sys_pc s h \<noteq> Idle \<and> system_step h s s'"
proof -
  obtain st where "simulates s st" using system_simulated [OF assms(1)] by blast
  then have locks: "locks_ok s" by (simp add: simulates_def)
  show ?thesis
  proof (cases "\<exists>h. held (sys_pc s h) \<noteq> NoLock")
    case True
    then obtain h where h: "held (sys_pc s h) \<noteq> NoLock" by blast
    then have "sys_pc s h \<noteq> Idle" by auto
    with inside_moves [OF h] show ?thesis by blast
  next
    case False
    then have "sys_writer s = None" "sys_readers s = {}" using lock_free_or_held [OF locks] by blast+
    moreover have "held (sys_pc s g) = NoLock" using False by blast
    then have "(\<exists>c. sys_pc s g = Called c) \<or> (\<exists>rep. sys_pc s g = Returning rep)"
      using assms(2) by (cases "sys_pc s g") simp_all
    ultimately show ?thesis using called_moves system_step.return assms(2) by metis
  qed
qed

theorem memory_no_deadlock_witness:
  "\<exists>h s'. sys_pc sample_inserting h \<noteq> Idle \<and> system_step h sample_inserting s'"
  by (rule memory_no_deadlock [OF sample_inserting_reached, of 0])
    (simp add: sample_inserting_def sys_simps)

end
