(* ===== verification/Spec2Isabelle.thy ===== *)
theory Spec2Isabelle
  imports Http_Rules Backends Runledger Rlctl_Rules Conformance_Backends Duckdb_Interleaved Server_Duckdb Memory_Concurrent
begin

text \<open>
  \<^bold>\<open>A verification development for run-ledger\<close>

  run-ledger records machine-learning experiment runs. A server (\<open>cmd/runledger\<close>, \<open>internal/api\<close>)
  takes runs over HTTP, stamps each with a fingerprint of what it was (\<open>internal/lineage\<close>), keeps it
  in one of two backends (\<open>internal/store\<close>: a map in memory, or DuckDB), lets it move through its
  lifecycle by partial updates, and answers three questions: which runs there are (paged listings),
  what differs between two runs (\<open>internal/compare\<close>), and how far runs of the same experiment spread
  (\<open>internal/spread\<close>). \<open>internal/metrics\<close> counts what the server does; \<open>cmd/rlctl\<close> is the client.

  \<^bold>\<open>Theories and the code they model\<close>

  \<^item> Foundations. \<open>Prelude\<close>: Go strings as byte strings, Go maps as \<open>gomap\<close> (nil or a finite map), the
    order of a map range as an argument. \<open>Strings\<close>: \<open>strconv\<close> and \<open>strings\<close>. \<open>Sha256\<close>: \<open>crypto/sha256\<close> and
    hex. \<open>Float64\<close>, \<open>Decimal\<close>: IEEE doubles as bit patterns with correct rounding, \<open>ParseFloat\<close> on plain
    decimal literals, shortest \<open>FormatFloat\<close>, and that one undoes the other. \<open>GoTime\<close>: instants as integers
    of nanoseconds with a location, \<open>UnixNano\<close> wrapping at 64 bits. \<open>Sorting_Search\<close>: \<open>sort.Slice\<close> and
    \<open>sort.Search\<close>.
  \<^item> \<open>Lineage\<close>, \<open>Fingerprint\<close> (\<open>internal/lineage/run.go\<close>): the record \<open>run\<close>, \<open>Validate\<close>,
    \<open>NormalizeCapture\<close>, \<open>normalizeParamValue\<close> and \<open>Compute\<close>. The fingerprint of two runs is the same exactly
    when their identity is, up to a SHA-256 collision; normalising a parameter merges exactly the literals
    with the same nearest double.
  \<^item> \<open>Store\<close>, \<open>Patch_Rules\<close> (\<open>internal/store/store.go\<close>): errors with what they wrap, queries, patches,
    \<open>applyPatch\<close>. An accepted patch keeps the identity, follows the lifecycle, and can be sent again.
  \<^item> \<open>Store_Contract\<close>: the Go interface \<open>Store\<close> as the locale \<open>run_store\<close>, with the abstract state (a map
    from ids to runs), the abstract listing (\<open>is_listing\<close>: matching runs in the total order) and what a client
    may conclude from the laws: histories only evolve runs, and following cursors visits everything once.
  \<^item> \<open>Memory\<close>, \<open>Memory_Rules\<close> (\<open>internal/store/memory.go\<close>): the interpretation \<open>mem\<close> of \<open>run_store\<close>.
    \<open>Memory_Concurrent\<close>: the same operations as steps of goroutines under the mutex, linearizable and without deadlock.
  \<^item> \<open>Sql\<close>, \<open>Duckdb\<close>, \<open>Duckdb_Tables\<close>, \<open>Duckdb_Listing\<close>, \<open>Duckdb_Store\<close>, \<open>Duckdb_Rules\<close>
    (\<open>internal/store/duckdb.go\<close>): the statements the backend sends and what they mean on relational tables
    (\<open>tab_exec\<close>), the engine as a parameter with the laws of the locale \<open>sql_engine\<close>, the operations over any
    such engine, and the \<open>sublocale\<close> that makes each of them a \<open>run_store\<close>. The tables themselves are the
    executable instance \<open>tab\<close>. \<open>Duckdb_Schema\<close>: the migration chain and its loop over \<open>schema_engine\<close>.
    \<open>Backends\<close>: on requests that stay clear of the known differences, both backends give the same answers.
    \<open>Duckdb_Interleaved\<close>: reads that span the commits of other requests, what of them is still whole and
    what is torn.
  \<^item> \<open>Conformance\<close> (\<open>internal/store/conformance.go\<close>): the suite every backend must pass, each subtest a predicate
    over the operations \<open>store_ops\<close>, its clock readings and the schedules of its goroutines as arguments; a listing
    that others interrupt is given the store at each of its statements (\<open>listing\<close>).
    \<open>Conformance_Rules\<close>, \<open>Conformance_Paging\<close>: what a client sees of a store that meets \<open>run_store\<close> up to the
    differences a test cannot tell (the locale \<open>conforming_store\<close>, over \<open>spanning_store\<close>, whose listings span the
    records of others), and what following the cursor visits meanwhile. \<open>Conformance_Suite\<close>, \<open>Conformance_Updates\<close>,
    \<open>Conformance_Concurrency\<close>: the subtests pass on every such store. \<open>Conformance_Backends\<close>: both backends are one.
  \<^item> \<open>Compare\<close> (\<open>internal/compare/compare.go\<close>), \<open>Spread\<close> (\<open>internal/spread/spread.go\<close>), \<open>Metrics\<close>
    (\<open>internal/metrics/metrics.go\<close>): the diff, the statistics and the counters, as functions.
  \<^item> \<open>Cursors\<close>, \<open>Api\<close>, \<open>Server\<close>, \<open>Server_Rules\<close>, \<open>Http_Rules\<close> (\<open>internal/api/api.go\<close>): page tokens, the
    handlers as state passing over a \<open>server\<close>, the routes and middleware (\<open>serve\<close> is one request), and what
    holds of every sequence of requests: who may write, what every stored run carries, complete paging. The
    locale \<open>served_store\<close> proves it over any backend; \<open>Server_Rules\<close> interprets it on the map in memory and
    \<open>Server_Duckdb\<close> on DuckDB.
  \<^item> \<open>Runledger\<close> (\<open>cmd/runledger/main.go\<close>): tokens, store selection, the server that results, and its
    life from listening to exit as a sequence of events (\<open>process_step\<close>).
  \<^item> \<open>Render\<close>, \<open>Rlctl\<close>, \<open>Rlctl_Rules\<close> (\<open>cmd/rlctl/main.go\<close>): the commands, the tables they print, and
    the path of a run from the command line into the ledger of either backend (the locale \<open>reporting_store\<close>).

  \<^bold>\<open>Conventions\<close>

  A Go error is a value: \<open>store_error\<close>, \<open>validation_error\<close>, \<open>api_error\<close> or \<open>cli_error\<close> on the left of a sum, or
  the first component of a pair with the state. A store operation of the map in memory holds the mutex (\<open>Memory_Concurrent\<close>), and
  \<open>Record\<close> and \<open>Update\<close> of DuckDB hold it around one transaction, so each is one atomic step; histories are
  sequences of steps. \<open>Get\<close> and \<open>List\<close> of DuckDB take no lock and send several statements: \<open>duck_get_at\<close> and
  \<open>duck_List_at\<close> have one database for each statement, and \<open>duck_get\<close> and \<open>duck_List\<close>, which most theorems are
  about, are the case where no write falls between them. The conformance suite and the paging theorem of the durable
  backend use \<open>duck_List_at\<close>, with records between its statements; only an update in between can tear a listing, and
  then only the metrics (\<open>Duckdb_Interleaved\<close>). A handler calls the store once, but for the
  comparison of two runs (\<open>api_compare_at\<close>), so \<open>serve\<close> as one step orders requests by their calls. \<open>int64\<close> and \<open>uint64\<close> values are
  64-bit words where they wrap and integers where the code keeps them small (limits and counts); the one sum that
  can leave the range, \<open>query.Limit+1\<close>, wraps (\<open>limit_plus_one\<close>), and \<open>duck_listable\<close> leaves out the limit for which it does. A nil map
  and an empty one are kept apart because \<open>reflect.DeepEqual\<close> does.

  \<^bold>\<open>Bounds and fuel\<close>

  The program's loops run over lists, so the definitions are structurally recursive. A client that follows
  cursors could go on for ever: \<open>traverse\<close> takes fuel, and the theorems state that any fuel above the number of
  runs is enough. The loops of the conformance suite that follow cursors have the bound the suite itself has
  (it fails after as many pages), and the subtest that writes while it pages takes the number of rows the writer
  gets in before each statement of each page as a list that is longer than the traversal can be. The clocks of the suite show
  times between 1970 and 2116 and never run backwards (\<open>clock_ok\<close>): with a clock set back, a run of the suite would end before it
  started. The printing of floats cuts digits off the exact decimal expansion of the value, at worst
  none, so the search ends with a literal that reads back (\<open>Decimal\<close>). The histogram theorem holds below
  \<open>2 ^ 64\<close> observations.

  \<^bold>\<open>What is assumed\<close>

  The laws of \<open>sql_engine\<close> and \<open>schema_engine\<close> are about go-duckdb, which is not in the repository: atomic
  transactions, the SQL meaning of the statements sent, constraints enforced, and no failure of the disk.
  Both are shown to be satisfiable by the tables themselves. Failures of the engine are still branches of the
  operations. \<open>mime.ParseMediaType\<close>, RFC 3339 parsing, \<open>strconv.Quote\<close>, \<open>fmt.Sscanf\<close>, git, the environment, the
  clock, random suffixes and the HTTP transport are arguments of the model. A request body is the outcome of
  decoding it; responses carry values, not their JSON text. Where the client's JSON matters, only what \<open>encoding/json\<close> documents is
  assumed (\<open>json_carries\<close>): empty containers may come back nil, bytes that are not UTF-8 are replaced, and encoding may fail. \<open>http.ServeMux\<close> is modelled for the patterns used.

  \<^bold>\<open>Not modelled\<close>

  Sockets, time-outs and logging of the server, the parsing of flags, JSON texts, the connection
  pool of the DuckDB backend and what its \<open>Close\<close> does, the Python client, the
  dashboard and the deployment files.
\<close>

end
